(* ===== verification/Rust_Base.thy ===== *)
theory Rust_Base
  imports Main "HOL-Library.Word" "HOL-Library.AList" "HOL-Library.Char_ord" "HOL-Library.List_Lexorder"
begin

text \<open>
  The prelude of the development: the fragment of Rust and of its standard library that the
  node (\<^verbatim>\<open>src/zyphra/src\<close>) is written in.

  \<^item> machine integers: \<open>u8\<close> and \<open>u64\<close> as words, with the checked arithmetic of a debug build
    and the wrapping arithmetic of a release build (\<^verbatim>\<open>Cargo.toml\<close> leaves \<open>overflow-checks\<close> at
    its default), a panic being the value \<open>Panic\<close>;
  \<^item> \<open>str\<close> as the list of its UTF-8 bytes: \<open>strip_prefix\<close>, \<open>trim\<close>, \<open>split_whitespace\<close>,
    \<open>parse::<u64>\<close> and the decimal \<open>Display\<close> of an integer;
  \<^item> hash maps as association lists with distinct keys (\<open>DashMap\<close>, \<open>HashMap\<close>);
  \<^item> reachability of a transition system and the interface \<open>codec\<close> of a printer and its parser;
  \<^item> the lemmas on these that the components share.
\<close>

named_theorems rust_defs \<open>definitions of the Rust primitives, unfolded by case analysis\<close>

section \<open>Machine integers and panics\<close>

type_synonym u8 = "8 word"
type_synonym u64 = "64 word"
type_synonym bytes = "u8 list"

text \<open>The two build profiles differ in what an overflowing \<open>+\<close> or \<open>-\<close> does.\<close>

datatype build = Debug | Release

datatype 'a run = Ret 'a | Panic

definition u64_add :: "build \<Rightarrow> u64 \<Rightarrow> u64 \<Rightarrow> u64 run" where
  "u64_add bp a b = (if bp = Debug \<and> 2 ^ 64 \<le> unat a + unat b then Panic else Ret (a + b))"

definition u64_sub :: "build \<Rightarrow> u64 \<Rightarrow> u64 \<Rightarrow> u64 run" where
  "u64_sub bp a b = (if bp = Debug \<and> a < b then Panic else Ret (a - b))"

declare u64_add_def [rust_defs] u64_sub_def [rust_defs]

lemma unat_u64_bound [simp]: "unat (a :: u64) < 18446744073709551616"
proof -
  have "unat a < 2 ^ LENGTH(64)" by (rule unsigned_less)
  then show ?thesis by simp
qed

lemma unat_u64_not_ge [simp]: "\<not> 18446744073709551616 \<le> unat (a :: u64)"
  by (simp add: not_le)

lemma unat_u64_add: "unat (a + b :: u64) = (unat a + unat b) mod 2 ^ 64"
  by (simp add: unat_word_ariths)

lemma unat_u64_add_exact: "unat a + unat b < 2 ^ 64 \<Longrightarrow> unat (a + b :: u64) = unat a + unat b"
  by (simp add: unat_u64_add)

lemma mod_word_overflow:
  fixes x y :: nat
  assumes "2 ^ 64 \<le> x + y" "x < 2 ^ 64" "y < 2 ^ 64"
  shows "(x + y) mod 2 ^ 64 = x + y - 2 ^ 64"
proof -
  have "x + y - 2 ^ 64 < 2 ^ 64" using assms by linarith
  then show ?thesis using le_mod_geq [OF assms(1)] by simp
qed

lemma unat_u64_sub_exact: "b \<le> a \<Longrightarrow> unat (a - b :: u64) = unat a - unat b"
  by (simp add: unat_sub)

lemma u64_add_exact:
  "unat a + unat b < 2 ^ 64 \<Longrightarrow> u64_add bp a b = Ret (a + b)"
  by (simp add: rust_defs)

lemma u64_add_Release [simp]: "u64_add Release a b = Ret (a + b)"
  by (simp add: rust_defs)

lemma u64_add_Ret_iff:
  "u64_add bp a b = Ret c \<longleftrightarrow> c = a + b \<and> (bp = Debug \<longrightarrow> unat a + unat b < 2 ^ 64)"
  by (auto simp: rust_defs)

lemma u64_add_Panic_iff:
  "u64_add bp a b = Panic \<longleftrightarrow> bp = Debug \<and> 2 ^ 64 \<le> unat a + unat b"
  by (auto simp: rust_defs)

lemma u64_sub_exact: "b \<le> a \<Longrightarrow> u64_sub bp a b = Ret (a - b)"
  by (simp add: rust_defs not_less)

section \<open>Results\<close>

text \<open>
  A \<open>Result\<close> is a sum with the error on the left; an \<open>anyhow::Error\<close> is the text its \<open>Display\<close>
  shows, which is the outermost context. \<open>try_bind\<close> is the question mark operator.
\<close>

type_synonym 'a result = "string + 'a"

definition try_bind :: "'e + 'a \<Rightarrow> ('a \<Rightarrow> 'e + 'b) \<Rightarrow> 'e + 'b" where
  "try_bind r f = (case r of Inl e \<Rightarrow> Inl e | Inr x \<Rightarrow> f x)"

definition result_ok :: "'e + 'a \<Rightarrow> 'a option" where
  "result_ok r = (case r of Inl _ \<Rightarrow> None | Inr x \<Rightarrow> Some x)"

definition with_context :: "string \<Rightarrow> 'e + 'a \<Rightarrow> 'a result" where
  "with_context c r = (case r of Inl _ \<Rightarrow> Inl c | Inr x \<Rightarrow> Inr x)"

definition ok_or :: "'e \<Rightarrow> 'a option \<Rightarrow> 'e + 'a" where
  "ok_or e x = (case x of None \<Rightarrow> Inl e | Some y \<Rightarrow> Inr y)"

lemma result_simps [simp]:
  "try_bind (Inl e) f = Inl e" "try_bind (Inr x) f = f x"
  "result_ok (Inl e) = None" "result_ok (Inr x) = Some x"
  "with_context c (Inl e) = Inl c" "with_context c (Inr x) = Inr x"
  "ok_or e None = Inl e" "ok_or e (Some x) = Inr x"
  by (simp_all add: try_bind_def result_ok_def with_context_def ok_or_def)

lemma try_bind_Inr_iff: "try_bind r f = Inr y \<longleftrightarrow> (\<exists>x. r = Inr x \<and> f x = Inr y)"
  by (cases r) auto

lemma with_context_iff:
  "with_context c r = Inr x \<longleftrightarrow> r = Inr x" "with_context c r = Inl e \<longleftrightarrow> e = c \<and> (\<exists>d. r = Inl d)"
  by (cases r; auto)+

lemma ok_or_iff: "ok_or e x = Inr y \<longleftrightarrow> x = Some y" "ok_or e x = Inl f \<longleftrightarrow> f = e \<and> x = None"
  by (cases x; auto)+

lemma result_ok_iff [simp]: "result_ok r = Some x \<longleftrightarrow> r = Inr x" "result_ok r = None \<longleftrightarrow> (\<exists>e. r = Inl e)"
  by (cases r; auto)+

section \<open>Decimal text of an integer: \<open>Display\<close> and \<open>parse::<u64>\<close>\<close>

definition digit_char :: "nat \<Rightarrow> char" where
  "digit_char d = char_of (48 + d)"

definition digit_val :: "char \<Rightarrow> nat option" where
  "digit_val c = (let n = of_char c :: nat in if 48 \<le> n \<and> n \<le> 57 then Some (n - 48) else None)"

fun show_nat :: "nat \<Rightarrow> string" where
  "show_nat n = (if n < 10 then [digit_char n] else show_nat (n div 10) @ [digit_char (n mod 10)])"

declare show_nat.simps [simp del]

definition show_u64 :: "u64 \<Rightarrow> string" where
  "show_u64 a = show_nat (unat a)"

text \<open>
  \<open>u64::from_str\<close>: an optional leading plus sign, then at least one digit and nothing else;
  the value is checked against the type's range after every digit.
\<close>

fun parse_digits :: "nat \<Rightarrow> string \<Rightarrow> nat option" where
  "parse_digits acc [] = Some acc"
| "parse_digits acc (c # cs) =
     (case digit_val c of
        None \<Rightarrow> None
      | Some d \<Rightarrow> (if acc * 10 + d < 2 ^ 64 then parse_digits (acc * 10 + d) cs else None))"

definition parse_u64 :: "string \<Rightarrow> u64 option" where
  "parse_u64 s =
     (case s of
        [] \<Rightarrow> None
      | c # cs \<Rightarrow>
          (if c = CHR ''+''
           then (if cs = [] then None else map_option of_nat (parse_digits 0 cs))
           else map_option of_nat (parse_digits 0 s)))"

lemma digit_val_digit_char [simp]: "d < 10 \<Longrightarrow> digit_val (digit_char d) = Some d"
  by (simp add: digit_val_def digit_char_def)

lemma digit_char_neq_plus [simp]: "d < 10 \<Longrightarrow> digit_char d \<noteq> CHR ''+''"
proof
  assume "d < 10" and "digit_char d = CHR ''+''"
  then have "digit_val (CHR ''+'') = Some d" by (metis digit_val_digit_char)
  then show False by (simp add: digit_val_def)
qed

lemma show_nat_nonempty [simp]: "show_nat n \<noteq> []"
  by (subst show_nat.simps) simp

lemma show_nat_digits: "c \<in> set (show_nat n) \<Longrightarrow> \<exists>d < 10. c = digit_char d"
proof (induction n rule: show_nat.induct)
  case (1 n)
  have "n mod 10 < 10" by simp
  with 1 show ?case by (subst (asm) (2) show_nat.simps) (force split: if_splits)
qed

lemma parse_digits_append:
  "parse_digits acc (xs @ ys) = (case parse_digits acc xs of None \<Rightarrow> None | Some v \<Rightarrow> parse_digits v ys)"
  by (induction acc xs rule: parse_digits.induct) (auto split: option.splits)

lemma parse_digits_show_nat: "n < 2 ^ 64 \<Longrightarrow> parse_digits 0 (show_nat n) = Some n"
proof (induction n rule: show_nat.induct)
  case (1 n)
  show ?case
  proof (cases "n < 10")
    case True
    then show ?thesis by (subst show_nat.simps) simp
  next
    case False
    with 1 have "parse_digits 0 (show_nat (n div 10)) = Some (n div 10)" by simp
    with False "1.prems" show ?thesis
      by (subst show_nat.simps) (simp add: parse_digits_append mult.commute)
  qed
qed

lemma parse_show_u64: "parse_u64 (show_u64 a) = Some a"
proof -
  obtain c cs where s: "show_nat (unat a) = c # cs"
    by (cases "show_nat (unat a)") auto
  then have "c \<noteq> CHR ''+''"
    using show_nat_digits [of c "unat a"] by auto
  with s show ?thesis
    using parse_digits_show_nat [of "unat a"] by (simp add: parse_u64_def show_u64_def)
qed

section \<open>Text: \<open>strip_prefix\<close>, \<open>trim\<close>, \<open>split_whitespace\<close>\<close>

definition strip_prefix :: "string \<Rightarrow> string \<Rightarrow> string option" where
  "strip_prefix p s = (if take (length p) s = p then Some (drop (length p) s) else None)"

lemma strip_prefix_append [simp]: "strip_prefix p (p @ s) = Some s"
  by (simp add: strip_prefix_def)

text \<open>
  A \<open>str\<close> is modelled by its UTF-8 bytes. The number of bytes of the white space character at
  the head of the text, zero if the head is none. The characters are those of the Unicode
  property \<open>White_Space\<close>: U+0009 to U+000D, U+0020, U+0085, U+00A0, U+1680, U+2000 to U+200A,
  U+2028, U+2029, U+202F, U+205F and U+3000.
\<close>

definition byte_at :: "string \<Rightarrow> nat \<Rightarrow> nat" where
  "byte_at s i = (if i < length s then of_char (s ! i) else 0)"

definition ws_code :: "nat \<Rightarrow> nat \<Rightarrow> nat \<Rightarrow> nat" where
  "ws_code b0 b1 b2 =
     (if b0 \<in> {9, 10, 11, 12, 13, 32} then 1
      else if b0 = 0xC2 \<and> b1 \<in> {0x85, 0xA0} then 2
      else if b0 = 0xE1 \<and> b1 = 0x9A \<and> b2 = 0x80 then 3
      else if b0 = 0xE2 \<and> b1 = 0x80 \<and> (0x80 \<le> b2 \<and> b2 \<le> 0x8A \<or> b2 \<in> {0xA8, 0xA9, 0xAF}) then 3
      else if b0 = 0xE2 \<and> b1 = 0x81 \<and> b2 = 0x9F then 3
      else if b0 = 0xE3 \<and> b1 = 0x80 \<and> b2 = 0x80 then 3
      else 0)"

definition ws_len :: "string \<Rightarrow> nat" where
  "ws_len s = ws_code (byte_at s 0) (byte_at s 1) (byte_at s 2)"

lemma ws_len_Nil [simp]: "ws_len [] = 0"
  by (simp add: ws_len_def ws_code_def byte_at_def)

function str_trim_start :: "string \<Rightarrow> string" where
  "str_trim_start s = (if ws_len s = 0 then s else str_trim_start (drop (ws_len s) s))"
  by pat_completeness auto
termination
proof (relation "measure length")
  fix s :: string
  assume "ws_len s \<noteq> 0"
  moreover from this have "s \<noteq> []" by auto
  ultimately show "(drop (ws_len s) s, s) \<in> measure length" by (cases s) auto
qed simp

declare str_trim_start.simps [simp del]

fun str_trim_end :: "string \<Rightarrow> string" where
  "str_trim_end [] = []"
| "str_trim_end (c # cs) = (if str_trim_start (c # cs) = [] then [] else c # str_trim_end cs)"

definition str_trim :: "string \<Rightarrow> string" where
  "str_trim s = str_trim_end (str_trim_start s)"

text \<open>The words of a text: \<open>cur\<close> is the word being read, in reverse.\<close>

definition flush_word :: "string \<Rightarrow> string list" where
  "flush_word cur = (if cur = [] then [] else [rev cur])"

function split_ws :: "string \<Rightarrow> string \<Rightarrow> string list" where
  "split_ws cur s =
     (if s = [] then flush_word cur
      else if 0 < ws_len s then flush_word cur @ split_ws [] (drop (ws_len s) s)
      else split_ws (hd s # cur) (tl s))"
  by pat_completeness auto
termination
  by (relation "measure (\<lambda>(cur, s). length s)") (auto simp: neq_Nil_conv)

declare split_ws.simps [simp del]

definition split_whitespace :: "string \<Rightarrow> string list" where
  "split_whitespace s = split_ws [] s"

lemma split_ws_Nil [simp]: "split_ws cur [] = flush_word cur"
  by (simp add: split_ws.simps)

lemma split_ws_space:
  "0 < ws_len s \<Longrightarrow> split_ws cur s = flush_word cur @ split_ws [] (drop (ws_len s) s)"
  by (cases "s = []") (auto simp: split_ws.simps [of cur s])

lemma split_ws_char: "ws_len (c # s) = 0 \<Longrightarrow> split_ws cur (c # s) = split_ws (c # cur) s"
  by (simp add: split_ws.simps [of cur "c # s"])

lemma str_trim_start_space:
  "0 < ws_len s \<Longrightarrow> str_trim_start s = str_trim_start (drop (ws_len s) s)"
  by (simp add: str_trim_start.simps [of s])

lemma str_trim_start_char: "ws_len s = 0 \<Longrightarrow> str_trim_start s = s"
  by (simp add: str_trim_start.simps [of s])

lemma split_trim_start: "split_ws [] (str_trim_start s) = split_ws [] s"
proof (induction s rule: str_trim_start.induct)
  case (1 s)
  show ?case
  proof (cases "ws_len s = 0")
    case False
    with 1 show ?thesis
      by (simp only: str_trim_start_space split_ws_space [of s] flush_word_def) simp
  qed (simp add: str_trim_start_char)
qed

lemma split_blank: "str_trim_start s = [] \<Longrightarrow> split_ws cur s = flush_word cur"
proof (induction s arbitrary: cur rule: str_trim_start.induct)
  case (1 s)
  show ?case
  proof (cases "ws_len s = 0")
    case False
    with "1.prems" have "str_trim_start (drop (ws_len s) s) = []"
      by (simp add: str_trim_start_space)
    with False "1.IH" have "split_ws [] (drop (ws_len s) s) = []"
      by (simp add: flush_word_def)
    with False show ?thesis by (simp add: split_ws_space [of s])
  next
    case True
    with "1.prems" show ?thesis by (simp add: str_trim_start_char)
  qed
qed

text \<open>White space is recognised from its own bytes, and none of its later bytes starts another.\<close>

lemma ws_code_cases:
  "ws_code b0 b1 b2 = 0 \<or> ws_code b0 b1 b2 = 1 \<or> ws_code b0 b1 b2 = 2 \<or> ws_code b0 b1 b2 = 3"
  by (simp add: ws_code_def)

lemma ws_code_1_iff: "ws_code b0 b1 b2 = 1 \<longleftrightarrow> b0 \<in> {9, 10, 11, 12, 13, 32}"
  by (simp add: ws_code_def)

lemma ws_code_1: "ws_code b0 b1 b2 = 1 \<Longrightarrow> 0 < b0 \<and> ws_code b0 c1 c2 = 1"
  unfolding ws_code_1_iff by auto

lemma ws_code_2:
  "ws_code b0 b1 b2 = 2 \<Longrightarrow> 0 < b0 \<and> 0x80 \<le> b1 \<and> b1 \<le> 0xBF \<and> ws_code b0 b1 c2 = 2"
  by (auto simp: ws_code_def split: if_splits)

lemma ws_code_3:
  "ws_code b0 b1 b2 = 3 \<Longrightarrow> 0 < b0 \<and> 0x80 \<le> b1 \<and> b1 \<le> 0xBF \<and> 0x80 \<le> b2 \<and> b2 \<le> 0xBF"
  by (auto simp: ws_code_def split: if_splits)

lemma ws_code_cont: "0x80 \<le> b0 \<Longrightarrow> b0 \<le> 0xBF \<Longrightarrow> ws_code b0 b1 b2 = 0"
  by (simp add: ws_code_def)

lemma byte_at_pos: "0 < byte_at s i \<Longrightarrow> i < length s"
  by (simp add: byte_at_def split: if_splits)

lemma byte_at_drop: "byte_at (drop i s) j = byte_at s (i + j)"
  by (auto simp: byte_at_def)

lemma byte_at_append: "i < length p \<Longrightarrow> byte_at (p @ t) i = byte_at p i"
  by (simp add: byte_at_def nth_append)

lemma byte_at_take: "i < k \<Longrightarrow> byte_at (take k s) i = byte_at s i"
  by (simp add: byte_at_def)

lemma ws_len_elim:
  obtains "ws_len s = 0"
  | "ws_len s = 1" "1 \<le> length s"
  | "ws_len s = 2" "2 \<le> length s" "ws_len (drop 1 s) = 0"
  | "ws_len s = 3" "3 \<le> length s" "ws_len (drop 1 s) = 0" "ws_len (drop 2 s) = 0"
proof -
  let ?c = "ws_code (byte_at s 0) (byte_at s 1) (byte_at s 2)"
  consider "?c = 0" | "?c = 1" | "?c = 2" | "?c = 3" using ws_code_cases [of "byte_at s 0" "byte_at s 1" "byte_at s 2"] by (elim disjE)
  then show thesis
  proof cases
    case 1
    then show ?thesis using that(1) by (simp add: ws_len_def)
  next
    case 2
    have "1 \<le> length s" using ws_code_1 [OF 2, of 0 0] byte_at_pos [of s 0] by linarith
    with 2 that(2) show ?thesis by (simp add: ws_len_def)
  next
    case 3
    have "2 \<le> length s" using ws_code_2 [OF 3, of 0] byte_at_pos [of s 1] by linarith
    moreover have "ws_len (drop 1 s) = 0"
      using ws_code_2 [OF 3] by (simp add: ws_len_def byte_at_drop ws_code_cont)
    ultimately show ?thesis using 3 that(3) by (simp add: ws_len_def)
  next
    case 4
    have "3 \<le> length s" using ws_code_3 [OF 4] byte_at_pos [of s 2] by linarith
    moreover have "ws_len (drop 1 s) = 0" "ws_len (drop 2 s) = 0"
      using ws_code_3 [OF 4] by (simp_all add: ws_len_def byte_at_drop ws_code_cont)
    ultimately show ?thesis using 4 that(4) by (simp add: ws_len_def)
  qed
qed

lemma ws_len_le: "ws_len s \<le> length s"
  by (cases rule: ws_len_elim [of s]) auto

lemma ws_len_take: "0 < ws_len s \<Longrightarrow> ws_len (take (ws_len s) s @ t) = ws_len s"
proof (cases rule: ws_len_elim [of s])
  case 2
  then show ?thesis
    using ws_code_1 by (simp add: ws_len_def byte_at_append byte_at_take)
next
  case 3
  then show ?thesis
    using ws_code_2 by (simp add: ws_len_def byte_at_append byte_at_take)
next
  case 4
  then show ?thesis by (simp add: ws_len_def byte_at_append byte_at_take)
qed simp

lemma ws_len_prefix: "ws_len (p @ q) = 0 \<Longrightarrow> ws_len p = 0"
proof (rule ccontr)
  assume z: "ws_len (p @ q) = 0" and "ws_len p \<noteq> 0"
  then have "ws_len (take (ws_len p) p @ (drop (ws_len p) p @ q)) = ws_len p"
    by (intro ws_len_take) simp
  with z \<open>ws_len p \<noteq> 0\<close> show False by (simp flip: append_assoc)
qed

lemma str_trim_end_prefix: "\<exists>q. s = str_trim_end s @ q"
  by (induction s) auto

lemma str_trim_end_blank: "str_trim_start s = [] \<Longrightarrow> str_trim_end s = []"
  by (cases s) auto

lemma str_trim_end_keep: "s \<noteq> [] \<Longrightarrow> ws_len s = 0 \<Longrightarrow> str_trim_end s = hd s # str_trim_end (tl s)"
  by (cases s) (auto simp: str_trim_start_char)

lemma str_trim_end_space:
  assumes "0 < ws_len s" and nb: "str_trim_start s \<noteq> []"
  shows "str_trim_end s = take (ws_len s) s @ str_trim_end (drop (ws_len s) s)"
proof (cases rule: ws_len_elim [of s])
  case 2
  with nb show ?thesis by (cases s) auto
next
  case 3
  with nb show ?thesis
    by (cases s; cases "tl s") (auto simp: numeral_2_eq_2 str_trim_start_char)
next
  case 4
  with nb show ?thesis
    by (cases s; cases "tl s"; cases "tl (tl s)")
      (auto simp: numeral_2_eq_2 numeral_3_eq_3 str_trim_start_char)
qed (use assms in simp)

lemma split_trim_end: "split_ws cur (str_trim_end s) = split_ws cur s"
proof (induction cur s rule: split_ws.induct)
  case (1 cur s)
  consider (blank) "str_trim_start s = []" | (space) "str_trim_start s \<noteq> []" "0 < ws_len s"
    | (char) "s \<noteq> []" "ws_len s = 0"
    by (cases "ws_len s = 0") (auto simp: str_trim_start_char)
  then show ?case
  proof cases
    case blank
    then show ?thesis by (simp add: str_trim_end_blank split_blank)
  next
    case space
    then have ne: "s \<noteq> []" by auto
    have "ws_len (str_trim_end s) = ws_len s" and "drop (ws_len s) (str_trim_end s) = str_trim_end (drop (ws_len s) s)"
      using space ws_len_le [of s] by (simp_all add: str_trim_end_space ws_len_take)
    with space ne "1.IH"(1) show ?thesis
      by (simp add: split_ws_space [of s] split_ws_space [of "str_trim_end s"])
  next
    case char
    obtain q where "s = str_trim_end s @ q" using str_trim_end_prefix by blast
    with char have "ws_len (str_trim_end s) = 0" using ws_len_prefix by metis
    with char "1.IH"(2) show ?thesis
      by (cases s) (simp_all add: str_trim_start_char split_ws_char)
  qed
qed

text \<open>The \<open>trim\<close> before \<open>split_whitespace\<close> changes nothing.\<close>

lemma split_whitespace_trim: "split_whitespace (str_trim s) = split_whitespace s"
  by (simp add: split_whitespace_def str_trim_def split_trim_end split_trim_start)

text \<open>Words of graphic characters, joined by single blanks, are found again.\<close>

definition graphic :: "char \<Rightarrow> bool" where
  "graphic c = (let n = of_char c :: nat in 33 \<le> n \<and> n \<le> 126)"

lemma ws_len_graphic: "graphic c \<Longrightarrow> ws_len (c # s) = 0"
  by (auto simp: graphic_def ws_len_def ws_code_def byte_at_def Let_def)

lemma ws_len_blank: "ws_len (CHR '' '' # s) = 1"
  by (simp add: ws_len_def ws_code_def byte_at_def)

lemma split_ws_word: "list_all graphic w \<Longrightarrow> split_ws cur (w @ s) = split_ws (rev w @ cur) s"
  by (induction w arbitrary: cur) (simp_all add: split_ws_char ws_len_graphic)

lemma split_ws_blank: "split_ws cur (CHR '' '' # s) = flush_word cur @ split_ws [] s"
  by (simp add: split_ws_space ws_len_blank)

fun join_blank :: "string list \<Rightarrow> string" where
  "join_blank [] = []"
| "join_blank [w] = w"
| "join_blank (w # v # ws) = w @ CHR '' '' # join_blank (v # ws)"

lemma split_whitespace_join:
  "(\<forall>w \<in> set ws. w \<noteq> [] \<and> list_all graphic w) \<Longrightarrow> split_whitespace (join_blank ws) = ws"
proof (induction ws rule: join_blank.induct)
  case (2 w)
  then show ?case using split_ws_word [of w "[]" "[]"] by (simp add: split_whitespace_def flush_word_def)
next
  case (3 w v ws)
  then show ?case
    by (simp add: split_whitespace_def split_ws_word split_ws_blank flush_word_def)
qed (simp add: split_whitespace_def flush_word_def)

lemma show_u64_graphic: "list_all graphic (show_u64 a)" "show_u64 a \<noteq> []"
  using show_nat_digits [of _ "unat a"]
  by (force simp: show_u64_def list_all_iff graphic_def digit_char_def Let_def)+

section \<open>Hash maps as association lists\<close>

text \<open>
  A \<open>DashMap\<close> is the list of its entries in the order an iteration yields them, with one entry
  per key. \<open>AList.update\<close> overwrites the entry of a key, or adds one. The interface the ledger
  relies on: what a lookup returns after a write, and how a write changes a total taken over all
  the values.
\<close>

definition entry_total :: "('v \<Rightarrow> nat) \<Rightarrow> ('k \<times> 'v) list \<Rightarrow> nat" where
  "entry_total f m = sum_list (map (f \<circ> snd) m)"

definition map_wf :: "('k \<times> 'v) list \<Rightarrow> bool" where
  "map_wf m = distinct (map fst m)"

locale store =
  fixes lookup :: "'m \<Rightarrow> 'k \<Rightarrow> 'v option"
    and put :: "'k \<Rightarrow> 'v \<Rightarrow> 'm \<Rightarrow> 'm"
    and total :: "('v \<Rightarrow> nat) \<Rightarrow> 'm \<Rightarrow> nat"
    and wf :: "'m \<Rightarrow> bool"
  assumes lookup_put: "lookup (put k v m) k' = (if k' = k then Some v else lookup m k')"
    and total_put: "total f (put k v m) + (case lookup m k of None \<Rightarrow> 0 | Some u \<Rightarrow> f u) = total f m + f v"
    and total_lookup: "lookup m k = Some u \<Longrightarrow> f u \<le> total f m"
    and total_lookup2: "lookup m a = Some u \<Longrightarrow> lookup m b = Some w \<Longrightarrow> a \<noteq> b \<Longrightarrow> f u + f w \<le> total f m"
    and wf_put: "wf m \<Longrightarrow> wf (put k v m)"
begin

lemma total_put_new: "lookup m k = None \<Longrightarrow> total f (put k v m) = total f m + f v"
  using total_put [of f k v m] by simp

lemma total_put_old: "lookup m k = Some u \<Longrightarrow> total f (put k v m) + f u = total f m + f v"
  using total_put [of f k v m] by simp

text \<open>Moving value from one entry to another, new or old, accounts for every unit.\<close>

lemma total_move:
  assumes "lookup m a = Some u" and "a \<noteq> b"
  shows "total f (put b w' (put a u' m)) + f u + (case lookup m b of None \<Rightarrow> 0 | Some w \<Rightarrow> f w)
         = total f m + f u' + f w'"
proof -
  have "lookup (put a u' m) b = lookup m b" using assms(2) by (simp add: lookup_put)
  then show ?thesis
    using total_put [of f b w' "put a u' m"] total_put_old [OF assms(1), of f u'] by simp
qed

end

lemma entry_total_update:
  "entry_total f (AList.update k v m) + (case map_of m k of None \<Rightarrow> 0 | Some u \<Rightarrow> f u) = entry_total f m + f v"
  by (induction m) (auto simp: entry_total_def split: option.splits)

lemma entry_total_lookup: "map_of m k = Some u \<Longrightarrow> f u \<le> entry_total f m"
  by (induction m) (auto simp: entry_total_def split: if_splits)

lemma entry_total_lookup2:
  "map_of m a = Some u \<Longrightarrow> map_of m b = Some w \<Longrightarrow> a \<noteq> b \<Longrightarrow> f u + f w \<le> entry_total f m"
proof (induction m)
  case (Cons e m)
  have "f u \<le> entry_total f m" if "map_of m a = Some u" using that by (rule entry_total_lookup)
  moreover have "f w \<le> entry_total f m" if "map_of m b = Some w" using that by (rule entry_total_lookup)
  ultimately show ?case using Cons by (cases e) (auto simp: entry_total_def split: if_splits)
qed simp

lemma alist_update_keys: "fst ` set (AList.update k v m) = insert k (fst ` set m)"
  by (induction m) auto

lemma alist_update_twice [simp]: "AList.update k v (AList.update k u m) = AList.update k v m"
  by (induction m) auto

interpretation hmap: store map_of AList.update entry_total map_wf
proof unfold_locales
  show "map_of (AList.update k v m) k' = (if k' = k then Some v else map_of m k')"
    for k k' :: 'a and v :: 'b and m
    by (simp add: update_conv)
  show "map_wf m \<Longrightarrow> map_wf (AList.update k v m)" for k :: 'a and v :: 'b and m
    by (simp add: map_wf_def distinct_update)
qed (rule entry_total_update entry_total_lookup entry_total_lookup2; assumption)+

section \<open>Printers and parsers\<close>

text \<open>
  The interface of a printer \<open>enc\<close> with its parser \<open>dec\<close>: on the values \<open>ok\<close> the parser inverts
  the printer. Three components provide it: the decimal text of an integer, the hexadecimal text
  of an address and the wire form of a transaction.
\<close>

locale codec =
  fixes ok :: "'a \<Rightarrow> bool" and enc :: "'a \<Rightarrow> 'b" and dec :: "'b \<Rightarrow> 'a option"
  assumes dec_enc: "ok x \<Longrightarrow> dec (enc x) = Some x"
begin

lemma enc_inj: "ok x \<Longrightarrow> ok y \<Longrightarrow> enc x = enc y \<longleftrightarrow> x = y"
  by (metis dec_enc option.inject)

lemma dec_unique: "ok x \<Longrightarrow> dec (enc x) = Some y \<Longrightarrow> y = x"
  by (simp add: dec_enc)

end

interpretation decimal: codec "\<lambda>_. True" show_u64 parse_u64
  by unfold_locales (rule parse_show_u64)

section \<open>Sequences of operations\<close>

text \<open>Operations run one after the other until one panics.\<close>

fun run_ops :: "('s \<Rightarrow> 'o \<Rightarrow> 's run) \<Rightarrow> 's \<Rightarrow> 'o list \<Rightarrow> 's run" where
  "run_ops exec s [] = Ret s"
| "run_ops exec s (p # ps) = (case exec s p of Panic \<Rightarrow> Panic | Ret t \<Rightarrow> run_ops exec t ps)"

text \<open>
  The interface of a state with a sequence number per key that an operation keeps or increments,
  as long as the number stays below its limit.
\<close>

locale sequenced =
  fixes exec :: "'s \<Rightarrow> 'o \<Rightarrow> 's run" and seq :: "'s \<Rightarrow> 'k \<Rightarrow> nat option" and limit :: nat
  assumes seq_exec: "exec s p = Ret t \<Longrightarrow> seq s k = Some n \<Longrightarrow> n + 1 < limit \<Longrightarrow>
    seq t k = Some n \<or> seq t k = Some (n + 1)"
begin

lemma seq_run:
  "run_ops exec s ps = Ret t \<Longrightarrow> seq s k = Some n \<Longrightarrow> n + length ps < limit \<Longrightarrow>
   \<exists>m. seq t k = Some m \<and> n \<le> m \<and> m \<le> n + length ps"
proof (induction ps arbitrary: s n)
  case (Cons p ps)
  then obtain u where u: "exec s p = Ret u" "run_ops exec u ps = Ret t" by (auto split: run.splits)
  with Cons.prems have "seq u k = Some n \<or> seq u k = Some (n + 1)" using seq_exec by auto
  then show ?case using Cons.IH [OF u(2)] Cons.prems(3) by force
qed simp

end

section \<open>Simulations\<close>

text \<open>What the operations of a run amount to, each read off the state it meets.\<close>

fun actions :: "('s \<Rightarrow> 'o \<Rightarrow> 's run) \<Rightarrow> ('s \<Rightarrow> 'o \<Rightarrow> 'b) \<Rightarrow> 's \<Rightarrow> 'o list \<Rightarrow> 'b list" where
  "actions exec act s [] = []"
| "actions exec act s (p # ps) = act s p # (case exec s p of Panic \<Rightarrow> [] | Ret t \<Rightarrow> actions exec act t ps)"

text \<open>
  The interface of a machine that implements an abstract one: as long as the machine does not panic, each of
  its operations is allowed by the abstract machine and leads to the abstraction of the new state.
\<close>

locale simulation =
  fixes exec :: "'s \<Rightarrow> 'o \<Rightarrow> 's run" and inv :: "'s \<Rightarrow> bool" and abs :: "'s \<Rightarrow> 'a"
    and act :: "'s \<Rightarrow> 'o \<Rightarrow> 'b" and aexec :: "'a \<Rightarrow> 'b \<Rightarrow> 'a run"
  assumes inv_exec: "inv s \<Longrightarrow> exec s p = Ret t \<Longrightarrow> inv t"
    and abs_exec: "inv s \<Longrightarrow> exec s p = Ret t \<Longrightarrow> aexec (abs s) (act s p) = Ret (abs t)"
begin

lemma abs_run:
  "inv s \<Longrightarrow> run_ops exec s ps = Ret t \<Longrightarrow>
   inv t \<and> run_ops aexec (abs s) (actions exec act s ps) = Ret (abs t)"
proof (induction ps arbitrary: s)
  case (Cons p ps)
  then obtain u where u: "exec s p = Ret u" "run_ops exec u ps = Ret t" by (auto split: run.splits)
  with Cons.IH [OF inv_exec [OF Cons.prems(1) u(1)] u(2)] abs_exec [OF Cons.prems(1) u(1)] show ?case by simp
qed simp

end

section \<open>Transition systems\<close>

inductive reach :: "('s \<Rightarrow> bool) \<Rightarrow> ('s \<Rightarrow> 'e \<Rightarrow> 's \<Rightarrow> bool) \<Rightarrow> 's \<Rightarrow> bool"
  for init :: "'s \<Rightarrow> bool" and step :: "'s \<Rightarrow> 'e \<Rightarrow> 's \<Rightarrow> bool" where
  reach_init: "init s \<Longrightarrow> reach init step s"
| reach_step: "reach init step s \<Longrightarrow> step s e t \<Longrightarrow> reach init step t"

locale invariant_system =
  fixes init :: "'s \<Rightarrow> bool" and step :: "'s \<Rightarrow> 'e \<Rightarrow> 's \<Rightarrow> bool" and inv :: "'s \<Rightarrow> bool"
  assumes inv_init: "init s \<Longrightarrow> inv s"
    and inv_step: "inv s \<Longrightarrow> step s e t \<Longrightarrow> inv t"
begin

lemma reach_inv: "reach init step s \<Longrightarrow> inv s"
  by (induction rule: reach.induct) (auto intro: inv_init inv_step)

end

end
