(* ===== verification/Crates.thy ===== *)
theory Crates
  imports Rust_Base
begin

text \<open>
  The third-party crates the node computes with, as a parameter of the model. A value of the
  record \<open>crates\<close> holds one function per library routine the sources call; every definition that
  calls one takes the record as its first argument. The predicates \<open>hex_ok\<close>, \<open>digest_ok\<close>,
  \<open>ed25519_ok\<close> and \<open>rlp_ok\<close> state the documented behaviour the node relies on, and a property
  that needs it has it as a hypothesis. Nothing is assumed about forging signatures or finding
  collisions: the theorems about tampering produce the forgery or the collision.
\<close>

section \<open>The library routines\<close>

text \<open>What the sources append to an \<open>RlpStream\<close>: byte slices and \<open>u64\<close> values.\<close>

datatype rlp_item = RlpBytes bytes | RlpU64 u64

text \<open>\<open>rlp::DecoderError\<close>: the variant the sources construct, and any error the library raises.\<close>

datatype decoder_error = Custom string | LibraryError string

record crates =
  \<comment> \<open>\<^verbatim>\<open>hex::encode\<close>, \<^verbatim>\<open>hex::decode\<close> (\<open>None\<close> is \<open>FromHexError\<close>)\<close>
  hex_encode :: "bytes \<Rightarrow> string"
  hex_decode :: "string \<Rightarrow> bytes option"
  \<comment> \<open>\<^verbatim>\<open>sha2::Sha256::digest\<close>, \<^verbatim>\<open>sha3::Keccak256::digest\<close>\<close>
  sha256_digest :: "bytes \<Rightarrow> bytes"
  keccak256_digest :: "bytes \<Rightarrow> bytes"
  \<comment> \<open>\<^verbatim>\<open>ed25519_dalek\<close>: a \<open>SigningKey\<close> by its secret bytes, a \<open>VerifyingKey\<close> and a \<open>Signature\<close>
     by their encodings\<close>
  secret_key_length :: nat
  ed_verifying_key :: "bytes \<Rightarrow> bytes"
  ed_key_from_bytes :: "bytes \<Rightarrow> bytes option"
  ed_sign :: "bytes \<Rightarrow> bytes \<Rightarrow> bytes"
  ed_verify :: "bytes \<Rightarrow> bytes \<Rightarrow> bytes \<Rightarrow> bool"
  \<comment> \<open>\<^verbatim>\<open>rlp\<close>: a stream opened as a list of \<open>n\<close> items, filled and taken out; \<open>Rlp::new(data).val_at(i)\<close>
     at type \<open>Vec<u8>\<close> and at type \<open>u64\<close>\<close>
  rlp_list :: "nat \<Rightarrow> rlp_item list \<Rightarrow> bytes"
  rlp_val_bytes :: "bytes \<Rightarrow> nat \<Rightarrow> decoder_error + bytes"
  rlp_val_u64 :: "bytes \<Rightarrow> nat \<Rightarrow> decoder_error + u64"

section \<open>What the node relies on\<close>

definition is_hex_digit :: "char \<Rightarrow> bool" where
  "is_hex_digit c = (let n = of_char c :: nat in 48 \<le> n \<and> n \<le> 57 \<or> 97 \<le> n \<and> n \<le> 102)"

text \<open>\<open>hex::encode\<close> writes two lower-case digits per byte and \<open>hex::decode\<close> reads them back.\<close>

definition hex_ok :: "crates \<Rightarrow> bool" where
  "hex_ok L \<longleftrightarrow>
     (\<forall>b. hex_decode L (hex_encode L b) = Some b \<and> length (hex_encode L b) = 2 * length b \<and>
          (\<forall>c \<in> set (hex_encode L b). is_hex_digit c))"

text \<open>Both digests are 32 bytes long.\<close>

definition digest_ok :: "crates \<Rightarrow> bool" where
  "digest_ok L \<longleftrightarrow> (\<forall>m. length (sha256_digest L m) = 32 \<and> length (keccak256_digest L m) = 32)"

text \<open>
  A signing key has a 32-byte verifying key, which \<open>VerifyingKey::from_bytes\<close> accepts, and its
  64-byte signatures verify under it. An accepted verifying key has the bytes it was read from.
\<close>

definition ed25519_ok :: "crates \<Rightarrow> bool" where
  "ed25519_ok L \<longleftrightarrow>
     secret_key_length L = 32 \<and>
     (\<forall>sk. length sk = 32 \<longrightarrow>
        length (ed_verifying_key L sk) = 32 \<and>
        ed_key_from_bytes L (ed_verifying_key L sk) = Some (ed_verifying_key L sk) \<and>
        (\<forall>m. length (ed_sign L sk m) = 64 \<and> ed_verify L (ed_verifying_key L sk) m (ed_sign L sk m))) \<and>
     (\<forall>b k. ed_key_from_bytes L b = Some k \<longrightarrow> k = b)"

text \<open>
  A finished RLP list gives every item back at its position. Only short lists of short items are
  used, so only those are relied on.
\<close>

definition rlp_small :: "rlp_item list \<Rightarrow> bool" where
  "rlp_small xs \<longleftrightarrow> length xs \<le> 16 \<and> (\<forall>b. RlpBytes b \<in> set xs \<longrightarrow> length b \<le> 64)"

definition rlp_ok :: "crates \<Rightarrow> bool" where
  "rlp_ok L \<longleftrightarrow>
     (\<forall>xs i. rlp_small xs \<longrightarrow> i < length xs \<longrightarrow>
        (case xs ! i of
           RlpBytes b \<Rightarrow> rlp_val_bytes L (rlp_list L (length xs) xs) i = Inr b
         | RlpU64 n \<Rightarrow> rlp_val_u64 L (rlp_list L (length xs) xs) i = Inr n))"

definition crates_ok :: "crates \<Rightarrow> bool" where
  "crates_ok L \<longleftrightarrow> hex_ok L \<and> digest_ok L \<and> ed25519_ok L \<and> rlp_ok L"

named_theorems crate_laws \<open>what the libraries promise, as rewrite rules\<close>

lemma hex_decode_encode [crate_laws]: "hex_ok L \<Longrightarrow> hex_decode L (hex_encode L b) = Some b"
  by (simp add: hex_ok_def)

lemma hex_encode_length [crate_laws]: "hex_ok L \<Longrightarrow> length (hex_encode L b) = 2 * length b"
  by (simp add: hex_ok_def)

lemma hex_encode_digit: "hex_ok L \<Longrightarrow> c \<in> set (hex_encode L b) \<Longrightarrow> is_hex_digit c"
  by (simp add: hex_ok_def)

lemma hex_encode_inj: "hex_ok L \<Longrightarrow> hex_encode L a = hex_encode L b \<longleftrightarrow> a = b"
  by (metis hex_decode_encode option.inject)

lemma digest_lengths [crate_laws]:
  "digest_ok L \<Longrightarrow> length (sha256_digest L m) = 32"
  "digest_ok L \<Longrightarrow> length (keccak256_digest L m) = 32"
  by (simp_all add: digest_ok_def)

lemma ed25519_laws [crate_laws]:
  "ed25519_ok L \<Longrightarrow> secret_key_length L = 32"
  "ed25519_ok L \<Longrightarrow> length sk = 32 \<Longrightarrow> length (ed_verifying_key L sk) = 32"
  "ed25519_ok L \<Longrightarrow> length sk = 32 \<Longrightarrow>
     ed_key_from_bytes L (ed_verifying_key L sk) = Some (ed_verifying_key L sk)"
  "ed25519_ok L \<Longrightarrow> length sk = 32 \<Longrightarrow> length (ed_sign L sk m) = 64"
  "ed25519_ok L \<Longrightarrow> length sk = 32 \<Longrightarrow> ed_verify L (ed_verifying_key L sk) m (ed_sign L sk m)"
  by (simp_all add: ed25519_ok_def)

lemma ed_key_from_bytes_id: "ed25519_ok L \<Longrightarrow> ed_key_from_bytes L b = Some k \<Longrightarrow> k = b"
  by (simp add: ed25519_ok_def)

lemma rlp_val_bytes_at:
  assumes "rlp_ok L" "rlp_small xs" "n = length xs" "i < n" "xs ! i = RlpBytes b"
  shows "rlp_val_bytes L (rlp_list L n xs) i = Inr b"
proof -
  have "case xs ! i of RlpBytes b \<Rightarrow> rlp_val_bytes L (rlp_list L (length xs) xs) i = Inr b
        | RlpU64 n \<Rightarrow> rlp_val_u64 L (rlp_list L (length xs) xs) i = Inr n"
    using assms(1-4) unfolding rlp_ok_def by blast
  with assms show ?thesis by simp
qed

lemma rlp_val_u64_at:
  assumes "rlp_ok L" "rlp_small xs" "n = length xs" "i < n" "xs ! i = RlpU64 v"
  shows "rlp_val_u64 L (rlp_list L n xs) i = Inr v"
proof -
  have "case xs ! i of RlpBytes b \<Rightarrow> rlp_val_bytes L (rlp_list L (length xs) xs) i = Inr b
        | RlpU64 n \<Rightarrow> rlp_val_u64 L (rlp_list L (length xs) xs) i = Inr n"
    using assms(1-4) unfolding rlp_ok_def by blast
  with assms show ?thesis by simp
qed

lemma crates_okD [dest]:
  assumes "crates_ok L"
  shows "hex_ok L" "digest_ok L" "ed25519_ok L" "rlp_ok L"
  using assms by (simp_all add: crates_ok_def)

end
