(* ===== verification/Crates_Ref.thy ===== *)
theory Crates_Ref
  imports Crates
begin

text \<open>
  An instance of the library parameter that satisfies everything the node relies on, for the
  witnesses. Hexadecimal text and the RLP format are implemented in full from their public
  descriptions (RLP with its short and long string and list forms, minimal big-endian integers and
  the rejection of leading zeros). The digests and the signature scheme are stand-ins with the
  lengths and the correctness law of the real ones and none of their security.
\<close>

section \<open>Hexadecimal text\<close>

definition nibble_char :: "nat \<Rightarrow> char" where
  "nibble_char n = (if n < 10 then char_of (48 + n) else char_of (87 + n))"

definition nibble_val :: "char \<Rightarrow> nat option" where
  "nibble_val c =
     (let n = of_char c :: nat in
      if 48 \<le> n \<and> n \<le> 57 then Some (n - 48)
      else if 97 \<le> n \<and> n \<le> 102 then Some (n - 87)
      else if 65 \<le> n \<and> n \<le> 70 then Some (n - 55)
      else None)"

fun ref_hex_encode :: "bytes \<Rightarrow> string" where
  "ref_hex_encode [] = []"
| "ref_hex_encode (b # bs) =
     nibble_char (unat b div 16) # nibble_char (unat b mod 16) # ref_hex_encode bs"

fun ref_hex_decode :: "string \<Rightarrow> bytes option" where
  "ref_hex_decode [] = Some []"
| "ref_hex_decode [c] = None"
| "ref_hex_decode (c # d # cs) =
     (case (nibble_val c, nibble_val d, ref_hex_decode cs) of
        (Some h, Some l, Some bs) \<Rightarrow> Some (of_nat (16 * h + l) # bs)
      | _ \<Rightarrow> None)"

lemma unat_u8_bound: "unat (b :: u8) < 256"
proof -
  have "unat b < 2 ^ LENGTH(8)" by (rule unsigned_less)
  then show ?thesis by simp
qed

lemma nibble_val_char: "n < 16 \<Longrightarrow> nibble_val (nibble_char n) = Some n"
  by (auto simp: nibble_val_def nibble_char_def Let_def)

lemma nibble_char_digit: "n < 16 \<Longrightarrow> is_hex_digit (nibble_char n)"
  by (auto simp: is_hex_digit_def nibble_char_def Let_def)

lemma nibble_bounds: "unat (b :: u8) div 16 < 16" "unat (b :: u8) mod 16 < 16"
  using unat_u8_bound [of b] by (simp_all add: less_mult_imp_div_less)

lemma ref_hex_decode_encode: "ref_hex_decode (ref_hex_encode bs) = Some bs"
  by (induction bs) (auto simp: nibble_val_char nibble_bounds mult.commute)

lemma ref_hex_encode_length: "length (ref_hex_encode bs) = 2 * length bs"
  by (induction bs) auto

lemma ref_hex_encode_digits: "c \<in> set (ref_hex_encode bs) \<Longrightarrow> is_hex_digit c"
  by (induction bs) (auto simp: nibble_char_digit nibble_bounds)

section \<open>RLP\<close>

text \<open>Minimal big-endian bytes of a number, and the number of such bytes.\<close>

fun be_bytes :: "nat \<Rightarrow> bytes" where
  "be_bytes n = (if n = 0 then [] else be_bytes (n div 256) @ [of_nat (n mod 256)])"

declare be_bytes.simps [simp del]

definition be_val :: "bytes \<Rightarrow> nat" where
  "be_val bs = foldl (\<lambda>a b. a * 256 + unat b) 0 bs"

definition ref_header :: "nat \<Rightarrow> nat \<Rightarrow> bytes" where
  "ref_header base n =
     (if n \<le> 55 then [of_nat (base + n)]
      else of_nat (base + 55 + length (be_bytes n)) # be_bytes n)"

definition ref_string :: "bytes \<Rightarrow> bytes" where
  "ref_string b = (if length b = 1 \<and> unat (hd b) < 128 then b else ref_header 0x80 (length b) @ b)"

fun ref_item :: "rlp_item \<Rightarrow> bytes" where
  "ref_item (RlpBytes b) = ref_string b"
| "ref_item (RlpU64 n) = ref_string (be_bytes (unat n))"

text \<open>A stream that has not received as many items as announced gives nothing out.\<close>

definition ref_rlp_list :: "nat \<Rightarrow> rlp_item list \<Rightarrow> bytes" where
  "ref_rlp_list n xs =
     (if length xs = n
      then (let p = concat (map ref_item xs) in ref_header 0xC0 (length p) @ p) else [])"

text \<open>Reading: the payload behind a header of the given base, and what follows it.\<close>

definition ref_payload :: "nat \<Rightarrow> bytes \<Rightarrow> (bytes \<times> bytes) option" where
  "ref_payload base bs =
     (case bs of
        [] \<Rightarrow> None
      | h # t \<Rightarrow>
          (let k = unat h - base in
           if unat h < base \<or> base + 63 < unat h then None
           else if k \<le> 55 then (if k \<le> length t then Some (take k t, drop k t) else None)
           else (let m = be_val (take (k - 55) t); u = drop (k - 55) t in
                 if m \<le> length u then Some (take m u, drop m u) else None)))"

definition ref_string_split :: "bytes \<Rightarrow> (bytes \<times> bytes) option" where
  "ref_string_split bs =
     (case bs of
        [] \<Rightarrow> None
      | h # t \<Rightarrow> if unat h < 128 then Some ([h], t) else ref_payload 0x80 bs)"

fun ref_string_at :: "bytes \<Rightarrow> nat \<Rightarrow> bytes option" where
  "ref_string_at bs 0 = map_option fst (ref_string_split bs)"
| "ref_string_at bs (Suc i) =
     (case ref_string_split bs of None \<Rightarrow> None | Some (_, rest) \<Rightarrow> ref_string_at rest i)"

definition ref_val_bytes :: "bytes \<Rightarrow> nat \<Rightarrow> decoder_error + bytes" where
  "ref_val_bytes data i =
     (case ref_payload 0xC0 data of
        None \<Rightarrow> Inl (LibraryError ''RlpExpectedToBeList'')
      | Some (p, _) \<Rightarrow>
          (case ref_string_at p i of
             None \<Rightarrow> Inl (LibraryError ''RlpIsTooShort'')
           | Some b \<Rightarrow> Inr b))"

definition ref_val_u64 :: "bytes \<Rightarrow> nat \<Rightarrow> decoder_error + u64" where
  "ref_val_u64 data i =
     (case ref_val_bytes data i of
        Inl e \<Rightarrow> Inl e
      | Inr b \<Rightarrow>
          if b \<noteq> [] \<and> hd b = 0 then Inl (LibraryError ''RlpInvalidIndirection'')
          else if 8 < length b then Inl (LibraryError ''RlpIsTooBig'')
          else Inr (of_nat (be_val b)))"

lemma be_val_append: "be_val (xs @ [b]) = be_val xs * 256 + unat b"
  by (simp add: be_val_def)

lemma unat_of_nat_u8: "n < 256 \<Longrightarrow> unat (of_nat n :: u8) = n"
  by (simp add: unsigned_of_nat take_bit_eq_mod)

lemma be_val_be_bytes: "be_val (be_bytes n) = n"
proof (induction n rule: be_bytes.induct)
  case (1 n)
  show ?case
  proof (cases "n = 0")
    case True
    then show ?thesis by (simp add: be_bytes.simps be_val_def)
  next
    case False
    with 1 show ?thesis by (simp add: be_bytes.simps [of n] be_val_append unat_of_nat_u8)
  qed
qed

lemma be_bytes_length: "n < 256 ^ k \<Longrightarrow> length (be_bytes n) \<le> k"
proof (induction k arbitrary: n)
  case 0
  then show ?case by (simp add: be_bytes.simps)
next
  case (Suc k)
  then have "n div 256 < 256 ^ k" by (simp add: less_mult_imp_div_less mult.commute)
  then show ?case using Suc.IH by (simp add: be_bytes.simps [of n])
qed

lemma be_bytes_hd: "0 < n \<Longrightarrow> unat (hd (be_bytes n)) \<noteq> 0"
proof (induction n rule: be_bytes.induct)
  case (1 n)
  show ?case
  proof (cases "n < 256")
    case True
    with "1.prems" show ?thesis by (simp add: be_bytes.simps [of n] be_bytes.simps [of 0] unat_of_nat_u8)
  next
    case False
    then have "0 < n div 256" by simp
    then have "be_bytes (n div 256) \<noteq> []" by (subst be_bytes.simps) simp
    with 1 \<open>0 < n div 256\<close> show ?thesis by (simp add: be_bytes.simps [of n])
  qed
qed

lemma ref_payload_short:
  "unat h = base + length p \<Longrightarrow> length p \<le> 55 \<Longrightarrow> ref_payload base (h # p @ rest) = Some (p, rest)"
  by (simp add: ref_payload_def)

lemma ref_payload_long:
  "unat h = base + 55 + length l \<Longrightarrow> 0 < length l \<Longrightarrow> length l \<le> 8 \<Longrightarrow> be_val l = length p \<Longrightarrow>
   ref_payload base (h # l @ p @ rest) = Some (p, rest)"
  by (simp add: ref_payload_def Let_def)

lemma ref_payload_header:
  assumes "base \<le> 192" and "length p < 256 ^ 8"
  shows "ref_payload base (ref_header base (length p) @ p @ rest) = Some (p, rest)"
proof (cases "length p \<le> 55")
  case True
  have "unat (of_nat (base + length p) :: u8) = base + length p"
    using True assms(1) by (intro unat_of_nat_u8) simp
  from ref_payload_short [OF this True] True show ?thesis by (simp add: ref_header_def)
next
  case False
  let ?l = "be_bytes (length p)"
  have "p \<noteq> []" using False by auto
  then have l: "0 < length ?l" "length ?l \<le> 8"
    using be_bytes_length [OF assms(2)] by (simp add: be_bytes.simps [of "length p"], simp)
  then have "unat (of_nat (base + 55 + length ?l) :: u8) = base + 55 + length ?l"
    using assms(1) by (intro unat_of_nat_u8) simp
  from ref_payload_long [OF this l be_val_be_bytes] False show ?thesis by (simp add: ref_header_def)
qed

lemma ref_string_split_string:
  assumes "length b \<le> 64"
  shows "ref_string_split (ref_string b @ rest) = Some (b, rest)"
proof (cases "length b = 1 \<and> unat (hd b) < 128")
  case True
  then show ?thesis by (cases b) (auto simp: ref_string_def ref_string_split_def)
next
  case False
  have "\<exists>h t. ref_header 0x80 (length b) = h # t \<and> \<not> unat h < 128"
    using assms be_bytes_length [of "length b" 1] unat_of_nat_u8 [of "128 + length b"]
      unat_of_nat_u8 [of "183 + length (be_bytes (length b))"]
    by (auto simp: ref_header_def)
  then obtain h t where "ref_header 0x80 (length b) = h # t" and "\<not> unat h < 128" by blast
  moreover have "ref_payload 0x80 (ref_header 0x80 (length b) @ b @ rest) = Some (b, rest)"
    using assms by (intro ref_payload_header) auto
  ultimately show ?thesis using False by (auto simp: ref_string_def ref_string_split_def)
qed

fun item_bytes :: "rlp_item \<Rightarrow> bytes" where
  "item_bytes (RlpBytes b) = b"
| "item_bytes (RlpU64 n) = be_bytes (unat n)"

lemma be_bytes_u64: "length (be_bytes (unat (n :: u64))) \<le> 8"
  by (rule be_bytes_length) simp

lemma rlp_small_item: "rlp_small xs \<Longrightarrow> x \<in> set xs \<Longrightarrow> length (item_bytes x) \<le> 64"
  using le_trans [OF be_bytes_u64, of 64] by (cases x) (auto simp: rlp_small_def)

lemma ref_item_eq: "ref_item x = ref_string (item_bytes x)"
  by (cases x) auto

lemma ref_string_at_concat:
  "(\<forall>x \<in> set xs. length (item_bytes x) \<le> 64) \<Longrightarrow> i < length xs \<Longrightarrow>
   ref_string_at (concat (map ref_item xs)) i = Some (item_bytes (xs ! i))"
proof (induction xs arbitrary: i)
  case (Cons x xs)
  then show ?case by (cases i) (simp_all add: ref_item_eq ref_string_split_string)
qed simp

lemma ref_string_length: "length b \<le> 64 \<Longrightarrow> length (ref_string b) \<le> 66"
  using be_bytes_length [of "length b" 1] by (auto simp: ref_string_def ref_header_def)

lemma ref_items_length:
  "(\<forall>x \<in> set xs. length (item_bytes x) \<le> 64) \<Longrightarrow> length (concat (map ref_item xs)) \<le> 66 * length xs"
proof (induction xs)
  case (Cons x xs)
  then show ?case using ref_string_length [of "item_bytes x"] by (simp add: ref_item_eq)
qed simp

lemma ref_val_bytes_list:
  assumes "rlp_small xs" and "i < length xs"
  shows "ref_val_bytes (ref_rlp_list (length xs) xs) i = Inr (item_bytes (xs ! i))"
proof -
  let ?p = "concat (map ref_item xs)"
  have small: "\<forall>x \<in> set xs. length (item_bytes x) \<le> 64" using rlp_small_item [OF assms(1)] by blast
  have "length ?p < 256 ^ 8"
    using ref_items_length [OF small] assms(1) by (simp add: rlp_small_def)
  then have "ref_payload 0xC0 (ref_rlp_list (length xs) xs) = Some (?p, [])"
    using ref_payload_header [of 192 ?p "[]"] by (simp add: ref_rlp_list_def Let_def)
  with ref_string_at_concat [OF small assms(2)] show ?thesis by (simp add: ref_val_bytes_def)
qed

lemma ref_val_u64_list:
  assumes "rlp_small xs" and "i < length xs" and "xs ! i = RlpU64 n"
  shows "ref_val_u64 (ref_rlp_list (length xs) xs) i = Inr n"
proof -
  have "be_bytes (unat n) \<noteq> [] \<Longrightarrow> hd (be_bytes (unat n)) \<noteq> 0"
    using be_bytes_hd [of "unat n"] by (cases "unat n = 0") (auto simp: be_bytes.simps [of 0])
  with ref_val_bytes_list [OF assms(1,2)] assms(3) be_bytes_u64 [of n] show ?thesis
    by (auto simp: ref_val_u64_def be_val_be_bytes not_less)
qed

section \<open>The instance\<close>

text \<open>The stand-in digest keeps the first 32 bytes, padded with zeros.\<close>

definition ref_digest :: "bytes \<Rightarrow> bytes" where
  "ref_digest m = take 32 (m @ replicate 32 0)"

lemma ref_digest_length: "length (ref_digest m) = 32"
  by (auto simp: ref_digest_def min_def)

definition ref_verifying_key :: "bytes \<Rightarrow> bytes" where
  "ref_verifying_key sk = map (\<lambda>b. b + 1) sk"

definition ref_crates :: crates where
  "ref_crates =
     \<lparr>hex_encode = ref_hex_encode, hex_decode = ref_hex_decode,
      sha256_digest = ref_digest, keccak256_digest = ref_digest,
      secret_key_length = 32,
      ed_verifying_key = ref_verifying_key,
      ed_key_from_bytes = (\<lambda>b. if length b = 32 then Some b else None),
      ed_sign = (\<lambda>sk m. take 64 (ref_verifying_key sk @ ref_digest m @ replicate 64 0)),
      ed_verify = (\<lambda>k m s. s = take 64 (k @ ref_digest m @ replicate 64 0)),
      rlp_list = ref_rlp_list, rlp_val_bytes = ref_val_bytes, rlp_val_u64 = ref_val_u64\<rparr>"

lemma ref_crates_ok: "crates_ok ref_crates"
proof -
  have "hex_ok ref_crates"
    by (simp add: hex_ok_def ref_crates_def ref_hex_decode_encode ref_hex_encode_length ref_hex_encode_digits)
  moreover have "digest_ok ref_crates"
    by (simp add: digest_ok_def ref_crates_def ref_digest_length)
  moreover have "ed25519_ok ref_crates"
    by (simp add: ed25519_ok_def ref_crates_def ref_verifying_key_def ref_digest_length)
  moreover have "rlp_ok ref_crates"
    using ref_val_bytes_list ref_val_u64_list
    by (auto simp: rlp_ok_def ref_crates_def split: rlp_item.split)
  ultimately show ?thesis by (simp add: crates_ok_def)
qed

end
