(* ===== verification/Wallet.thy ===== *)
theory Wallet
  imports Crates_Ref
begin

text \<open>
  The wallet (\<^verbatim>\<open>src/zyphra/src/wallet.rs\<close>): an Ed25519 signing key with the address derived from
  its public key. One definition per method; the operating system's random bytes are an argument
  of \<open>wallet_generate\<close>. The lemmas show that both constructors establish the representation
  invariant \<open>wallet_wf\<close>, that the textual address parses back, with or without its prefix, and what
  the parser rejects, and that signatures made by a wallet verify under its public key.
\<close>

section \<open>Data\<close>

definition ADDRESS_LEN :: nat where
  "ADDRESS_LEN = 20"

type_synonym address = bytes

record wallet =
  signing_key :: bytes
  address :: bytes

section \<open>Operations\<close>

text \<open>\<open>hash[12..32]\<close> of the SHA-256 digest of the public key.\<close>

definition derive_address :: "crates \<Rightarrow> bytes \<Rightarrow> address" where
  "derive_address L pubkey = (let hash = sha256_digest L pubkey in take (32 - 12) (drop 12 hash))"

definition wallet_generate :: "crates \<Rightarrow> bytes \<Rightarrow> wallet" where
  "wallet_generate L rng =
     (let key = rng; addr = derive_address L (ed_verifying_key L key)
      in \<lparr>signing_key = key, address = addr\<rparr>)"

definition from_secret_bytes :: "crates \<Rightarrow> bytes \<Rightarrow> wallet result" where
  "from_secret_bytes L bs =
     (if length bs = secret_key_length L
      then (let buf = bs; addr = derive_address L (ed_verifying_key L buf)
            in Inr \<lparr>signing_key = buf, address = addr\<rparr>)
      else Inl (''Secret key must be exactly '' @ show_nat (secret_key_length L) @
                '' bytes, got '' @ show_nat (length bs)))"

definition wallet_address :: "wallet \<Rightarrow> address" where
  "wallet_address w = address w"

definition address_hex :: "crates \<Rightarrow> wallet \<Rightarrow> string" where
  "address_hex L w = ''0x'' @ hex_encode L (address w)"

definition public_key :: "crates \<Rightarrow> wallet \<Rightarrow> bytes" where
  "public_key L w = ed_verifying_key L (signing_key w)"

definition public_key_bytes :: "crates \<Rightarrow> wallet \<Rightarrow> bytes" where
  "public_key_bytes L w = ed_verifying_key L (signing_key w)"

definition wallet_sign :: "crates \<Rightarrow> wallet \<Rightarrow> bytes \<Rightarrow> bytes" where
  "wallet_sign L w message = ed_sign L (signing_key w) message"

definition wallet_verify :: "crates \<Rightarrow> bytes \<Rightarrow> bytes \<Rightarrow> bytes \<Rightarrow> unit result" where
  "wallet_verify L pubkey message signature =
     (if ed_verify L pubkey message signature then Inr ()
      else Inl ''Ed25519 signature verification failed'')"

definition address_from_hex :: "crates \<Rightarrow> string \<Rightarrow> address result" where
  "address_from_hex L s0 =
     (let s = (case strip_prefix ''0x'' s0 of None \<Rightarrow> s0 | Some t \<Rightarrow> t) in
      try_bind (ok_or ''Invalid hex address'' (hex_decode L s)) (\<lambda>bs.
        if length bs = ADDRESS_LEN then Inr bs
        else Inl (''Address must be '' @ show_nat ADDRESS_LEN @ '' bytes, got '' @ show_nat (length bs))))"

definition wallet_display :: "crates \<Rightarrow> wallet \<Rightarrow> string" where
  "wallet_display L w = ''Wallet('' @ address_hex L w @ '')''"

text \<open>\<open>debug_struct\<close> with the one field \<open>address\<close>, whose text is printed in double quotes.\<close>

definition wallet_debug :: "crates \<Rightarrow> wallet \<Rightarrow> string" where
  "wallet_debug L w =
     ''Wallet { address: '' @ [CHR 0x22] @ address_hex L w @ [CHR 0x22] @ '' }''"

section \<open>The representation invariant\<close>

definition wallet_wf :: "crates \<Rightarrow> wallet \<Rightarrow> bool" where
  "wallet_wf L w \<longleftrightarrow>
     length (signing_key w) = secret_key_length L \<and>
     address w = derive_address L (public_key L w)"

lemma derive_address_length: "digest_ok L \<Longrightarrow> length (derive_address L k) = ADDRESS_LEN"
  by (simp add: derive_address_def ADDRESS_LEN_def Let_def crate_laws)

lemma wallet_wf_address_length: "digest_ok L \<Longrightarrow> wallet_wf L w \<Longrightarrow> length (address w) = ADDRESS_LEN"
  by (simp add: wallet_wf_def derive_address_length)

lemma wallet_wf_key_length: "ed25519_ok L \<Longrightarrow> wallet_wf L w \<Longrightarrow> length (signing_key w) = 32"
  by (simp add: wallet_wf_def crate_laws)

lemma wallet_generate_wf: "length rng = secret_key_length L \<Longrightarrow> wallet_wf L (wallet_generate L rng)"
  by (simp add: wallet_wf_def wallet_generate_def public_key_def Let_def)

lemma from_secret_bytes_wf: "from_secret_bytes L bs = Inr w \<Longrightarrow> wallet_wf L w \<and> signing_key w = bs"
  by (auto simp: wallet_wf_def from_secret_bytes_def public_key_def Let_def split: if_splits)

text \<open>
  Restoring a wallet succeeds exactly on a secret of the right length; the wallet it gives holds
  that secret and the address derived from its public key, so it is the wallet that generation
  would have built from the same bytes. Any other length is reported with both lengths.
\<close>

theorem from_secret_bytes_spec:
  "from_secret_bytes L bs =
     (if length bs = secret_key_length L then Inr (wallet_generate L bs)
      else Inl (''Secret key must be exactly '' @ show_nat (secret_key_length L) @
                '' bytes, got '' @ show_nat (length bs))) \<and>
   (length bs = secret_key_length L \<longrightarrow>
      wallet_wf L (wallet_generate L bs) \<and> signing_key (wallet_generate L bs) = bs)"
  by (simp add: from_secret_bytes_def wallet_generate_def wallet_wf_def public_key_def Let_def)

theorem from_secret_bytes_spec_witness:
  "wallet_wf ref_crates (wallet_generate ref_crates (replicate 32 7)) \<and>
   from_secret_bytes ref_crates (replicate 32 7) = Inr (wallet_generate ref_crates (replicate 32 7))"
proof -
  have "length (replicate 32 (7 :: u8)) = secret_key_length ref_crates"
    by (simp add: ref_crates_def)
  then show ?thesis using from_secret_bytes_spec [of ref_crates "replicate 32 7"] by simp
qed

section \<open>Textual addresses\<close>

lemma hex_text_no_prefix:
  assumes "hex_ok L" shows "strip_prefix ''0x'' (hex_encode L b) = None"
proof (rule ccontr)
  assume "strip_prefix ''0x'' (hex_encode L b) \<noteq> None"
  then have "take 2 (hex_encode L b) = ''0x''" by (simp add: strip_prefix_def numeral_2_eq_2 split: if_splits)
  then have "CHR ''x'' \<in> set (hex_encode L b)"
    by (metis in_set_takeD list.set_intros(1,2))
  then show False using hex_encode_digit [OF assms] by (fastforce simp: is_hex_digit_def)
qed

lemma address_from_hex_encode:
  assumes "hex_ok L" and "length a = ADDRESS_LEN"
  shows "address_from_hex L (''0x'' @ hex_encode L a) = Inr a"
    and "address_from_hex L (hex_encode L a) = Inr a"
  using assms hex_text_no_prefix [OF assms(1)] strip_prefix_append [of "''0x''"]
  by (simp_all add: address_from_hex_def crate_laws del: strip_prefix_append)

lemma address_from_hex_length: "address_from_hex L s = Inr a \<Longrightarrow> length a = ADDRESS_LEN"
  by (auto simp: address_from_hex_def Let_def try_bind_Inr_iff split: if_splits option.splits)

interpretation address_text:
  codec "\<lambda>a. hex_ok L \<and> length a = ADDRESS_LEN" "\<lambda>a. ''0x'' @ hex_encode L a"
    "\<lambda>s. result_ok (address_from_hex L s)" for L
  by unfold_locales (simp add: address_from_hex_encode del: append_Cons)

text \<open>
  The text of a wallet's address is 42 characters, \<open>0x\<close> and two digits per byte, and parsing it
  gives the address back; so does parsing it without the prefix. Two wallets show the same text
  exactly when they have the same address.
\<close>

theorem address_hex_roundtrip:
  assumes "hex_ok L" "digest_ok L" "wallet_wf L w" "wallet_wf L v"
  shows "length (address_hex L w) = 42 \<and>
    address_from_hex L (address_hex L w) = Inr (wallet_address w) \<and>
    address_from_hex L (hex_encode L (address w)) = Inr (wallet_address w) \<and>
    (address_hex L w = address_hex L v \<longleftrightarrow> wallet_address w = wallet_address v)"
proof -
  have len: "length (address w) = ADDRESS_LEN" "length (address v) = ADDRESS_LEN"
    using assms wallet_wf_address_length by blast+
  have "address_hex L w = address_hex L v \<longleftrightarrow> wallet_address w = wallet_address v"
    using address_text.enc_inj [of L "address w" "address v"] assms(1) len
    by (simp add: address_hex_def wallet_address_def)
  with len show ?thesis
    using address_from_hex_encode [OF assms(1) len(1)] hex_encode_length [OF assms(1), of "address w"]
    by (simp add: address_hex_def wallet_address_def ADDRESS_LEN_def)
qed

definition example_wallet :: "u8 \<Rightarrow> wallet" where
  "example_wallet b = wallet_generate ref_crates (replicate 32 b)"

lemma example_wallet_wf: "wallet_wf ref_crates (example_wallet b)"
  by (simp add: example_wallet_def wallet_generate_wf ref_crates_def)

lemmas ref_laws = crates_okD [OF ref_crates_ok]

theorem address_hex_roundtrip_witness:
  "address_from_hex ref_crates (address_hex ref_crates (example_wallet 7))
     = Inr (wallet_address (example_wallet 7))"
  using address_hex_roundtrip [OF ref_laws(1,2) example_wallet_wf [of 7] example_wallet_wf [of 8]]
  by simp

text \<open>
  Parsing an address accepts exactly the texts whose digits, after an optional \<open>0x\<close>, decode to 20
  bytes, and the result is those bytes. Text that is not hexadecimal and text of another length
  are told apart, and the second error gives the length found.
\<close>

theorem address_from_hex_spec:
  "address_from_hex L s =
     (case hex_decode L (case strip_prefix ''0x'' s of None \<Rightarrow> s | Some t \<Rightarrow> t) of
        None \<Rightarrow> Inl ''Invalid hex address''
      | Some bs \<Rightarrow>
          if length bs = 20 then Inr bs
          else Inl (''Address must be 20 bytes, got '' @ show_nat (length bs)))"
proof -
  have "show_nat 20 = ''20''" by code_simp
  then show ?thesis
    by (simp add: address_from_hex_def ADDRESS_LEN_def Let_def split: option.split)
qed

section \<open>Signatures\<close>

text \<open>
  A signature a wallet makes is 64 bytes long and verifies under the wallet's public key over the
  same message, and the address of the wallet is the address derived from that key.
\<close>

theorem wallet_sign_verify:
  assumes "ed25519_ok L" "wallet_wf L w"
  shows "length (wallet_sign L w m) = 64 \<and>
    wallet_verify L (public_key L w) m (wallet_sign L w m) = Inr () \<and>
    ed_key_from_bytes L (public_key_bytes L w) = Some (public_key L w) \<and>
    derive_address L (public_key L w) = wallet_address w"
  using assms wallet_wf_key_length [OF assms]
  by (simp add: wallet_sign_def wallet_verify_def public_key_def public_key_bytes_def
      wallet_address_def wallet_wf_def crate_laws)

theorem wallet_sign_verify_witness:
  "wallet_verify ref_crates (public_key ref_crates (example_wallet 7)) [1, 2]
     (wallet_sign ref_crates (example_wallet 7) [1, 2]) = Inr ()"
  using wallet_sign_verify [OF ref_laws(3) example_wallet_wf [of 7], of "[1, 2]"] by simp

text \<open>What the formatters show is a function of the address alone.\<close>

lemma wallet_formats_hide_key:
  "address w = address v \<Longrightarrow> wallet_debug L w = wallet_debug L v \<and> wallet_display L w = wallet_display L v"
  by (simp add: wallet_debug_def wallet_display_def address_hex_def)

end
