(* ===== verification/Transaction.thy ===== *)
theory Transaction
  imports Wallet
begin

text \<open>
  Signed transactions (\<^verbatim>\<open>src/zyphra/src/transaction.rs\<close>): construction, verification, the unsigned
  digest, the transaction hash and the RLP wire form with its decoder. The clock's milliseconds
  are an argument of \<open>tx_create\<close>. The lemmas show the round trip through the wire form for every
  transaction of the right array lengths, that the decoder only produces such transactions, that
  a transaction a wallet creates verifies here and after the wire, what verification accepts, and
  that two verified transactions that differ in their payload but share the signature exhibit
  either a Keccak-256 collision or one signature valid for two digests.
\<close>

section \<open>Data\<close>

record signed_transaction =
  tx_from :: address
  tx_to :: address
  tx_amount :: u64
  tx_nonce :: u64
  tx_timestamp :: u64
  tx_pubkey :: bytes
  tx_signature :: bytes

text \<open>The lengths of the Rust array types of the fields.\<close>

definition tx_wf :: "signed_transaction \<Rightarrow> bool" where
  "tx_wf tx \<longleftrightarrow>
     length (tx_from tx) = ADDRESS_LEN \<and> length (tx_to tx) = ADDRESS_LEN \<and>
     length (tx_pubkey tx) = 32 \<and> length (tx_signature tx) = 64"

section \<open>Wire form\<close>

text \<open>\<open>Encodable::rlp_append\<close> and \<open>to_rlp_bytes\<close>.\<close>

definition tx_rlp_append :: "signed_transaction \<Rightarrow> nat \<times> rlp_item list" where
  "tx_rlp_append tx =
     (7, [RlpBytes (tx_from tx), RlpBytes (tx_to tx), RlpU64 (tx_amount tx), RlpU64 (tx_nonce tx),
          RlpU64 (tx_timestamp tx), RlpBytes (tx_pubkey tx), RlpBytes (tx_signature tx)])"

definition to_rlp_bytes :: "crates \<Rightarrow> signed_transaction \<Rightarrow> bytes" where
  "to_rlp_bytes L tx = (case tx_rlp_append tx of (n, items) \<Rightarrow> rlp_list L n items)"

definition vec_to_array :: "nat \<Rightarrow> bytes \<Rightarrow> decoder_error + bytes" where
  "vec_to_array n v = (if length v = n then Inr v else Inl (Custom ''wrong byte length''))"

definition tx_decode :: "crates \<Rightarrow> bytes \<Rightarrow> decoder_error + signed_transaction" where
  "tx_decode L rlp =
     try_bind (rlp_val_bytes L rlp 0) (\<lambda>from_bytes.
     try_bind (rlp_val_bytes L rlp 1) (\<lambda>to_bytes.
     try_bind (rlp_val_u64 L rlp 2) (\<lambda>amount.
     try_bind (rlp_val_u64 L rlp 3) (\<lambda>nonce.
     try_bind (rlp_val_u64 L rlp 4) (\<lambda>timestamp.
     try_bind (rlp_val_bytes L rlp 5) (\<lambda>pubkey_bytes.
     try_bind (rlp_val_bytes L rlp 6) (\<lambda>sig_bytes.
     try_bind (vec_to_array ADDRESS_LEN from_bytes) (\<lambda>from.
     try_bind (vec_to_array ADDRESS_LEN to_bytes) (\<lambda>to.
     try_bind (vec_to_array 32 pubkey_bytes) (\<lambda>pubkey.
     try_bind (vec_to_array 64 sig_bytes) (\<lambda>signature.
       Inr \<lparr>tx_from = from, tx_to = to, tx_amount = amount, tx_nonce = nonce,
            tx_timestamp = timestamp, tx_pubkey = pubkey, tx_signature = signature\<rparr>)))))))))))"

definition from_rlp_bytes :: "crates \<Rightarrow> bytes \<Rightarrow> signed_transaction result" where
  "from_rlp_bytes L data = with_context ''Failed to RLP-decode SignedTransaction'' (tx_decode L data)"

section \<open>Digest, hash, creation, verification\<close>

text \<open>The bytes under the signed digest: \<open>RLP([from, to, amount, nonce, timestamp])\<close>.\<close>

definition unsigned_rlp :: "crates \<Rightarrow> address \<Rightarrow> address \<Rightarrow> u64 \<Rightarrow> u64 \<Rightarrow> u64 \<Rightarrow> bytes" where
  "unsigned_rlp L from to amount nonce timestamp =
     rlp_list L 5 [RlpBytes from, RlpBytes to, RlpU64 amount, RlpU64 nonce, RlpU64 timestamp]"

definition compute_unsigned_digest ::
    "crates \<Rightarrow> address \<Rightarrow> address \<Rightarrow> u64 \<Rightarrow> u64 \<Rightarrow> u64 \<Rightarrow> bytes" where
  "compute_unsigned_digest L from to amount nonce timestamp =
     keccak256_digest L (unsigned_rlp L from to amount nonce timestamp)"

definition tx_hash :: "crates \<Rightarrow> signed_transaction \<Rightarrow> string" where
  "tx_hash L tx = ''0x'' @ hex_encode L (keccak256_digest L (to_rlp_bytes L tx))"

text \<open>\<open>now\<close> is \<open>Utc::now().timestamp_millis() as u64\<close>.\<close>

definition tx_create :: "crates \<Rightarrow> u64 \<Rightarrow> wallet \<Rightarrow> address \<Rightarrow> u64 \<Rightarrow> u64 \<Rightarrow> signed_transaction" where
  "tx_create L now w to amount nonce =
     (let from = wallet_address w;
          timestamp = now;
          pubkey = public_key_bytes L w;
          digest = compute_unsigned_digest L from to amount nonce timestamp;
          sig = wallet_sign L w digest
      in \<lparr>tx_from = from, tx_to = to, tx_amount = amount, tx_nonce = nonce,
          tx_timestamp = timestamp, tx_pubkey = pubkey, tx_signature = sig\<rparr>)"

definition tx_verify :: "crates \<Rightarrow> signed_transaction \<Rightarrow> unit result" where
  "tx_verify L tx =
     try_bind (ok_or ''Invalid Ed25519 public key in transaction'' (ed_key_from_bytes L (tx_pubkey tx))) (\<lambda>vk.
       let derived = derive_address L vk in
       if derived = tx_from tx
       then (let digest = compute_unsigned_digest L (tx_from tx) (tx_to tx) (tx_amount tx)
                            (tx_nonce tx) (tx_timestamp tx);
                 sig = tx_signature tx
             in try_bind (wallet_verify L vk digest sig) (\<lambda>_. Inr ()))
       else Inl (''Address mismatch: pubkey derives to 0x'' @ hex_encode L derived @
                 '', but tx.from is 0x'' @ hex_encode L (tx_from tx)))"

text \<open>The arrow between the addresses is U+2192, the bytes E2 86 92.\<close>

definition tx_display :: "crates \<Rightarrow> signed_transaction \<Rightarrow> string" where
  "tx_display L tx =
     ''Tx { 0x'' @ hex_encode L (tx_from tx) @ [CHR 0xE2, CHR 0x86, CHR 0x92] @
     ''0x'' @ hex_encode L (tx_to tx) @ '' amt='' @ show_u64 (tx_amount tx) @
     '' nonce='' @ show_u64 (tx_nonce tx) @ '' hash='' @ tx_hash L tx @ '' }''"

section \<open>Round trip\<close>

lemma tx_rlp_small: "tx_wf tx \<Longrightarrow> rlp_small (snd (tx_rlp_append tx))"
  by (auto simp: tx_wf_def tx_rlp_append_def rlp_small_def ADDRESS_LEN_def)

lemma tx_decode_encode:
  assumes "rlp_ok L" and wf: "tx_wf tx"
  shows "tx_decode L (to_rlp_bytes L tx) = Inr tx"
proof -
  let ?xs = "snd (tx_rlp_append tx)"
  have b: "rlp_val_bytes L (to_rlp_bytes L tx) i = Inr b" if "i < 7" "?xs ! i = RlpBytes b" for i b
    using rlp_val_bytes_at [OF assms(1) tx_rlp_small [OF wf], of 7 i b] that
    by (simp add: to_rlp_bytes_def tx_rlp_append_def)
  have u: "rlp_val_u64 L (to_rlp_bytes L tx) i = Inr v" if "i < 7" "?xs ! i = RlpU64 v" for i v
    using rlp_val_u64_at [OF assms(1) tx_rlp_small [OF wf], of 7 i v] that
    by (simp add: to_rlp_bytes_def tx_rlp_append_def)
  have "rlp_val_bytes L (to_rlp_bytes L tx) 0 = Inr (tx_from tx)"
    "rlp_val_bytes L (to_rlp_bytes L tx) 1 = Inr (tx_to tx)"
    "rlp_val_u64 L (to_rlp_bytes L tx) 2 = Inr (tx_amount tx)"
    "rlp_val_u64 L (to_rlp_bytes L tx) 3 = Inr (tx_nonce tx)"
    "rlp_val_u64 L (to_rlp_bytes L tx) 4 = Inr (tx_timestamp tx)"
    "rlp_val_bytes L (to_rlp_bytes L tx) 5 = Inr (tx_pubkey tx)"
    "rlp_val_bytes L (to_rlp_bytes L tx) 6 = Inr (tx_signature tx)"
    by (auto intro!: b u simp: tx_rlp_append_def)
  with wf show ?thesis by (simp add: tx_decode_def tx_wf_def vec_to_array_def)
qed

interpretation wire: codec "\<lambda>tx. rlp_ok L \<and> tx_wf tx" "to_rlp_bytes L" "\<lambda>d. result_ok (from_rlp_bytes L d)" for L
  by unfold_locales (simp add: from_rlp_bytes_def tx_decode_encode)

lemma from_rlp_bytes_encode: "rlp_ok L \<Longrightarrow> tx_wf tx \<Longrightarrow> from_rlp_bytes L (to_rlp_bytes L tx) = Inr tx"
  using wire.dec_enc by simp

lemma from_rlp_bytes_wf: "from_rlp_bytes L d = Inr tx \<Longrightarrow> tx_wf tx"
  by (auto simp: from_rlp_bytes_def with_context_iff tx_decode_def try_bind_Inr_iff vec_to_array_def
      tx_wf_def split: if_splits)

text \<open>
  C28: Encoding a transaction and decoding the bytes gives the transaction back, field by field, and two
  transactions have the same wire form only when they are equal.
\<close>

theorem tx_wire_roundtrip:
  assumes "rlp_ok L" "tx_wf tx" "tx_wf tx'"
  shows "from_rlp_bytes L (to_rlp_bytes L tx) = Inr tx \<and>
    (to_rlp_bytes L tx = to_rlp_bytes L tx' \<longleftrightarrow> tx = tx')"
  using assms from_rlp_bytes_encode [OF assms(1,2)] wire.enc_inj [of L tx tx'] by simp

definition example_tx :: signed_transaction where
  "example_tx = tx_create ref_crates 17 (example_wallet 7) (address (example_wallet 8)) 50 0"

text \<open>
  C29: Whatever bytes arrive, the decoder either reports its one error or yields a transaction whose
  addresses, key and signature have the lengths of their array types; that transaction re-encodes
  to bytes that decode to it again, whatever else the received bytes contained.
\<close>

theorem from_rlp_bytes_sound:
  assumes "rlp_ok L"
  shows "from_rlp_bytes L d = Inl ''Failed to RLP-decode SignedTransaction'' \<or>
    (\<exists>tx. from_rlp_bytes L d = Inr tx \<and> tx_wf tx \<and> from_rlp_bytes L (to_rlp_bytes L tx) = Inr tx)"
proof (cases "from_rlp_bytes L d")
  case (Inl e)
  then show ?thesis by (simp add: from_rlp_bytes_def with_context_iff)
next
  case (Inr tx)
  then have "tx_wf tx" by (rule from_rlp_bytes_wf)
  with Inr from_rlp_bytes_encode [OF assms this] show ?thesis by blast
qed

theorem from_rlp_bytes_sound_witness:
  "from_rlp_bytes ref_crates [0xC0] = Inl ''Failed to RLP-decode SignedTransaction'' \<or>
   (\<exists>tx. from_rlp_bytes ref_crates [0xC0] = Inr tx \<and> tx_wf tx \<and>
     from_rlp_bytes ref_crates (to_rlp_bytes ref_crates tx) = Inr tx)"
  by (rule from_rlp_bytes_sound [OF ref_laws(4)])

section \<open>Creation and verification\<close>

lemma tx_create_fields [simp]:
  "tx_from (tx_create L now w to amount nonce) = wallet_address w"
  "tx_to (tx_create L now w to amount nonce) = to"
  "tx_amount (tx_create L now w to amount nonce) = amount"
  "tx_nonce (tx_create L now w to amount nonce) = nonce"
  "tx_timestamp (tx_create L now w to amount nonce) = now"
  "tx_pubkey (tx_create L now w to amount nonce) = public_key_bytes L w"
  by (simp_all add: tx_create_def Let_def)

lemma tx_create_wf:
  assumes "ed25519_ok L" "digest_ok L" "wallet_wf L w" "length to = ADDRESS_LEN"
  shows "tx_wf (tx_create L now w to amount nonce)"
  using assms wallet_wf_key_length [OF assms(1,3)] wallet_wf_address_length [OF assms(2,3)]
  by (simp add: tx_wf_def tx_create_def Let_def wallet_address_def wallet_sign_def
      public_key_bytes_def crate_laws)

lemma tx_verify_iff:
  assumes "ed25519_ok L"
  shows "tx_verify L tx = Inr () \<longleftrightarrow>
    ed_key_from_bytes L (tx_pubkey tx) = Some (tx_pubkey tx) \<and>
    derive_address L (tx_pubkey tx) = tx_from tx \<and>
    ed_verify L (tx_pubkey tx)
      (compute_unsigned_digest L (tx_from tx) (tx_to tx) (tx_amount tx) (tx_nonce tx) (tx_timestamp tx))
      (tx_signature tx)"
proof (cases "ed_key_from_bytes L (tx_pubkey tx)")
  case (Some k)
  with ed_key_from_bytes_id [OF assms Some] show ?thesis
    by (auto simp: tx_verify_def wallet_verify_def Let_def)
qed (simp add: tx_verify_def)

lemma tx_create_verifies:
  assumes "ed25519_ok L" "wallet_wf L w"
  shows "tx_verify L (tx_create L now w to amount nonce) = Inr ()"
proof -
  have "length (signing_key w) = 32" by (rule wallet_wf_key_length [OF assms])
  with assms show ?thesis
    unfolding tx_verify_iff [OF assms(1)]
    by (simp add: tx_create_def Let_def wallet_address_def wallet_sign_def public_key_bytes_def
        public_key_def wallet_wf_def crate_laws)
qed

text \<open>
  A transaction that a wallet creates, for any recipient, amount and nonce, passes verification at
  its creator, survives the wire unchanged and passes verification at whoever decodes it.
\<close>

theorem tx_create_verifies_everywhere:
  assumes "crates_ok L" "wallet_wf L w" "length to = ADDRESS_LEN"
  shows "\<exists>tx. tx = tx_create L now w to amount nonce \<and> tx_wf tx \<and> tx_verify L tx = Inr () \<and>
    from_rlp_bytes L (to_rlp_bytes L tx) = Inr tx"
proof -
  let ?tx = "tx_create L now w to amount nonce"
  note ok = crates_okD [OF assms(1)]
  have wf: "tx_wf ?tx" by (rule tx_create_wf [OF ok(3,2) assms(2,3)])
  have "tx_verify L ?tx = Inr ()" by (rule tx_create_verifies [OF ok(3) assms(2)])
  with wf from_rlp_bytes_encode [OF ok(4) wf] show ?thesis by simp
qed

theorem tx_create_verifies_everywhere_witness:
  "\<exists>tx. tx = tx_create ref_crates 5 (example_wallet 7) (replicate 20 1) 500 0 \<and> tx_wf tx \<and>
     tx_verify ref_crates tx = Inr () \<and> from_rlp_bytes ref_crates (to_rlp_bytes ref_crates tx) = Inr tx"
  by (rule tx_create_verifies_everywhere [OF ref_crates_ok example_wallet_wf])
    (simp add: ADDRESS_LEN_def)

lemma example_tx_facts:
  "tx_wf example_tx" "tx_verify ref_crates example_tx = Inr ()"
  "from_rlp_bytes ref_crates (to_rlp_bytes ref_crates example_tx) = Inr example_tx"
proof -
  have "length (address (example_wallet 8)) = ADDRESS_LEN"
    by (rule wallet_wf_address_length [OF ref_laws(2) example_wallet_wf])
  then show wf: "tx_wf example_tx"
    unfolding example_tx_def by (intro tx_create_wf ref_laws example_wallet_wf)
  show "tx_verify ref_crates example_tx = Inr ()"
    unfolding example_tx_def by (intro tx_create_verifies ref_laws example_wallet_wf)
  from wf show "from_rlp_bytes ref_crates (to_rlp_bytes ref_crates example_tx) = Inr example_tx"
    by (rule from_rlp_bytes_encode [OF ref_laws(4)])
qed

theorem tx_wire_roundtrip_witness:
  "from_rlp_bytes ref_crates (to_rlp_bytes ref_crates example_tx) = Inr example_tx"
  using tx_wire_roundtrip [OF ref_laws(4) example_tx_facts(1) example_tx_facts(1)] by simp

text \<open>
  Verification accepts a transaction exactly when its public key is a valid key, the sender address
  is the one derived from that key, and the signature verifies under that key over the digest of
  the five payload fields; a rejection names which of the three failed, in that order.
\<close>

theorem tx_verify_spec:
  assumes "ed25519_ok L"
  shows "tx_verify L tx =
    (if ed_key_from_bytes L (tx_pubkey tx) = None then Inl ''Invalid Ed25519 public key in transaction''
     else if derive_address L (tx_pubkey tx) \<noteq> tx_from tx
       then Inl (''Address mismatch: pubkey derives to 0x'' @ hex_encode L (derive_address L (tx_pubkey tx)) @
                 '', but tx.from is 0x'' @ hex_encode L (tx_from tx))
     else if ed_verify L (tx_pubkey tx)
               (keccak256_digest L (unsigned_rlp L (tx_from tx) (tx_to tx) (tx_amount tx) (tx_nonce tx)
                 (tx_timestamp tx))) (tx_signature tx)
       then Inr ()
     else Inl ''Ed25519 signature verification failed'')"
proof (cases "ed_key_from_bytes L (tx_pubkey tx)")
  case (Some k)
  with ed_key_from_bytes_id [OF assms Some] show ?thesis
    by (simp add: tx_verify_def wallet_verify_def compute_unsigned_digest_def Let_def)
qed (simp add: tx_verify_def)

theorem tx_verify_spec_witness:
  "tx_verify ref_crates (example_tx\<lparr>tx_pubkey := []\<rparr>) = Inl ''Invalid Ed25519 public key in transaction''"
  using tx_verify_spec [OF ref_laws(3), of "example_tx\<lparr>tx_pubkey := []\<rparr>"]
  by (simp add: ref_crates_def)

section \<open>Tampering and collisions\<close>

definition tx_payload :: "signed_transaction \<Rightarrow> address \<times> address \<times> u64 \<times> u64 \<times> u64" where
  "tx_payload tx = (tx_from tx, tx_to tx, tx_amount tx, tx_nonce tx, tx_timestamp tx)"

definition tx_unsigned :: "crates \<Rightarrow> signed_transaction \<Rightarrow> bytes" where
  "tx_unsigned L tx = unsigned_rlp L (tx_from tx) (tx_to tx) (tx_amount tx) (tx_nonce tx) (tx_timestamp tx)"

lemma tx_unsigned_inj:
  assumes "rlp_ok L" "tx_wf tx" "tx_wf tx'" "tx_unsigned L tx = tx_unsigned L tx'"
  shows "tx_payload tx = tx_payload tx'"
proof -
  define xs where "xs t = [RlpBytes (tx_from t), RlpBytes (tx_to t), RlpU64 (tx_amount t),
    RlpU64 (tx_nonce t), RlpU64 (tx_timestamp t)]" for t :: signed_transaction
  have small: "rlp_small (xs t)" if "tx_wf t" for t
    using that by (auto simp: xs_def tx_wf_def rlp_small_def ADDRESS_LEN_def)
  have enc: "tx_unsigned L t = rlp_list L 5 (xs t)" for t
    by (simp add: tx_unsigned_def unsigned_rlp_def xs_def)
  have b: "rlp_val_bytes L (tx_unsigned L t) i = Inr c" if "tx_wf t" "i < 5" "xs t ! i = RlpBytes c" for t i c
    unfolding enc using that by (intro rlp_val_bytes_at [OF assms(1) small]) (simp_all add: xs_def)
  have u: "rlp_val_u64 L (tx_unsigned L t) i = Inr v" if "tx_wf t" "i < 5" "xs t ! i = RlpU64 v" for t i v
    unfolding enc using that by (intro rlp_val_u64_at [OF assms(1) small]) (simp_all add: xs_def)
  have "rlp_val_bytes L (tx_unsigned L t) 0 = Inr (tx_from t) \<and>
    rlp_val_bytes L (tx_unsigned L t) 1 = Inr (tx_to t) \<and>
    rlp_val_u64 L (tx_unsigned L t) 2 = Inr (tx_amount t) \<and>
    rlp_val_u64 L (tx_unsigned L t) 3 = Inr (tx_nonce t) \<and>
    rlp_val_u64 L (tx_unsigned L t) 4 = Inr (tx_timestamp t)" if "tx_wf t" for t
    using that by (intro conjI b u) (simp_all add: xs_def)
  from this [OF assms(2)] this [OF assms(3)] assms(4) show ?thesis
    by (simp add: tx_payload_def)
qed

text \<open>
  C16: Changing any of sender, recipient, amount, nonce or timestamp of a verified transaction while keeping
  its key and signature changes the signed bytes, and if the altered transaction verifies too then
  those two byte strings are a Keccak-256 collision or their two different digests carry the same
  valid signature.
\<close>

theorem tx_tampering_detected:
  assumes "ed25519_ok L" "rlp_ok L" "tx_wf tx" "tx_wf tx'"
    and "tx_pubkey tx' = tx_pubkey tx" "tx_signature tx' = tx_signature tx"
    and "tx_payload tx' \<noteq> tx_payload tx"
    and "tx_verify L tx = Inr ()" "tx_verify L tx' = Inr ()"
  shows "tx_unsigned L tx \<noteq> tx_unsigned L tx' \<and>
    (let d = keccak256_digest L (tx_unsigned L tx); d' = keccak256_digest L (tx_unsigned L tx')
     in d = d' \<or> ed_verify L (tx_pubkey tx) d (tx_signature tx) \<and> ed_verify L (tx_pubkey tx) d' (tx_signature tx))"
proof -
  have "tx_unsigned L tx \<noteq> tx_unsigned L tx'"
    using tx_unsigned_inj [OF assms(2-4)] assms(7) by auto
  with assms show ?thesis
    by (simp add: tx_verify_iff compute_unsigned_digest_def tx_unsigned_def)
qed

text \<open>With the stand-in digest, which keeps 32 bytes, the altered amount goes unnoticed.\<close>

theorem tx_tampering_detected_witness:
  "tx_unsigned ref_crates example_tx \<noteq> tx_unsigned ref_crates (example_tx\<lparr>tx_amount := 51\<rparr>)"
proof -
  have "tx_wf (example_tx\<lparr>tx_amount := 51\<rparr>)" using example_tx_facts(1) by (simp add: tx_wf_def)
  moreover have "tx_amount example_tx \<noteq> 51" by (simp add: example_tx_def)
  moreover have "tx_verify ref_crates (example_tx\<lparr>tx_amount := 51\<rparr>) = Inr ()" by code_simp
  ultimately show ?thesis
    using tx_tampering_detected [OF ref_laws(3,4) example_tx_facts(1), of "example_tx\<lparr>tx_amount := 51\<rparr>"]
      example_tx_facts(2) by (simp add: tx_payload_def)
qed

text \<open>
  C30: A transaction hash is \<open>0x\<close> and 64 digits, and two transactions with the same hash are equal or their
  wire forms are different byte strings with the same Keccak-256 digest.
\<close>

theorem tx_hash_identifies:
  assumes "crates_ok L" "tx_wf tx" "tx_wf tx'"
  shows "length (tx_hash L tx) = 66 \<and> take 2 (tx_hash L tx) = ''0x'' \<and>
    (tx_hash L tx = tx_hash L tx' \<longleftrightarrow>
      tx = tx' \<or> to_rlp_bytes L tx \<noteq> to_rlp_bytes L tx' \<and>
        keccak256_digest L (to_rlp_bytes L tx) = keccak256_digest L (to_rlp_bytes L tx'))"
proof -
  note ok = crates_okD [OF assms(1)]
  have "to_rlp_bytes L tx = to_rlp_bytes L tx' \<longleftrightarrow> tx = tx'"
    using wire.enc_inj ok assms by blast
  with ok show ?thesis
    by (auto simp: tx_hash_def hex_encode_inj crate_laws)
qed

theorem tx_hash_identifies_witness:
  "length (tx_hash ref_crates example_tx) = 66"
  using tx_hash_identifies [OF ref_crates_ok example_tx_facts(1) example_tx_facts(1)] by simp

end
