(* ===== verification/Network.thy ===== *)
theory Network
  imports Transaction
begin

text \<open>
  The network layer (\<^verbatim>\<open>src/zyphra/src/network.rs\<close>): the two message types of the transfer protocol, the
  union of the sub-protocol events the swarm delivers, and the construction of the composed
  behaviour with the settings it passes to libp2p. The libp2p types are represented by what the
  sources read of them: a peer identifier and a multiaddress by their text, a response channel by
  a number, an event by the variants the handlers match and one variant for all others. What the
  fallible libp2p constructors answer is a parameter (\<open>libp2p\<close>).
\<close>

section \<open>Messages and events\<close>

definition TX_TOPIC :: string where
  "TX_TOPIC = ''/crypto-node/tx/1.0.0''"

definition TRANSFER_PROTOCOL :: string where
  "TRANSFER_PROTOCOL = ''/crypto-node/transfer/1.0.0''"

record transfer_request =
  tx_rlp :: bytes

record transfer_response =
  accepted :: bool
  reason :: string
  resp_tx_hash :: string

type_synonym peer_id = string
type_synonym multiaddr = string
type_synonym channel = nat

datatype kad_event = RoutingUpdated peer_id "multiaddr list" | OtherKad

datatype gossipsub_event =
    GossipMessage (propagation_source: peer_id) (message_id: string) (message_data: bytes)
  | OtherGossip

datatype transfer_event =
    RequestMessage peer_id transfer_request channel
  | ResponseMessage peer_id transfer_response
  | OtherTransfer

datatype identify_event = IdentifyReceived peer_id string "multiaddr list" | OtherIdentify

datatype mdns_event = Discovered "(peer_id \<times> multiaddr) list" | Expired "(peer_id \<times> multiaddr) list"

datatype node_event =
    Kademlia kad_event
  | Gossipsub gossipsub_event
  | Transfer transfer_event
  | Identify identify_event
  | Mdns mdns_event

section \<open>The composed behaviour\<close>

text \<open>The settings the sources pass on; times are in seconds.\<close>

record kad_config =
  kad_protocol :: string
  query_timeout :: nat
  record_ttl :: "nat option"
  provider_record_ttl :: "nat option"

datatype validation_mode = Strict | Permissive | AnonymousMode | NoValidation

record gossip_config =
  heartbeat_interval :: nat
  gossip_validation :: validation_mode
  max_transmit_size :: nat

datatype protocol_support = Inbound | Outbound | Full

record transfer_config =
  transfer_protocols :: "(string \<times> protocol_support) list"
  request_timeout :: nat

record identify_config =
  protocol_version :: string
  identify_key :: bytes
  push_listen_addr_updates :: bool
  identify_interval :: nat

record node_behaviour =
  kademlia :: "peer_id \<times> kad_config"
  gossipsub :: "bytes \<times> gossip_config \<times> string list"
  transfer :: transfer_config
  identify :: identify_config
  mdns :: peer_id

text \<open>
  What the fallible constructors of libp2p answer: whether the GossipSub configuration builds,
  the error of creating the behaviour if any, whether subscribing succeeds, and whether mDNS starts.
\<close>

record libp2p =
  gossip_config_builds :: "gossip_config \<Rightarrow> bool"
  gossip_behaviour_error :: "bytes \<Rightarrow> gossip_config \<Rightarrow> string option"
  gossip_subscribes :: "string \<Rightarrow> bool"
  mdns_starts :: "peer_id \<Rightarrow> bool"

text \<open>\<open>local_key\<close> is the identity keypair, by its public half where only that is used.\<close>

definition build_behaviour :: "libp2p \<Rightarrow> bytes \<Rightarrow> peer_id \<Rightarrow> node_behaviour result" where
  "build_behaviour P local_key peer =
     (let kad_conf = \<lparr>kad_protocol = ''/crypto-node/kad/1.0.0'', query_timeout = 60,
                      record_ttl = Some 86400, provider_record_ttl = Some 43200\<rparr>;
          kad = (peer, kad_conf);
          gossip_conf = \<lparr>heartbeat_interval = 1, gossip_validation = Strict, max_transmit_size = 65536\<rparr>
      in if \<not> gossip_config_builds P gossip_conf then Inl ''Failed to build GossipSub config''
         else (case gossip_behaviour_error P local_key gossip_conf of
                 Some e \<Rightarrow> Inl (''Failed to create GossipSub behaviour: '' @ e)
               | None \<Rightarrow>
                   if \<not> gossip_subscribes P TX_TOPIC then Inl ''Failed to subscribe to tx topic''
                   else
                     (let gossip = (local_key, gossip_conf, [TX_TOPIC]);
                          transf = \<lparr>transfer_protocols = [(TRANSFER_PROTOCOL, Full)], request_timeout = 30\<rparr>;
                          ident = \<lparr>protocol_version = ''/crypto-node/1.0.0'', identify_key = local_key,
                                   push_listen_addr_updates = True, identify_interval = 60\<rparr>
                      in if \<not> mdns_starts P peer then Inl ''Failed to create mDNS behaviour''
                         else Inr \<lparr>kademlia = kad, gossipsub = gossip, transfer = transf,
                                   identify = ident, mdns = peer\<rparr>)))"

text \<open>The first of the fallible calls that fails, with the text it is reported under.\<close>

definition behaviour_error :: "libp2p \<Rightarrow> bytes \<Rightarrow> peer_id \<Rightarrow> string option" where
  "behaviour_error P k p =
     (let c = \<lparr>heartbeat_interval = 1, gossip_validation = Strict, max_transmit_size = 65536\<rparr> in
      if \<not> gossip_config_builds P c then Some ''Failed to build GossipSub config''
      else if gossip_behaviour_error P k c \<noteq> None
        then Some (''Failed to create GossipSub behaviour: '' @ the (gossip_behaviour_error P k c))
      else if \<not> gossip_subscribes P TX_TOPIC then Some ''Failed to subscribe to tx topic''
      else if \<not> mdns_starts P p then Some ''Failed to create mDNS behaviour''
      else None)"

text \<open>
  The behaviour is built exactly when all four fallible library calls succeed, the first failure
  being the one reported. A built behaviour is subscribed to the transaction topic and nothing
  else, requires strict message validation, answers and issues requests under the transfer
  protocol only, and the two identifiers differ, so a broadcast is never taken for a request.
\<close>

theorem build_behaviour_spec:
  "(case build_behaviour P k p of
      Inl e \<Rightarrow> behaviour_error P k p = Some e
    | Inr b \<Rightarrow>
        behaviour_error P k p = None \<and>
        snd (snd (gossipsub b)) = [TX_TOPIC] \<and> gossip_validation (fst (snd (gossipsub b))) = Strict \<and>
        map fst (transfer_protocols (transfer b)) = [TRANSFER_PROTOCOL] \<and>
        fst (kademlia b) = p \<and> mdns b = p \<and> identify_key (identify b) = k) \<and>
   TX_TOPIC \<noteq> TRANSFER_PROTOCOL"
  by (simp add: build_behaviour_def behaviour_error_def Let_def TX_TOPIC_def TRANSFER_PROTOCOL_def
      split: option.split)

end
