(* ===== verification/Ledger.thy ===== *)
theory Ledger
  imports Wallet
begin

text \<open>
  The ledger (\<^verbatim>\<open>src/zyphra/src/ledger.rs\<close>): balances and nonces by address. The \<open>DashMap\<close> of accounts
  is the list of its entries; an operation that mutates the map returns the new ledger beside its
  outcome, also when it panics, so that a half-done transfer is visible. The node calls the ledger
  from one task only, so an operation runs without interleaving. The lemmas give the exact effect
  of a transfer on every branch, the representation invariant, conservation of the total supply,
  and what an overflow does in either build.
\<close>

section \<open>Data\<close>

datatype ledger_error =
    InsufficientBalance u64 u64
  | InvalidNonce u64 u64
  | AddressNotFound address
  | SelfTransfer
  | ZeroValue

fun ledger_error_display :: "crates \<Rightarrow> ledger_error \<Rightarrow> string" where
  "ledger_error_display L (InsufficientBalance have need) =
     ''Insufficient balance: have '' @ show_u64 have @ '', need '' @ show_u64 need"
| "ledger_error_display L (InvalidNonce expected got) =
     ''Invalid nonce: expected '' @ show_u64 expected @ '', got '' @ show_u64 got"
| "ledger_error_display L (AddressNotFound a) = ''Address not found: 0x'' @ hex_encode L a"
| "ledger_error_display L SelfTransfer = ''Self-transfer is not allowed''"
| "ledger_error_display L ZeroValue = ''Zero-value transfer is not allowed''"

record account_state =
  balance :: u64
  nonce :: u64

definition account_new :: "u64 \<Rightarrow> account_state" where
  "account_new initial_balance = \<lparr>balance = initial_balance, nonce = 0\<rparr>"

record ledger =
  accounts :: "(address \<times> account_state) list"

section \<open>Operations\<close>

definition ledger_new :: ledger where
  "ledger_new = \<lparr>accounts = []\<rparr>"

definition ledger_default :: ledger where
  "ledger_default = ledger_new"

definition ledger_register :: "ledger \<Rightarrow> address \<Rightarrow> u64 \<Rightarrow> ledger \<times> bool" where
  "ledger_register l a initial_balance =
     (case map_of (accounts l) a of
        None \<Rightarrow> (l\<lparr>accounts := AList.update a (account_new initial_balance) (accounts l)\<rparr>, True)
      | Some _ \<Rightarrow> (l, False))"

definition ledger_balance :: "ledger \<Rightarrow> address \<Rightarrow> u64 option" where
  "ledger_balance l a = map_option balance (map_of (accounts l) a)"

definition ledger_nonce :: "ledger \<Rightarrow> address \<Rightarrow> u64 option" where
  "ledger_nonce l a = map_option nonce (map_of (accounts l) a)"

text \<open>\<open>entry(k).and_modify(|a| a.balance += amount).or_insert_with(|| fresh)\<close>\<close>

definition entry_add ::
    "build \<Rightarrow> (address \<times> account_state) list \<Rightarrow> address \<Rightarrow> u64 \<Rightarrow> account_state
     \<Rightarrow> (address \<times> account_state) list \<times> unit run" where
  "entry_add bp m k amount fresh =
     (case map_of m k of
        Some a \<Rightarrow>
          (case u64_add bp (balance a) amount of
             Panic \<Rightarrow> (m, Panic)
           | Ret b \<Rightarrow> (AList.update k (a\<lparr>balance := b\<rparr>) m, Ret ()))
      | None \<Rightarrow> (AList.update k fresh m, Ret ()))"

definition ledger_transfer ::
    "build \<Rightarrow> ledger \<Rightarrow> address \<Rightarrow> address \<Rightarrow> u64 \<Rightarrow> u64 \<Rightarrow> ledger \<times> (ledger_error + unit) run" where
  "ledger_transfer bp l from to amount n =
     (if from = to then (l, Ret (Inl SelfTransfer))
      else if amount = 0 then (l, Ret (Inl ZeroValue))
      else
        (case map_of (accounts l) from of
           None \<Rightarrow> (l, Ret (Inl (AddressNotFound from)))
         | Some sender \<Rightarrow>
             if nonce sender \<noteq> n then (l, Ret (Inl (InvalidNonce (nonce sender) n)))
             else if balance sender < amount
               then (l, Ret (Inl (InsufficientBalance (balance sender) amount)))
             else
               (case u64_sub bp (balance sender) amount of
                  Panic \<Rightarrow> (l, Panic)
                | Ret b \<Rightarrow>
                    (let m1 = AList.update from (sender\<lparr>balance := b\<rparr>) (accounts l) in
                     case u64_add bp (nonce sender) 1 of
                       Panic \<Rightarrow> (l\<lparr>accounts := m1\<rparr>, Panic)
                     | Ret n' \<Rightarrow>
                         (let m2 = AList.update from (sender\<lparr>balance := b, nonce := n'\<rparr>) m1 in
                          case entry_add bp m2 to amount \<lparr>balance = amount, nonce = 0\<rparr> of
                            (m3, Panic) \<Rightarrow> (l\<lparr>accounts := m3\<rparr>, Panic)
                          | (m3, Ret _) \<Rightarrow> (l\<lparr>accounts := m3\<rparr>, Ret (Inr ())))))))"

definition ledger_credit :: "build \<Rightarrow> ledger \<Rightarrow> address \<Rightarrow> u64 \<Rightarrow> ledger \<times> unit run" where
  "ledger_credit bp l a amount =
     (case entry_add bp (accounts l) a amount (account_new amount) of
        (m, r) \<Rightarrow> (l\<lparr>accounts := m\<rparr>, r))"

text \<open>Collecting into a \<open>HashMap\<close> inserts the pairs in the order of the iteration.\<close>

definition ledger_snapshot :: "crates \<Rightarrow> ledger \<Rightarrow> (string \<times> account_state) list" where
  "ledger_snapshot L l =
     fold (\<lambda>(k, v) m. AList.update (''0x'' @ hex_encode L k) v m) (accounts l) []"

section \<open>Views and the invariant\<close>

definition ledger_wf :: "ledger \<Rightarrow> bool" where
  "ledger_wf l \<longleftrightarrow> map_wf (accounts l) \<and> (\<forall>a \<in> set (map fst (accounts l)). length a = ADDRESS_LEN)"

text \<open>The total supply, counted without wrap-around.\<close>

definition total_supply :: "ledger \<Rightarrow> nat" where
  "total_supply l = entry_total (\<lambda>s. unat (balance s)) (accounts l)"

text \<open>The balance of an address as a number, zero for an unknown one.\<close>

definition funds :: "ledger \<Rightarrow> address \<Rightarrow> nat" where
  "funds l a = (case ledger_balance l a of None \<Rightarrow> 0 | Some b \<Rightarrow> unat b)"

lemma funds_bound: "funds l a < 18446744073709551616"
  by (simp add: funds_def split: option.split)

lemma funds_supply: "funds l a \<le> total_supply l"
  using hmap.total_lookup [of "accounts l" a _ "\<lambda>s. unat (balance s)"]
  by (auto simp: funds_def ledger_balance_def total_supply_def split: option.splits)

lemma funds_supply2: "a \<noteq> b \<Longrightarrow> funds l a + funds l b \<le> total_supply l"
  using hmap.total_lookup2 [of "accounts l" a _ b _ "\<lambda>s. unat (balance s)"]
    funds_supply [of l a] funds_supply [of l b]
  by (auto simp: funds_def ledger_balance_def total_supply_def split: option.splits)

section \<open>The outcomes of a transfer\<close>

text \<open>The validation in the order of the code, over what the getters show.\<close>

definition transfer_error :: "ledger \<Rightarrow> address \<Rightarrow> address \<Rightarrow> u64 \<Rightarrow> u64 \<Rightarrow> ledger_error option" where
  "transfer_error l from to amount n =
     (if from = to then Some SelfTransfer
      else if amount = 0 then Some ZeroValue
      else
        (case (ledger_nonce l from, ledger_balance l from) of
           (Some k, Some b) \<Rightarrow>
             if k \<noteq> n then Some (InvalidNonce k n)
             else if b < amount then Some (InsufficientBalance b amount)
             else None
         | _ \<Rightarrow> Some (AddressNotFound from)))"

text \<open>What a valid transfer writes.\<close>

definition credited :: "ledger \<Rightarrow> address \<Rightarrow> u64 \<Rightarrow> account_state" where
  "credited l a amount =
     (case map_of (accounts l) a of
        None \<Rightarrow> \<lparr>balance = amount, nonce = 0\<rparr>
      | Some s \<Rightarrow> s\<lparr>balance := balance s + amount\<rparr>)"

definition debited :: "account_state \<Rightarrow> u64 \<Rightarrow> account_state" where
  "debited s amount = s\<lparr>balance := balance s - amount, nonce := nonce s + 1\<rparr>"

definition put_account :: "address \<Rightarrow> account_state \<Rightarrow> ledger \<Rightarrow> ledger" where
  "put_account a s l = l\<lparr>accounts := AList.update a s (accounts l)\<rparr>"

lemma put_account_lookup [simp]:
  "map_of (accounts (put_account a s l)) b = (if b = a then Some s else map_of (accounts l) b)"
  by (simp add: put_account_def hmap.lookup_put)

lemma put_account_wf: "ledger_wf l \<Longrightarrow> length a = ADDRESS_LEN \<Longrightarrow> ledger_wf (put_account a s l)"
  by (auto simp: ledger_wf_def put_account_def hmap.wf_put alist_update_keys)

lemma put_account_supply:
  "total_supply (put_account a s l) + funds l a = total_supply l + unat (balance s)"
  using hmap.total_put [of "\<lambda>s. unat (balance s)" a s "accounts l"]
  by (auto simp: total_supply_def put_account_def funds_def ledger_balance_def split: option.splits)

lemma entry_add_eq:
  "entry_add bp (accounts l) a amount \<lparr>balance = amount, nonce = 0\<rparr> =
     (if bp = Debug \<and> 2 ^ 64 \<le> funds l a + unat amount then (accounts l, Panic)
      else (accounts (put_account a (credited l a amount) l), Ret ()))"
  by (auto simp: entry_add_def funds_def ledger_balance_def credited_def put_account_def rust_defs
      split: option.splits)

lemma ledger_credit_eq:
  "ledger_credit bp l a amount =
     (if bp = Debug \<and> 2 ^ 64 \<le> funds l a + unat amount then (l, Panic)
      else (put_account a (credited l a amount) l, Ret ()))"
  by (simp add: ledger_credit_def account_new_def entry_add_eq put_account_def)

lemma transfer_error_None:
  "transfer_error l from to amount n = None \<longleftrightarrow>
     from \<noteq> to \<and> amount \<noteq> 0 \<and>
     (\<exists>s. map_of (accounts l) from = Some s \<and> nonce s = n \<and> amount \<le> balance s)"
  by (auto simp: transfer_error_def ledger_nonce_def ledger_balance_def split: option.splits)

lemma ledger_transfer_error:
  "transfer_error l from to amount n = Some e \<Longrightarrow> ledger_transfer bp l from to amount n = (l, Ret (Inl e))"
  by (auto simp: transfer_error_def ledger_transfer_def ledger_nonce_def ledger_balance_def
      split: option.splits if_splits)

lemma ledger_transfer_valid:
  assumes "from \<noteq> to" "amount \<noteq> 0" "map_of (accounts l) from = Some s" "nonce s = n" "amount \<le> balance s"
  shows "ledger_transfer bp l from to amount n =
    (if bp = Debug \<and> 2 ^ 64 \<le> unat n + 1
       then (put_account from (s\<lparr>balance := balance s - amount\<rparr>) l, Panic)
     else if bp = Debug \<and> 2 ^ 64 \<le> funds l to + unat amount then (put_account from (debited s amount) l, Panic)
     else (put_account to (credited l to amount) (put_account from (debited s amount) l), Ret (Inr ())))"
proof -
  let ?l = "put_account from (debited s amount) l"
  have "funds ?l to = funds l to" and "credited ?l to amount = credited l to amount"
    using assms(1) by (simp_all add: funds_def ledger_balance_def credited_def)
  then have "entry_add bp (accounts ?l) to amount \<lparr>balance = amount, nonce = 0\<rparr> =
    (if bp = Debug \<and> 2 ^ 64 \<le> funds l to + unat amount then (accounts ?l, Panic)
     else (accounts (put_account to (credited l to amount) ?l), Ret ()))"
    using entry_add_eq [of bp ?l to amount] by simp
  moreover have "accounts ?l = AList.update from (s\<lparr>balance := balance s - amount, nonce := n + 1\<rparr>) (accounts l)"
    using assms(4) by (simp add: put_account_def debited_def)
  moreover have "ledger_transfer bp l from to amount n =
    (case u64_add bp n 1 of
       Panic \<Rightarrow> (put_account from (s\<lparr>balance := balance s - amount\<rparr>) l, Panic)
     | Ret n' \<Rightarrow>
         (case entry_add bp (AList.update from (s\<lparr>balance := balance s - amount, nonce := n'\<rparr>) (accounts l))
                 to amount \<lparr>balance = amount, nonce = 0\<rparr> of
            (m3, Panic) \<Rightarrow> (l\<lparr>accounts := m3\<rparr>, Panic)
          | (m3, Ret _) \<Rightarrow> (l\<lparr>accounts := m3\<rparr>, Ret (Inr ()))))"
    using assms u64_sub_exact [OF assms(5), of bp] leD [OF assms(5)]
    by (cases "u64_add bp n 1") (simp_all add: ledger_transfer_def put_account_def Let_def)
  ultimately show ?thesis
    by (cases "u64_add bp n 1") (auto simp: u64_add_Ret_iff u64_add_Panic_iff put_account_def not_less)
qed

lemma ledger_transfer_cases:
  obtains (rejected) e where "transfer_error l from to amount n = Some e"
      "ledger_transfer bp l from to amount n = (l, Ret (Inl e))"
  | (nonce_panic) s where "transfer_error l from to amount n = None" "map_of (accounts l) from = Some s"
      "bp = Debug" "2 ^ 64 \<le> unat n + 1" "nonce s = n" "amount \<le> balance s" "from \<noteq> to"
      "ledger_transfer bp l from to amount n = (put_account from (s\<lparr>balance := balance s - amount\<rparr>) l, Panic)"
  | (credit_panic) s where "transfer_error l from to amount n = None" "map_of (accounts l) from = Some s"
      "bp = Debug" "2 ^ 64 \<le> funds l to + unat amount" "nonce s = n" "amount \<le> balance s" "from \<noteq> to"
      "ledger_transfer bp l from to amount n = (put_account from (debited s amount) l, Panic)"
  | (done_) s where "transfer_error l from to amount n = None" "map_of (accounts l) from = Some s"
      "bp = Debug \<longrightarrow> unat n + 1 < 2 ^ 64 \<and> funds l to + unat amount < 2 ^ 64"
      "nonce s = n" "amount \<le> balance s" "from \<noteq> to"
      "ledger_transfer bp l from to amount n =
         (put_account to (credited l to amount) (put_account from (debited s amount) l), Ret (Inr ()))"
proof (cases "transfer_error l from to amount n")
  case None
  then obtain s where s: "from \<noteq> to" "amount \<noteq> 0" "map_of (accounts l) from = Some s" "nonce s = n"
      "amount \<le> balance s"
    by (auto simp: transfer_error_None)
  note eq = ledger_transfer_valid [OF s, of bp]
  show thesis
  proof (cases "bp = Debug \<and> 2 ^ 64 \<le> unat n + 1")
    case True
    with eq None s nonce_panic show ?thesis by simp
  next
    case no_nonce: False
    show ?thesis
    proof (cases "bp = Debug \<and> 2 ^ 64 \<le> funds l to + unat amount")
      case True
      with no_nonce eq None s credit_panic show ?thesis by simp
    next
      case False
      with no_nonce eq None s done_ show ?thesis by (simp add: not_le)
    qed
  qed
next
  case (Some e)
  then show thesis using rejected ledger_transfer_error by blast
qed

lemma funds_put_account:
  "funds (put_account a s l) b = (if b = a then unat (balance s) else funds l b)"
  by (simp add: funds_def ledger_balance_def)

lemma funds_lookup: "map_of (accounts l) a = Some s \<Longrightarrow> funds l a = unat (balance s)"
  by (simp add: funds_def ledger_balance_def)

lemma balance_credited: "unat (balance (credited l a amount)) = (funds l a + unat amount) mod 2 ^ 64"
  by (auto simp: credited_def funds_def ledger_balance_def unat_u64_add split: option.split)

lemma balance_debited: "amount \<le> balance s \<Longrightarrow> unat (balance (debited s amount)) + unat amount = unat (balance s)"
  by (simp add: debited_def unat_u64_sub_exact word_le_nat_alt)

lemmas ledger_defs = ledger_balance_def ledger_nonce_def funds_def

lemma transfer_done_nonce:
  "ledger_transfer bp l from to amount n = (l', Ret (Inr ())) \<Longrightarrow>
   ledger_nonce l from = Some n \<and> ledger_nonce l' from = Some (n + 1)"
  by (cases rule: ledger_transfer_cases [of l "from" to amount n bp])
    (auto simp: ledger_nonce_def debited_def)

section \<open>Properties\<close>

text \<open>
  C2: A successful transfer takes exactly the amount from the sender, whose nonce was the one given and
  is one higher afterwards, adds the amount to the recipient (created with nonce zero if unknown,
  its nonce kept otherwise) and leaves every other account alone.
\<close>

theorem ledger_transfer_effect:
  assumes "ledger_transfer bp l from to amount n = (l', Ret (Inr ()))"
  shows "from \<noteq> to \<and> amount \<noteq> 0 \<and>
    ledger_nonce l from = Some n \<and> ledger_nonce l' from = Some (n + 1) \<and>
    funds l' from + unat amount = funds l from \<and>
    ledger_balance l' to = Some (of_nat (funds l to) + amount) \<and>
    ledger_nonce l' to = Some (case ledger_nonce l to of None \<Rightarrow> 0 | Some k \<Rightarrow> k) \<and>
    (\<forall>a. a \<noteq> from \<and> a \<noteq> to \<longrightarrow> map_of (accounts l') a = map_of (accounts l) a)"
proof (cases rule: ledger_transfer_cases [of l "from" to amount n bp])
  case (done_ s)
  then have "amount \<noteq> 0" by (auto simp: transfer_error_None)
  moreover have "ledger_balance l' to = Some (of_nat (funds l to) + amount) \<and>
    ledger_nonce l' to = Some (case ledger_nonce l to of None \<Rightarrow> 0 | Some k \<Rightarrow> k)"
    using done_ assms
    by (auto simp: ledger_balance_def ledger_nonce_def credited_def funds_def split: option.split)
  moreover have "funds l' from + unat amount = funds l from"
    using done_ assms balance_debited [of amount s] by (auto simp: funds_put_account funds_lookup)
  moreover have "\<forall>a. a \<noteq> from \<and> a \<noteq> to \<longrightarrow> map_of (accounts l') a = map_of (accounts l) a"
    using done_ assms by auto
  ultimately show ?thesis using done_(6) transfer_done_nonce [OF assms] by blast
qed (use assms in auto)

text \<open>
  C25: A transfer is rejected exactly for the first applicable reason among self-transfer, zero amount,
  unknown sender, wrong nonce and insufficient balance, the last two reported with both numbers,
  and a rejected transfer leaves the ledger as it was. This holds in either build.
\<close>

theorem ledger_transfer_rejects:
  "ledger_transfer bp l from to amount n = (l', Ret (Inl e)) \<longleftrightarrow>
     l' = l \<and> transfer_error l from to amount n = Some e"
  by (cases rule: ledger_transfer_cases [of l "from" to amount n bp]) auto

text \<open>
  C26: A valid transfer completes in a release build; in a debug build it completes unless the nonce or
  the recipient's balance would leave the range of a 64-bit word, and then it panics after the
  sender has been debited.
\<close>

theorem ledger_transfer_completes:
  assumes "transfer_error l from to amount n = None"
  shows "snd (ledger_transfer bp l from to amount n) =
      (if bp = Debug \<and> (2 ^ 64 \<le> unat n + 1 \<or> 2 ^ 64 \<le> funds l to + unat amount) then Panic
       else Ret (Inr ())) \<and>
    funds (fst (ledger_transfer bp l from to amount n)) from + unat amount = funds l from"
proof (cases rule: ledger_transfer_cases [of l "from" to amount n bp])
  case (nonce_panic s)
  then show ?thesis
    by (simp add: funds_put_account funds_lookup unat_u64_sub_exact word_le_nat_alt)
next
  case (credit_panic s)
  then show ?thesis using balance_debited [of amount s] by (simp add: funds_put_account funds_lookup)
next
  case (done_ s)
  then show ?thesis
    using balance_debited [of amount s] by (auto simp: funds_put_account funds_lookup)
qed (use assms in auto)

text \<open>
  C27: A transfer that returns conserves the total supply, counted without wrap-around, whenever the
  recipient's new balance fits in 64 bits; it always fits when the total supply does. When it does
  not fit, a release build wraps the recipient's balance and destroys exactly 2 to the 64 units.
\<close>

theorem ledger_transfer_supply:
  assumes "ledger_transfer bp l from to amount n = (l', Ret r)"
  shows "total_supply l' =
      (if r = Inr () \<and> 2 ^ 64 \<le> funds l to + unat amount then total_supply l - 2 ^ 64 else total_supply l) \<and>
    (total_supply l < 2 ^ 64 \<longrightarrow> r = Inr () \<longrightarrow> funds l to + unat amount < 2 ^ 64)"
proof (cases rule: ledger_transfer_cases [of l "from" to amount n bp])
  case (done_ s)
  let ?l1 = "put_account from (debited s amount) l"
  have s1: "total_supply ?l1 + unat amount = total_supply l"
    using put_account_supply [of "from" "debited s amount" l] balance_debited [OF done_(5)]
      funds_lookup [OF done_(2)] by linarith
  have "funds ?l1 to = funds l to" using done_(6) by (simp add: funds_put_account)
  then have s2: "total_supply l' + funds l to = total_supply ?l1 + (funds l to + unat amount) mod 2 ^ 64"
    using put_account_supply [of to "credited l to amount" ?l1] done_ assms
    by (simp add: balance_credited)
  have fit: "funds l to + unat amount \<le> total_supply l"
    using funds_supply2 [OF done_(6), of l] done_(5) funds_lookup [OF done_(2)]
    by (simp add: word_le_nat_alt)
  have "r = Inr ()" using done_ assms by simp
  show ?thesis
  proof (cases "2 ^ 64 \<le> funds l to + unat amount")
    case True
    then have "(funds l to + unat amount) mod 2 ^ 64 = funds l to + unat amount - 2 ^ 64"
      by (rule mod_word_overflow) (simp_all add: funds_bound)
    then show ?thesis using s1 s2 True fit \<open>r = Inr ()\<close> by simp
  next
    case False
    then show ?thesis using s1 s2 fit \<open>r = Inr ()\<close> by simp
  qed
qed (use assms in auto)

text \<open>A ledger for the witnesses: two accounts, the first byte of an address naming it.\<close>

definition example_addr :: "u8 \<Rightarrow> address" where
  "example_addr b = b # replicate 19 0"

definition example_ledger :: ledger where
  "example_ledger = fst (ledger_register (fst (ledger_register ledger_new (example_addr 1) 1000)) (example_addr 2) 500)"

theorem ledger_transfer_effect_witness:
  "let l' = fst (ledger_transfer Release example_ledger (example_addr 1) (example_addr 2) 300 0) in
   funds l' (example_addr 1) + unat (300 :: u64) = funds example_ledger (example_addr 1) \<and>
   ledger_balance l' (example_addr 2) = Some (of_nat (funds example_ledger (example_addr 2)) + 300)"
proof -
  have "ledger_transfer Release example_ledger (example_addr 1) (example_addr 2) 300 0 =
    (fst (ledger_transfer Release example_ledger (example_addr 1) (example_addr 2) 300 0), Ret (Inr ()))"
    by (simp add: example_ledger_def example_addr_def ledger_register_def ledger_new_def
        account_new_def ledger_transfer_def rust_defs entry_add_def)
  from ledger_transfer_effect [OF this] show ?thesis by (simp add: Let_def)
qed

theorem ledger_transfer_completes_witness:
  "snd (ledger_transfer Debug example_ledger (example_addr 1) (example_addr 2) 300 0) = Ret (Inr ())"
proof -
  have "transfer_error example_ledger (example_addr 1) (example_addr 2) 300 0 = None"
    by (simp add: transfer_error_def example_ledger_def example_addr_def ledger_register_def ledger_new_def
        account_new_def ledger_nonce_def ledger_balance_def)
  moreover have "funds example_ledger (example_addr 2) = 500"
    by (simp add: example_ledger_def example_addr_def ledger_register_def ledger_new_def
        account_new_def funds_def ledger_balance_def)
  ultimately show ?thesis using ledger_transfer_completes [of example_ledger _ _ 300 0 Debug] by simp
qed

theorem ledger_transfer_supply_witness:
  "total_supply (fst (ledger_transfer Release example_ledger (example_addr 1) (example_addr 2) 300 0)) = 1500"
proof -
  have run: "ledger_transfer Release example_ledger (example_addr 1) (example_addr 2) 300 0 =
    (fst (ledger_transfer Release example_ledger (example_addr 1) (example_addr 2) 300 0), Ret (Inr ()))"
    by (simp add: example_ledger_def example_addr_def ledger_register_def ledger_new_def
        account_new_def ledger_transfer_def rust_defs entry_add_def)
  have "total_supply example_ledger = 1500" and "funds example_ledger (example_addr 2) = 500"
    by (simp_all add: example_ledger_def example_addr_def ledger_register_def ledger_new_def
        account_new_def total_supply_def entry_total_def funds_def ledger_balance_def)
  with ledger_transfer_supply [OF run] show ?thesis by simp
qed

text \<open>
  The representation invariant (one entry per address, every address 20 bytes) holds of the new
  ledger and is kept by registration, credit and transfer on every branch, panics included.
\<close>

theorem ledger_wf_preserved:
  assumes "ledger_wf l" "length a = ADDRESS_LEN" "length b = ADDRESS_LEN"
  shows "ledger_wf ledger_new \<and> ledger_wf (fst (ledger_register l a amount)) \<and>
    ledger_wf (fst (ledger_credit bp l a amount)) \<and> ledger_wf (fst (ledger_transfer bp l a b amount n))"
proof -
  have "ledger_wf ledger_new" by (simp add: ledger_wf_def ledger_new_def map_wf_def)
  moreover have "ledger_wf (fst (ledger_register l a amount))"
    using put_account_wf [OF assms(1,2)] assms(1)
    by (auto simp: ledger_register_def put_account_def split: option.split)
  moreover have "ledger_wf (fst (ledger_credit bp l a amount))"
    using assms by (simp add: ledger_credit_eq put_account_wf)
  moreover have "ledger_wf (fst (ledger_transfer bp l a b amount n))"
    using assms by (cases rule: ledger_transfer_cases [of l a b amount n bp]) (auto simp: put_account_wf)
  ultimately show ?thesis by blast
qed

lemma example_addr_length: "length (example_addr b) = ADDRESS_LEN"
  by (simp add: example_addr_def ADDRESS_LEN_def)

lemma example_ledger_wf: "ledger_wf example_ledger"
  by (simp add: ledger_wf_def map_wf_def example_ledger_def example_addr_def ledger_register_def
      ledger_new_def ADDRESS_LEN_def)

theorem ledger_wf_preserved_witness:
  "ledger_wf (fst (ledger_transfer Debug example_ledger (example_addr 1) (example_addr 2) 300 0))"
  using ledger_wf_preserved [OF example_ledger_wf example_addr_length example_addr_length] by blast

text \<open>
  Registering an address makes it known with the given balance and nonce zero if it was unknown and
  answers true; a second registration answers false and changes nothing, whatever its balance.
\<close>

theorem ledger_register_spec:
  "ledger_register l a b =
     (if ledger_balance l a = None then (put_account a (account_new b) l, True) else (l, False)) \<and>
   (ledger_balance l a = None \<longrightarrow>
      ledger_balance (fst (ledger_register l a b)) a = Some b \<and>
      ledger_nonce (fst (ledger_register l a b)) a = Some 0) \<and>
   ledger_register (fst (ledger_register l a b)) a c = (fst (ledger_register l a b), False)"
  by (auto simp: ledger_register_def ledger_balance_def ledger_nonce_def put_account_def account_new_def
      hmap.lookup_put split: option.split)

theorem ledger_register_spec_witness:
  "ledger_balance (fst (ledger_register ledger_new (example_addr 1) 1000)) (example_addr 1) = Some 1000"
proof -
  have "ledger_balance ledger_new (example_addr 1) = None" by (simp add: ledger_balance_def ledger_new_def)
  then show ?thesis using ledger_register_spec [of ledger_new "example_addr 1" 1000] by blast
qed

text \<open>
  Crediting an address adds the amount to its balance, creating the account with nonce zero if it
  was unknown, and touches nothing else. When the sum leaves 64 bits a debug build panics with the
  ledger unchanged and a release build keeps the sum modulo 2 to the 64.
\<close>

theorem ledger_credit_spec:
  "ledger_credit bp l a amount =
     (if bp = Debug \<and> 2 ^ 64 \<le> funds l a + unat amount then (l, Panic)
      else (fst (ledger_credit Release l a amount), Ret ())) \<and>
   funds (fst (ledger_credit Release l a amount)) a = (funds l a + unat amount) mod 2 ^ 64 \<and>
   ledger_nonce (fst (ledger_credit Release l a amount)) a =
     Some (case ledger_nonce l a of None \<Rightarrow> 0 | Some k \<Rightarrow> k) \<and>
   (\<forall>b. b = a \<or> map_of (accounts (fst (ledger_credit Release l a amount))) b = map_of (accounts l) b)"
proof -
  have "funds (fst (ledger_credit Release l a amount)) a = (funds l a + unat amount) mod 2 ^ 64"
    by (simp add: ledger_credit_eq funds_put_account balance_credited)
  moreover have "ledger_nonce (fst (ledger_credit Release l a amount)) a =
     Some (case ledger_nonce l a of None \<Rightarrow> 0 | Some k \<Rightarrow> k)"
    by (simp add: ledger_credit_eq ledger_nonce_def credited_def split: option.split)
  ultimately show ?thesis by (simp add: ledger_credit_eq)
qed

section \<open>Snapshot\<close>

lemma fold_update_lookup:
  assumes "distinct (map fst xs)" "inj_on f (insert a (fst ` set xs))"
  shows "map_of (fold (\<lambda>(k, v) m. AList.update (f k) v m) xs m) (f a) =
    (if a \<in> fst ` set xs then map_of xs a else map_of m (f a))"
  using assms
proof (induction xs arbitrary: m)
  case (Cons x xs)
  obtain k v where x: "x = (k, v)" by (cases x)
  have "inj_on f (insert a (fst ` set xs))" using Cons.prems(2) by (rule inj_on_subset) auto
  moreover have "f a = f k \<longleftrightarrow> a = k" using Cons.prems(2) x by (auto dest: inj_onD)
  ultimately show ?case
    using Cons.IH [of "AList.update (f k) v m"] Cons.prems(1) x by (auto simp: hmap.lookup_put)
qed simp

lemma fold_update_keys:
  "fst ` set (fold (\<lambda>(k, v) m. AList.update (f k) v m) xs m) = f ` fst ` set xs \<union> fst ` set m"
proof (induction xs arbitrary: m)
  case (Cons x xs)
  then show ?case by (cases x) (simp add: alist_update_keys image_Un Un_insert_right)
qed simp

lemma fold_update_wf: "map_wf m \<Longrightarrow> map_wf (fold (\<lambda>(k, v) m. AList.update (f k) v m) xs m)"
  by (induction xs arbitrary: m) (auto simp: hmap.wf_put)

lemma snapshot_key_inj: "hex_ok L \<Longrightarrow> inj_on (\<lambda>k. ''0x'' @ hex_encode L k) A"
  using hex_encode_inj by (auto intro: inj_onI)

lemma snapshot_wf: "map_wf (ledger_snapshot L l)"
  unfolding ledger_snapshot_def by (rule fold_update_wf) (simp add: map_wf_def)

lemma snapshot_lookup:
  assumes "hex_ok L" "ledger_wf l"
  shows "map_of (ledger_snapshot L l) (''0x'' @ hex_encode L a) = map_of (accounts l) a"
proof -
  have dist: "distinct (map fst (accounts l))" using assms(2) by (simp add: ledger_wf_def map_wf_def)
  show ?thesis
    unfolding ledger_snapshot_def using fold_update_lookup [OF dist snapshot_key_inj [OF assms(1)], of "[]" a]
    by (cases "map_of (accounts l) a") (auto simp: map_of_eq_None_iff [symmetric] split: if_splits)
qed

lemma snapshot_keys: "fst ` set (ledger_snapshot L l) = (\<lambda>k. ''0x'' @ hex_encode L k) ` fst ` set (accounts l)"
  unfolding ledger_snapshot_def by (simp only: fold_update_keys) simp

lemma snapshot_length:
  assumes "hex_ok L" "ledger_wf l"
  shows "length (ledger_snapshot L l) = length (accounts l)"
proof -
  have "card (set (map fst (ledger_snapshot L l))) = card (set (map fst (accounts l)))"
    using card_image [OF snapshot_key_inj [OF assms(1)]] by (simp only: set_map snapshot_keys)
  then show ?thesis
    using snapshot_wf [of L l] assms(2) by (simp add: ledger_wf_def map_wf_def distinct_card del: set_map)
qed

text \<open>
  The snapshot has one entry per account, under the textual address, with the account's balance and
  nonce: looking up the text of any address gives what the ledger holds for that address.
\<close>

theorem ledger_snapshot_spec:
  assumes "hex_ok L" "ledger_wf l"
  shows "map_of (ledger_snapshot L l) (''0x'' @ hex_encode L a) = map_of (accounts l) a \<and>
    length (ledger_snapshot L l) = length (accounts l) \<and> map_wf (ledger_snapshot L l)"
  using snapshot_lookup [OF assms] snapshot_length [OF assms] snapshot_wf by blast

theorem ledger_snapshot_spec_witness:
  "length (ledger_snapshot ref_crates example_ledger) = 2"
proof -
  have "length (accounts example_ledger) = 2"
    by (simp add: example_ledger_def example_addr_def ledger_register_def ledger_new_def)
  then show ?thesis using ledger_snapshot_spec [OF ref_laws(1) example_ledger_wf] by simp
qed

end
