(* ===== verification/Node.thy ===== *)
theory Node
  imports Network Ledger
begin

text \<open>
  The node (\<^verbatim>\<open>src/zyphra/src/main.rs\<close>): command line record, start-up, the handler of interactive commands,
  the handler of behaviour events and the event loop. A node is a record of the variables that
  \<open>main\<close> owns, with the list of everything it has done to the outside, oldest first: calls into
  the swarm and lines printed. Log messages are left out. What the swarm answers may depend on
  that list and is a parameter (\<open>swarm\<close>); so are the random bytes and the clock. A handler
  returns the new node beside \<open>Ret ()\<close>, or \<open>Panic\<close> when the arithmetic of the ledger panics.
\<close>

section \<open>Data\<close>

record cli =
  cli_listen :: multiaddr
  cli_peer :: "multiaddr list"
  cli_balance :: u64
  cli_secret_key :: "string option"

text \<open>The values of the options when none is given.\<close>

definition cli_default :: cli where
  "cli_default = \<lparr>cli_listen = ''/ip4/0.0.0.0/tcp/0'', cli_peer = [], cli_balance = 1000, cli_secret_key = None\<rparr>"

datatype effect =
    Println string
  | SendRequest peer_id transfer_request
  | Publish string bytes
  | SendResponse channel transfer_response
  | KadAddAddress peer_id multiaddr
  | KadBootstrap
  | AddExplicitPeer peer_id
  | RemoveExplicitPeer peer_id
  | ListenOn multiaddr
  | Dial multiaddr

text \<open>Set of transaction hashes already processed.\<close>

type_synonym tx_cache = "string set"

text \<open>
  \<open>n_peers\<close> is the \<open>HashSet\<close> of connected peers, in the (unspecified) order an iteration yields them;
  no statement below depends on that order.
\<close>

record node =
  n_wallet :: wallet
  n_ledger :: ledger
  n_cache :: tx_cache
  n_peers :: "peer_id list"
  n_stdin_open :: bool
  n_effects :: "effect list"

record swarm =
  swarm_publish :: "effect list \<Rightarrow> string \<Rightarrow> bytes \<Rightarrow> unit result"
  swarm_connected :: "effect list \<Rightarrow> peer_id list"
  swarm_listeners :: "effect list \<Rightarrow> multiaddr list"
  swarm_local_peer :: peer_id

definition emit :: "effect \<Rightarrow> node \<Rightarrow> node" where
  "emit e nd = nd\<lparr>n_effects := n_effects nd @ [e]\<rparr>"

definition println :: "string \<Rightarrow> node \<Rightarrow> node" where
  "println s nd = emit (Println s) nd"

definition cache_tx :: "string \<Rightarrow> node \<Rightarrow> node" where
  "cache_tx h nd = nd\<lparr>n_cache := insert h (n_cache nd)\<rparr>"

text \<open>The printed symbols as UTF-8: check mark, cross, warning sign, money bag, dash, line feed, quote.\<close>

abbreviation check_mark :: string where "check_mark \<equiv> [CHR 0xE2, CHR 0x9C, CHR 0x93]"
abbreviation cross_mark :: string where "cross_mark \<equiv> [CHR 0xE2, CHR 0x9C, CHR 0x97]"
abbreviation warn_sign :: string where "warn_sign \<equiv> [CHR 0xE2, CHR 0x9A, CHR 0xA0]"
abbreviation money_bag :: string where "money_bag \<equiv> [CHR 0xF0, CHR 0x9F, CHR 0x92, CHR 0xB0]"
abbreviation em_dash :: string where "em_dash \<equiv> [CHR 0xE2, CHR 0x80, CHR 0x94]"
abbreviation line_feed :: string where "line_feed \<equiv> [CHR 0x0A]"
abbreviation quote_mark :: string where "quote_mark \<equiv> [CHR 0x27]"

section \<open>Commands\<close>

text \<open>The loop over the connected peers; the flag is \<open>delivered\<close>.\<close>

fun send_direct :: "bytes \<Rightarrow> peer_id list \<Rightarrow> node \<Rightarrow> bool \<Rightarrow> node \<times> bool" where
  "send_direct rlp [] nd delivered = (nd, delivered)"
| "send_direct rlp (pid # pids) nd delivered =
     send_direct rlp pids (emit (SendRequest pid \<lparr>tx_rlp = rlp\<rparr>) nd) True"

text \<open>The part of \<open>send\<close> after the ledger has accepted the transfer.\<close>

definition broadcast_tx :: "crates \<Rightarrow> swarm \<Rightarrow> signed_transaction \<Rightarrow> address \<Rightarrow> u64 \<Rightarrow> node \<Rightarrow> node" where
  "broadcast_tx L W tx to_addr amount nd =
     (let h = tx_hash L tx;
          nd1 = cache_tx h nd;
          rlp = to_rlp_bytes L tx
      in case send_direct rlp (n_peers nd1) nd1 False of
           (nd2, sent) \<Rightarrow>
             (let published = swarm_publish W (n_effects nd2) TX_TOPIC rlp;
                  nd3 = emit (Publish TX_TOPIC rlp) nd2;
                  delivered = (case published of Inr _ \<Rightarrow> True | Inl _ \<Rightarrow> sent)
              in if delivered
                 then println (check_mark @ '' Sent '' @ show_u64 amount @ '' to 0x'' @
                        hex_encode L to_addr @ '' (tx: '' @ h @ '')'') nd3
                 else println ''  Connect to a peer and try again.''
                        (println (warn_sign @ '' No peers connected. Transaction saved locally.'') nd3)))"

definition cmd_send :: "crates \<Rightarrow> build \<Rightarrow> swarm \<Rightarrow> u64 \<Rightarrow> string list \<Rightarrow> node \<Rightarrow> node \<times> unit run" where
  "cmd_send L bp W now parts nd =
     (if length parts \<noteq> 3 then (println ''Usage: send <address_hex> <amount>'' nd, Ret ())
      else
        (case address_from_hex L (parts ! 1) of
           Inl e \<Rightarrow> (println (''Invalid address: '' @ e) nd, Ret ())
         | Inr to_addr \<Rightarrow>
             (case parse_u64 (parts ! 2) of
                None \<Rightarrow> (println ''Invalid amount'' nd, Ret ())
              | Some amount \<Rightarrow>
                  (let w = n_wallet nd;
                       n = (case ledger_nonce (n_ledger nd) (wallet_address w) of None \<Rightarrow> 0 | Some k \<Rightarrow> k);
                       tx = tx_create L now w to_addr amount n
                   in case tx_verify L tx of
                        Inl e \<Rightarrow> (nd, Ret ())
                      | Inr _ \<Rightarrow>
                          (case ledger_transfer bp (n_ledger nd) (wallet_address w) to_addr amount n of
                             (l, Panic) \<Rightarrow> (nd\<lparr>n_ledger := l\<rparr>, Panic)
                           | (l, Ret (Inl e)) \<Rightarrow>
                               (println (''Transfer rejected by ledger: '' @ ledger_error_display L e)
                                  (nd\<lparr>n_ledger := l\<rparr>), Ret ())
                           | (l, Ret (Inr _)) \<Rightarrow>
                               (broadcast_tx L W tx to_addr amount (nd\<lparr>n_ledger := l\<rparr>), Ret ()))))))"

definition cmd_balance :: "crates \<Rightarrow> node \<Rightarrow> node" where
  "cmd_balance L nd =
     (let a = wallet_address (n_wallet nd);
          bal = (case ledger_balance (n_ledger nd) a of None \<Rightarrow> 0 | Some b \<Rightarrow> b);
          n = (case ledger_nonce (n_ledger nd) a of None \<Rightarrow> 0 | Some k \<Rightarrow> k)
      in println (''Address: '' @ address_hex L (n_wallet nd) @ line_feed @ ''Balance: '' @ show_u64 bal @
            line_feed @ ''Nonce  : '' @ show_u64 n) nd)"

definition cmd_peers :: "swarm \<Rightarrow> node \<Rightarrow> node" where
  "cmd_peers W nd =
     (let peers = swarm_connected W (n_effects nd)
      in fold (\<lambda>p. println (''  '' @ p)) peers
           (println (''Connected peers ('' @ show_nat (length peers) @ ''):'') nd))"

definition cmd_info :: "crates \<Rightarrow> swarm \<Rightarrow> node \<Rightarrow> node" where
  "cmd_info L W nd =
     (let listeners = swarm_listeners W (n_effects nd);
          nd1 = println (''Peer ID : '' @ swarm_local_peer W) nd;
          nd2 = println (''Wallet  : '' @ address_hex L (n_wallet nd)) nd1;
          nd3 = println ''Listeners:'' nd2
      in fold (\<lambda>l. println (''  '' @ l)) listeners nd3)"

definition cmd_ledger :: "crates \<Rightarrow> node \<Rightarrow> node" where
  "cmd_ledger L nd =
     (let snapshot = ledger_snapshot L (n_ledger nd)
      in fold (\<lambda>(a, s). println (''  '' @ a @ '': balance='' @ show_u64 (balance s) @ '', nonce='' @ show_u64 (nonce s)))
           snapshot (println (''Ledger ('' @ show_nat (length snapshot) @ '' accounts):'') nd))"

definition cmd_help :: "node \<Rightarrow> node" where
  "cmd_help nd =
     fold println
       [''Commands:'',
        ''  send <address_hex> <amount>  '' @ em_dash @ '' transfer funds'',
        ''  balance                      '' @ em_dash @ '' show local balance'',
        ''  peers                        '' @ em_dash @ '' list connected peers'',
        ''  info                         '' @ em_dash @ '' show node info'',
        ''  ledger                       '' @ em_dash @ '' dump all known accounts''] nd"

definition handle_command :: "crates \<Rightarrow> build \<Rightarrow> swarm \<Rightarrow> u64 \<Rightarrow> string \<Rightarrow> node \<Rightarrow> node \<times> unit run" where
  "handle_command L bp W now line nd =
     (let parts = split_whitespace (str_trim line) in
      case parts of
        [] \<Rightarrow> (nd, Ret ())
      | cmd # _ \<Rightarrow>
          if cmd \<in> {''send'', ''transfer''} then cmd_send L bp W now parts nd
          else if cmd \<in> {''balance'', ''bal''} then (cmd_balance L nd, Ret ())
          else if cmd = ''peers'' then (cmd_peers W nd, Ret ())
          else if cmd = ''info'' then (cmd_info L W nd, Ret ())
          else if cmd \<in> {''ledger'', ''accounts''} then (cmd_ledger L nd, Ret ())
          else if cmd \<in> {''help'', ''?''} then (cmd_help nd, Ret ())
          else (println (''Unknown command: '' @ quote_mark @ cmd @ quote_mark @
                  ''. Type '' @ quote_mark @ ''help'' @ quote_mark @ '' for usage.'') nd, Ret ()))"

section \<open>Behaviour events\<close>

text \<open>The text both receiving handlers print, after their own first words.\<close>

definition received_text :: "crates \<Rightarrow> string \<Rightarrow> signed_transaction \<Rightarrow> string" where
  "received_text L what tx =
     line_feed @ money_bag @ '' '' @ what @ '': '' @ show_u64 (tx_amount tx) @ '' from 0x'' @
     hex_encode L (tx_from tx) @ line_feed @ ''   Tx: '' @ tx_hash L tx"

definition on_gossip :: "crates \<Rightarrow> build \<Rightarrow> bytes \<Rightarrow> node \<Rightarrow> node \<times> unit run" where
  "on_gossip L bp data nd =
     (case from_rlp_bytes L data of
        Inl e \<Rightarrow> (nd, Ret ())
      | Inr tx \<Rightarrow>
          (let h = tx_hash L tx in
           if h \<in> n_cache nd then (nd, Ret ())
           else
             (case tx_verify L tx of
                Inl e \<Rightarrow> (nd, Ret ())
              | Inr _ \<Rightarrow>
                  if tx_to tx = wallet_address (n_wallet nd)
                  then
                    (case ledger_credit bp (n_ledger nd) (tx_to tx) (tx_amount tx) of
                       (l, Panic) \<Rightarrow> (nd\<lparr>n_ledger := l\<rparr>, Panic)
                     | (l, Ret _) \<Rightarrow>
                         (cache_tx h (println (received_text L ''Incoming transfer'' tx) (nd\<lparr>n_ledger := l\<rparr>)),
                          Ret ()))
                  else (cache_tx h nd, Ret ()))))"

text \<open>The \<open>match\<close> that computes the response; there is no response when the credit panics.\<close>

definition transfer_request_response ::
    "crates \<Rightarrow> build \<Rightarrow> transfer_request \<Rightarrow> node \<Rightarrow> node \<times> transfer_response run" where
  "transfer_request_response L bp request nd =
     (case from_rlp_bytes L (tx_rlp request) of
        Inl e \<Rightarrow>
          (nd, Ret \<lparr>accepted = False, reason = ''RLP decode error: '' @ e, resp_tx_hash = []\<rparr>)
      | Inr tx \<Rightarrow>
          (let h = tx_hash L tx in
           case tx_verify L tx of
             Inl e \<Rightarrow>
               (nd, Ret \<lparr>accepted = False, reason = ''Verification failed: '' @ e, resp_tx_hash = h\<rparr>)
           | Inr _ \<Rightarrow>
               if tx_to tx \<noteq> wallet_address (n_wallet nd)
               then (nd, Ret \<lparr>accepted = False, reason = ''Transaction not addressed to this node'',
                              resp_tx_hash = h\<rparr>)
               else
                 (case ledger_credit bp (n_ledger nd) (tx_to tx) (tx_amount tx) of
                    (l, Panic) \<Rightarrow> (nd\<lparr>n_ledger := l\<rparr>, Panic)
                  | (l, Ret _) \<Rightarrow>
                      (println (received_text L ''Direct transfer received'' tx)
                         (cache_tx h (nd\<lparr>n_ledger := l\<rparr>)),
                       Ret \<lparr>accepted = True, reason = [], resp_tx_hash = h\<rparr>))))"

definition on_transfer_request ::
    "crates \<Rightarrow> build \<Rightarrow> transfer_request \<Rightarrow> channel \<Rightarrow> node \<Rightarrow> node \<times> unit run" where
  "on_transfer_request L bp request ch nd =
     (case transfer_request_response L bp request nd of
        (nd1, Panic) \<Rightarrow> (nd1, Panic)
      | (nd1, Ret response) \<Rightarrow> (emit (SendResponse ch response) nd1, Ret ()))"

definition on_transfer_response :: "transfer_response \<Rightarrow> node \<Rightarrow> node" where
  "on_transfer_response response nd =
     (if accepted response
      then println (check_mark @ '' Transfer confirmed by peer (tx: '' @ resp_tx_hash response @ '')'') nd
      else println (cross_mark @ '' Transfer rejected: '' @ reason response @
                    '' (tx: '' @ resp_tx_hash response @ '')'') nd)"

definition on_identify :: "peer_id \<Rightarrow> multiaddr list \<Rightarrow> node \<Rightarrow> node" where
  "on_identify pid listen_addrs nd =
     emit (AddExplicitPeer pid) (fold (\<lambda>addr. emit (KadAddAddress pid addr)) listen_addrs nd)"

definition on_mdns_discovered :: "(peer_id \<times> multiaddr) list \<Rightarrow> node \<Rightarrow> node" where
  "on_mdns_discovered peers nd =
     fold (\<lambda>(pid, addr) nd. emit (KadAddAddress pid addr) (emit (AddExplicitPeer pid) nd)) peers nd"

fun handle_behaviour_event :: "crates \<Rightarrow> build \<Rightarrow> node_event \<Rightarrow> node \<Rightarrow> node \<times> unit run" where
  "handle_behaviour_event L bp (Gossipsub (GossipMessage src mid data)) nd = on_gossip L bp data nd"
| "handle_behaviour_event L bp (Transfer (RequestMessage peer request ch)) nd =
     on_transfer_request L bp request ch nd"
| "handle_behaviour_event L bp (Transfer (ResponseMessage peer response)) nd =
     (on_transfer_response response nd, Ret ())"
| "handle_behaviour_event L bp (Identify (IdentifyReceived pid agent listen_addrs)) nd =
     (on_identify pid listen_addrs nd, Ret ())"
| "handle_behaviour_event L bp (Mdns (Discovered peers)) nd = (on_mdns_discovered peers nd, Ret ())"
| "handle_behaviour_event L bp (Mdns (Expired peers)) nd = (nd, Ret ())"
| "handle_behaviour_event L bp (Kademlia (RoutingUpdated peer addresses)) nd = (nd, Ret ())"
| "handle_behaviour_event L bp (Kademlia OtherKad) nd = (nd, Ret ())"
| "handle_behaviour_event L bp (Gossipsub OtherGossip) nd = (nd, Ret ())"
| "handle_behaviour_event L bp (Transfer OtherTransfer) nd = (nd, Ret ())"
| "handle_behaviour_event L bp (Identify OtherIdentify) nd = (nd, Ret ())"

section \<open>Frames\<close>

lemma emit_sel [simp]:
  "n_wallet (emit e nd) = n_wallet nd" "n_ledger (emit e nd) = n_ledger nd"
  "n_cache (emit e nd) = n_cache nd" "n_peers (emit e nd) = n_peers nd"
  "n_stdin_open (emit e nd) = n_stdin_open nd" "n_effects (emit e nd) = n_effects nd @ [e]"
  by (simp_all add: emit_def)

lemma cache_tx_sel [simp]:
  "n_wallet (cache_tx h nd) = n_wallet nd" "n_ledger (cache_tx h nd) = n_ledger nd"
  "n_cache (cache_tx h nd) = insert h (n_cache nd)" "n_peers (cache_tx h nd) = n_peers nd"
  "n_stdin_open (cache_tx h nd) = n_stdin_open nd" "n_effects (cache_tx h nd) = n_effects nd"
  by (simp_all add: cache_tx_def)

lemma println_sel [simp]:
  "n_wallet (println s nd) = n_wallet nd" "n_ledger (println s nd) = n_ledger nd"
  "n_cache (println s nd) = n_cache nd" "n_peers (println s nd) = n_peers nd"
  "n_stdin_open (println s nd) = n_stdin_open nd" "n_effects (println s nd) = n_effects nd @ [Println s]"
  by (simp_all add: println_def)

text \<open>A node with more effects behind it and nothing else changed.\<close>

definition emits :: "effect list \<Rightarrow> node \<Rightarrow> node" where
  "emits es nd = nd\<lparr>n_effects := n_effects nd @ es\<rparr>"

lemma emits_sel [simp]:
  "n_wallet (emits es nd) = n_wallet nd" "n_ledger (emits es nd) = n_ledger nd"
  "n_cache (emits es nd) = n_cache nd" "n_peers (emits es nd) = n_peers nd"
  "n_stdin_open (emits es nd) = n_stdin_open nd" "n_effects (emits es nd) = n_effects nd @ es"
  by (simp_all add: emits_def)

lemma emit_emits: "emit e = emits [e]" "println s = emits [Println s]"
  by (simp_all add: fun_eq_iff emits_def emit_def println_def)

lemma emits_emits [simp]: "emits es (emits ds nd) = emits (ds @ es) nd"
  by (simp add: emits_def)

lemma emits_Nil [simp]: "emits [] nd = nd"
  by (simp add: emits_def)

lemma fold_emits: "fold (\<lambda>x. emits (f x)) xs nd = emits (concat (map f xs)) nd"
  by (induction xs arbitrary: nd) simp_all

lemma send_direct_eq:
  "send_direct rlp pids nd d =
     (emits (map (\<lambda>pid. SendRequest pid \<lparr>tx_rlp = rlp\<rparr>) pids) nd, d \<or> pids \<noteq> [])"
  by (induction pids arbitrary: nd d) (simp_all add: emit_emits)

text \<open>What the queries print, and the effects of the discovery events.\<close>

lemma query_emits:
  "\<exists>ss. cmd_balance L nd = emits (map Println ss) nd" "\<exists>ss. cmd_peers W nd = emits (map Println ss) nd"
  "\<exists>ss. cmd_info L W nd = emits (map Println ss) nd" "\<exists>ss. cmd_ledger L nd = emits (map Println ss) nd"
  "\<exists>ss. cmd_help nd = emits (map Println ss) nd"
proof -
  have prints: "\<exists>ss. fold (\<lambda>x. emits [Println (f x)]) xs (emits (map Println ds) nd) = emits (map Println ss) nd"
    for f :: "'a \<Rightarrow> string" and xs ds
    by (rule exI [of _ "ds @ map f xs"]) (simp add: fold_emits comp_def)
  have one: "emits [Println a] nd = emits (map Println [a]) nd" for a by simp
  show "\<exists>ss. cmd_balance L nd = emits (map Println ss) nd"
    unfolding cmd_balance_def Let_def emit_emits one by blast
  show "\<exists>ss. cmd_peers W nd = emits (map Println ss) nd"
    unfolding cmd_peers_def Let_def emit_emits one by (rule prints)
  have three: "emits [Println c] (emits [Println b] (emits [Println a] nd)) = emits (map Println [a, b, c]) nd"
    for a b c by simp
  show "\<exists>ss. cmd_info L W nd = emits (map Println ss) nd"
    unfolding cmd_info_def Let_def emit_emits three by (rule prints)
  show "\<exists>ss. cmd_ledger L nd = emits (map Println ss) nd"
    unfolding cmd_ledger_def Let_def emit_emits one case_prod_unfold by (rule prints)
  have "fold println xs nd' = emits (map Println xs) nd'" for xs nd'
    by (induction xs arbitrary: nd') (simp_all add: emit_emits)
  then show "\<exists>ss. cmd_help nd = emits (map Println ss) nd"
    unfolding cmd_help_def by blast
qed

end
