(* ===== verification/Node_Spec.thy ===== *)
theory Node_Spec
  imports Node
begin

text \<open>
  What the handlers of the node do. Two views carry the proofs: \<open>payable\<close>, the transaction a message
  pays this node with, if any, and \<open>send_refusal\<close>, the line a \<open>send\<close> command is refused with, if
  any. The equations \<open>on_gossip_eq\<close>, \<open>transfer_request_response_eq\<close> and \<open>cmd_send_eq\<close> describe the three
  handlers that touch the ledger over these views; everything else only prints or instructs the
  swarm. The properties cover the whole exchange (what a send leaves behind, what the recipient
  does with it on either channel), duplicates, and the replies.
\<close>

section \<open>Receiving\<close>

text \<open>The transaction of a message that decodes, verifies and is addressed to the node.\<close>

definition payable :: "crates \<Rightarrow> node \<Rightarrow> bytes \<Rightarrow> signed_transaction option" where
  "payable L nd data =
     (case from_rlp_bytes L data of
        Inl _ \<Rightarrow> None
      | Inr tx \<Rightarrow> if tx_verify L tx = Inr () \<and> tx_to tx = wallet_address (n_wallet nd) then Some tx else None)"

text \<open>The hash of a message that decodes and verifies, whoever it is addressed to.\<close>

definition valid_hash :: "crates \<Rightarrow> bytes \<Rightarrow> string option" where
  "valid_hash L data =
     (case from_rlp_bytes L data of
        Inl _ \<Rightarrow> None
      | Inr tx \<Rightarrow> if tx_verify L tx = Inr () then Some (tx_hash L tx) else None)"

definition own_address :: "node \<Rightarrow> address" where
  "own_address nd = wallet_address (n_wallet nd)"

text \<open>The nonce the next \<open>send\<close> uses.\<close>

definition own_nonce :: "node \<Rightarrow> u64" where
  "own_nonce nd = (case ledger_nonce (n_ledger nd) (own_address nd) of None \<Rightarrow> 0 | Some k \<Rightarrow> k)"

text \<open>The own account after a credit, as the ledger stores it.\<close>

definition credit_own :: "u64 \<Rightarrow> node \<Rightarrow> node" where
  "credit_own amount nd =
     nd\<lparr>n_ledger := put_account (own_address nd) (credited (n_ledger nd) (own_address nd) amount) (n_ledger nd)\<rparr>"

definition credit_overflows :: "build \<Rightarrow> u64 \<Rightarrow> node \<Rightarrow> bool" where
  "credit_overflows bp amount nd \<longleftrightarrow>
     bp = Debug \<and> 2 ^ 64 \<le> funds (n_ledger nd) (own_address nd) + unat amount"

lemma credit_own_sel [simp]:
  "n_wallet (credit_own v nd) = n_wallet nd" "n_cache (credit_own v nd) = n_cache nd"
  "n_peers (credit_own v nd) = n_peers nd" "n_stdin_open (credit_own v nd) = n_stdin_open nd"
  "n_effects (credit_own v nd) = n_effects nd"
  "n_ledger (credit_own v nd) =
     put_account (own_address nd) (credited (n_ledger nd) (own_address nd) v) (n_ledger nd)"
  by (simp_all add: credit_own_def)

lemma own_address_cong [simp]:
  "own_address (emits es nd) = own_address nd" "own_address (cache_tx h nd) = own_address nd"
  "own_address (credit_own v nd) = own_address nd"
  by (simp_all add: own_address_def)

lemma own_nonce_cong [simp]:
  "own_nonce (emits es nd) = own_nonce nd" "own_nonce (cache_tx h nd) = own_nonce nd"
  by (simp_all add: own_nonce_def)

lemma own_nonce_credit [simp]: "own_nonce (credit_own v nd) = own_nonce nd"
  by (simp add: own_nonce_def ledger_nonce_def credited_def split: option.split)

lemma on_gossip_eq:
  "on_gossip L bp data nd =
     (case valid_hash L data of
        None \<Rightarrow> (nd, Ret ())
      | Some h \<Rightarrow>
          if h \<in> n_cache nd then (nd, Ret ())
          else
            (case payable L nd data of
               None \<Rightarrow> (cache_tx h nd, Ret ())
             | Some tx \<Rightarrow>
                 if credit_overflows bp (tx_amount tx) nd then (nd, Panic)
                 else (cache_tx h (emits [Println (received_text L ''Incoming transfer'' tx)]
                         (credit_own (tx_amount tx) nd)), Ret ())))"
  by (auto simp: on_gossip_def valid_hash_def payable_def ledger_credit_eq credit_overflows_def own_address_def
      credit_own_def emit_emits Let_def split: sum.split)

text \<open>What a request is refused with.\<close>

definition request_refusal :: "crates \<Rightarrow> node \<Rightarrow> bytes \<Rightarrow> transfer_response" where
  "request_refusal L nd data =
     (case from_rlp_bytes L data of
        Inl e \<Rightarrow> \<lparr>accepted = False, reason = ''RLP decode error: '' @ e, resp_tx_hash = []\<rparr>
      | Inr tx \<Rightarrow>
          \<lparr>accepted = False,
           reason = (case tx_verify L tx of
                       Inl e \<Rightarrow> ''Verification failed: '' @ e
                     | Inr _ \<Rightarrow> ''Transaction not addressed to this node''),
           resp_tx_hash = tx_hash L tx\<rparr>)"

lemma request_refusal_not_accepted [simp]: "\<not> accepted (request_refusal L nd data)"
  by (simp add: request_refusal_def split: sum.split)

lemma transfer_request_response_eq:
  "transfer_request_response L bp request nd =
     (case payable L nd (tx_rlp request) of
        None \<Rightarrow> (nd, Ret (request_refusal L nd (tx_rlp request)))
      | Some tx \<Rightarrow>
          if credit_overflows bp (tx_amount tx) nd then (nd, Panic)
          else (emits [Println (received_text L ''Direct transfer received'' tx)]
                  (cache_tx (tx_hash L tx) (credit_own (tx_amount tx) nd)),
                Ret \<lparr>accepted = True, reason = [], resp_tx_hash = tx_hash L tx\<rparr>))"
  by (auto simp: transfer_request_response_def payable_def request_refusal_def ledger_credit_eq
      credit_overflows_def own_address_def credit_own_def emit_emits Let_def split: sum.split)

lemma payable_SomeD:
  "payable L nd data = Some tx \<Longrightarrow>
   from_rlp_bytes L data = Inr tx \<and> tx_verify L tx = Inr () \<and> tx_to tx = own_address nd \<and>
   valid_hash L data = Some (tx_hash L tx)"
  by (auto simp: payable_def valid_hash_def own_address_def split: sum.splits if_splits)

lemma payable_cong: "n_wallet nd' = n_wallet nd \<Longrightarrow> payable L nd' = payable L nd"
  by (simp add: payable_def fun_eq_iff split: sum.split)

lemma on_transfer_request_eq:
  "on_transfer_request L bp request ch nd =
     (case payable L nd (tx_rlp request) of
        None \<Rightarrow> (emits [SendResponse ch (request_refusal L nd (tx_rlp request))] nd, Ret ())
      | Some tx \<Rightarrow>
          if credit_overflows bp (tx_amount tx) nd then (nd, Panic)
          else (emits [Println (received_text L ''Direct transfer received'' tx),
                       SendResponse ch \<lparr>accepted = True, reason = [], resp_tx_hash = tx_hash L tx\<rparr>]
                  (cache_tx (tx_hash L tx) (credit_own (tx_amount tx) nd)), Ret ()))"
  by (auto simp: on_transfer_request_def transfer_request_response_eq emit_emits split: option.split)

definition responses :: "effect list \<Rightarrow> (channel \<times> transfer_response) list" where
  "responses es = concat (map (\<lambda>e. case e of SendResponse ch r \<Rightarrow> [(ch, r)] | _ \<Rightarrow> []) es)"

text \<open>
  C18: Every direct request whose handling returns is answered exactly once, on its own channel and as the
  last thing the handler does. The answer accepts exactly when the message decodes, verifies and is addressed to
  this node, and it names the hash of whatever transaction was decoded. With an acceptance the own
  account has grown by the amount (modulo 2 to the 64) and the hash is remembered; with a refusal
  ledger and cache are unchanged. No other account, and no nonce, changes either way.
\<close>

theorem request_answered_once:
  assumes "on_transfer_request L bp request ch nd = (nd', Ret ())"
  shows "\<exists>r. responses (n_effects nd') = responses (n_effects nd) @ [(ch, r)] \<and>
    last (n_effects nd') = SendResponse ch r \<and>
    (accepted r \<longleftrightarrow> payable L nd (tx_rlp request) \<noteq> None) \<and>
    (\<forall>tx. from_rlp_bytes L (tx_rlp request) = Inr tx \<longrightarrow> resp_tx_hash r = tx_hash L tx) \<and>
    (case payable L nd (tx_rlp request) of
       None \<Rightarrow> n_ledger nd' = n_ledger nd \<and> n_cache nd' = n_cache nd
     | Some tx \<Rightarrow>
         funds (n_ledger nd') (own_address nd) =
           (funds (n_ledger nd) (own_address nd) + unat (tx_amount tx)) mod 2 ^ 64 \<and>
         n_cache nd' = insert (tx_hash L tx) (n_cache nd)) \<and>
    (\<forall>a. a \<noteq> own_address nd \<longrightarrow> map_of (accounts (n_ledger nd')) a = map_of (accounts (n_ledger nd)) a) \<and>
    own_nonce nd' = own_nonce nd"
proof (cases "payable L nd (tx_rlp request)")
  case None
  with assms have "nd' = emits [SendResponse ch (request_refusal L nd (tx_rlp request))] nd"
    by (simp add: on_transfer_request_eq)
  with None show ?thesis
    by (intro exI [of _ "request_refusal L nd (tx_rlp request)"])
      (simp add: responses_def request_refusal_def own_nonce_def split: sum.split)
next
  case (Some tx)
  let ?r = "\<lparr>accepted = True, reason = [], resp_tx_hash = tx_hash L tx\<rparr>"
  from Some assms have "nd' = emits [Println (received_text L ''Direct transfer received'' tx), SendResponse ch ?r]
      (cache_tx (tx_hash L tx) (credit_own (tx_amount tx) nd))"
    by (auto simp: on_transfer_request_eq split: if_splits)
  with Some payable_SomeD [OF Some] show ?thesis
    by (intro exI [of _ ?r])
      (simp add: responses_def funds_put_account balance_credited own_nonce_credit)
qed

text \<open>
  Gossip is idempotent: once a message has been handled, handling it again does nothing, and the
  same holds of a message whose transaction was already accepted over the direct channel.
\<close>

theorem gossip_idempotent:
  "(on_gossip L bp data nd = (nd', Ret ()) \<longrightarrow> on_gossip L bp data nd' = (nd', Ret ())) \<and>
   (payable L nd data \<noteq> None \<and> on_transfer_request L bp \<lparr>tx_rlp = data\<rparr> ch nd = (nd', Ret ()) \<longrightarrow>
    on_gossip L bp data nd' = (nd', Ret ()))"
proof (intro conjI impI)
  assume "on_gossip L bp data nd = (nd', Ret ())"
  then show "on_gossip L bp data nd' = (nd', Ret ())"
    by (auto simp: on_gossip_eq [of L bp data] split: option.splits if_splits)
next
  assume *: "payable L nd data \<noteq> None \<and> on_transfer_request L bp \<lparr>tx_rlp = data\<rparr> ch nd = (nd', Ret ())"
  then obtain tx where tx: "payable L nd data = Some tx" by auto
  with * have "tx_hash L tx \<in> n_cache nd'"
    by (auto simp: on_transfer_request_eq split: if_splits)
  with payable_SomeD [OF tx] show "on_gossip L bp data nd' = (nd', Ret ())" by (simp add: on_gossip_eq)
qed

text \<open>One request delivered on several channels in turn.\<close>

fun deliver_requests :: "crates \<Rightarrow> build \<Rightarrow> transfer_request \<Rightarrow> channel list \<Rightarrow> node \<Rightarrow> node \<times> unit run" where
  "deliver_requests L bp req [] nd = (nd, Ret ())"
| "deliver_requests L bp req (ch # chs) nd =
     (case on_transfer_request L bp req ch nd of
        (nd1, Panic) \<Rightarrow> (nd1, Panic)
      | (nd1, Ret _) \<Rightarrow> deliver_requests L bp req chs nd1)"

lemma funds_credit_own:
  "funds (n_ledger (credit_own v nd)) (own_address nd) = (funds (n_ledger nd) (own_address nd) + unat v) mod 2 ^ 64"
  by (simp add: funds_put_account balance_credited)

text \<open>
  C20: Direct requests are not checked against the remembered hashes: in a release build every delivery
  of one and the same payment credits its amount once more, so after any number of deliveries the
  own balance has grown by that multiple of the amount (modulo 2 to the 64), whether or not the
  transaction had been received before.
\<close>

theorem direct_replay_credits_again:
  assumes "payable L nd (tx_rlp req) = Some tx"
  shows "\<exists>nd'. deliver_requests L Release req chs nd = (nd', Ret ()) \<and>
    funds (n_ledger nd') (own_address nd) =
      (funds (n_ledger nd) (own_address nd) + length chs * unat (tx_amount tx)) mod 2 ^ 64"
  using assms
proof (induction chs arbitrary: nd)
  case Nil
  then show ?case using funds_bound [of "n_ledger nd" "own_address nd"] by simp
next
  case (Cons ch chs)
  let ?nd = "fst (on_transfer_request L Release req ch nd)"
  have step: "on_transfer_request L Release req ch nd = (?nd, Ret ())"
    and wallet: "n_wallet ?nd = n_wallet nd" and ledger: "n_ledger ?nd = n_ledger (credit_own (tx_amount tx) nd)"
    using Cons.prems by (simp_all add: on_transfer_request_eq credit_overflows_def)
  have own: "own_address ?nd = own_address nd" and pay: "payable L ?nd (tx_rlp req) = Some tx"
    using Cons.prems payable_cong [OF wallet, of L] wallet by (simp_all add: own_address_def)
  have fnd: "funds (n_ledger ?nd) (own_address nd) =
      (funds (n_ledger nd) (own_address nd) + unat (tx_amount tx)) mod 2 ^ 64"
    unfolding ledger by (rule funds_credit_own)
  from Cons.IH [OF pay] obtain nd' where "deliver_requests L Release req chs ?nd = (nd', Ret ())"
    "funds (n_ledger nd') (own_address nd) =
       ((funds (n_ledger nd) (own_address nd) + unat (tx_amount tx)) mod 2 ^ 64 + length chs * unat (tx_amount tx)) mod 2 ^ 64"
    unfolding own fnd by blast
  moreover have "deliver_requests L Release req (ch # chs) nd = deliver_requests L Release req chs ?nd"
    by (subst deliver_requests.simps, subst step) simp
  ultimately show ?case by (simp only: mod_add_left_eq add.assoc length_Cons mult_Suc) blast
qed

section \<open>Gossip delivered in any order\<close>

fun deliver_gossip :: "crates \<Rightarrow> build \<Rightarrow> bytes list \<Rightarrow> node \<Rightarrow> node \<times> unit run" where
  "deliver_gossip L bp [] nd = (nd, Ret ())"
| "deliver_gossip L bp (d # ds) nd =
     (case on_gossip L bp d nd of
        (nd1, Panic) \<Rightarrow> (nd1, Panic)
      | (nd1, Ret _) \<Rightarrow> deliver_gossip L bp ds nd1)"

definition own_balance :: "node \<Rightarrow> u64" where
  "own_balance nd = (case ledger_balance (n_ledger nd) (own_address nd) of None \<Rightarrow> 0 | Some b \<Rightarrow> b)"

text \<open>The verified transactions among the messages, and those that are new payments to the node.\<close>

definition gossip_txs :: "crates \<Rightarrow> bytes list \<Rightarrow> signed_transaction set" where
  "gossip_txs L ds = {tx. tx_verify L tx = Inr () \<and> (\<exists>d \<in> set ds. from_rlp_bytes L d = Inr tx)}"

definition paid_by :: "crates \<Rightarrow> node \<Rightarrow> bytes list \<Rightarrow> signed_transaction set" where
  "paid_by L nd ds = {tx \<in> gossip_txs L ds. tx_to tx = own_address nd \<and> tx_hash L tx \<notin> n_cache nd}"

lemma gossip_txs_Nil [simp]: "gossip_txs L [] = {}"
  by (simp add: gossip_txs_def)

lemma gossip_txs_Cons:
  "valid_hash L d = None \<Longrightarrow> gossip_txs L (d # ds) = gossip_txs L ds"
  "valid_hash L d = Some h \<Longrightarrow>
     \<exists>tx. from_rlp_bytes L d = Inr tx \<and> h = tx_hash L tx \<and> gossip_txs L (d # ds) = insert tx (gossip_txs L ds)"
  by (auto simp: gossip_txs_def valid_hash_def split: sum.splits if_splits)

lemma finite_paid_by: "finite (paid_by L nd ds)"
proof -
  have "gossip_txs L ds \<subseteq> (\<lambda>d. case from_rlp_bytes L d of Inr tx \<Rightarrow> tx) ` set ds"
    by (force simp: gossip_txs_def)
  then show ?thesis by (auto simp: paid_by_def intro: finite_subset)
qed

lemma own_balance_cong [simp]:
  "own_balance (emits es nd) = own_balance nd" "own_balance (cache_tx h nd) = own_balance nd"
  by (simp_all add: own_balance_def)

lemma own_balance_credit [simp]: "own_balance (credit_own v nd) = own_balance nd + v"
  by (simp add: own_balance_def ledger_balance_def credited_def split: option.split)

lemma on_gossip_Release:
  obtains nd' where "on_gossip L Release d nd = (nd', Ret ())" "own_address nd' = own_address nd"
    "n_cache nd' = n_cache nd \<union> set_option (valid_hash L d)"
    "own_balance nd' = own_balance nd +
       (case payable L nd d of Some tx \<Rightarrow> if tx_hash L tx \<in> n_cache nd then 0 else tx_amount tx | None \<Rightarrow> 0)"
proof (cases "payable L nd d")
  case None
  show thesis
    by (rule that [of "fst (on_gossip L Release d nd)"])
      (simp_all add: on_gossip_eq None insert_absorb split: option.split)
next
  case (Some tx)
  note v = payable_SomeD [OF Some]
  show thesis
    by (rule that [of "fst (on_gossip L Release d nd)"])
      (simp_all add: on_gossip_eq Some v insert_absorb credit_overflows_def)
qed

lemma paid_by_Cons:
  assumes "inj_on (tx_hash L) (gossip_txs L (d # ds))"
    and "own_address nd' = own_address nd" "n_cache nd' = n_cache nd \<union> set_option (valid_hash L d)"
  shows "paid_by L nd (d # ds) =
      (case payable L nd d of Some tx \<Rightarrow> if tx_hash L tx \<in> n_cache nd then {} else {tx} | None \<Rightarrow> {}) \<union> paid_by L nd' ds"
    and "\<And>tx. payable L nd d = Some tx \<Longrightarrow> tx \<notin> paid_by L nd' ds"
proof -
  show "tx \<notin> paid_by L nd' ds" if "payable L nd d = Some tx" for tx
    using payable_SomeD [OF that] assms(3) by (simp add: paid_by_def)
  show "paid_by L nd (d # ds) =
      (case payable L nd d of Some tx \<Rightarrow> if tx_hash L tx \<in> n_cache nd then {} else {tx} | None \<Rightarrow> {}) \<union> paid_by L nd' ds"
  proof (cases "valid_hash L d")
    case None
    then have "payable L nd d = None" using payable_SomeD [of L nd d] by (cases "payable L nd d") auto
    with None assms(2,3) show ?thesis by (simp add: paid_by_def gossip_txs_Cons)
  next
    case (Some h)
    obtain tx where tx: "from_rlp_bytes L d = Inr tx" "h = tx_hash L tx"
        "gossip_txs L (d # ds) = insert tx (gossip_txs L ds)"
      using gossip_txs_Cons(2) [OF Some] by blast
    have same: "tx' = tx" if "tx' \<in> gossip_txs L ds" "tx_hash L tx' = h" for tx'
      using assms(1) that tx by (auto simp: inj_on_def)
    have pay: "payable L nd d = (if tx_to tx = own_address nd then Some tx else None)"
      using Some tx by (auto simp: payable_def valid_hash_def own_address_def split: if_splits)
    show ?thesis
      unfolding pay using same tx assms(2,3) Some by (auto simp: paid_by_def)
  qed
qed

text \<open>
  C6: Gossip converges: however the network orders, repeats or interleaves a collection of messages with
  pairwise distinct transaction hashes, a release build handles all of them, the own balance ends
  up with the sum of the amounts of the distinct verified payments to this node not received
  before (in 64-bit arithmetic), each counted once, and the cache with the hashes of all verified transactions. Garbage,
  forgeries and payments to others contribute nothing to the balance.
\<close>

theorem gossip_converges:
  assumes "inj_on (tx_hash L) (gossip_txs L ds)"
  shows "\<exists>nd'. deliver_gossip L Release ds nd = (nd', Ret ()) \<and>
    own_balance nd' = own_balance nd + (\<Sum>tx \<in> paid_by L nd ds. tx_amount tx) \<and>
    n_cache nd' = n_cache nd \<union> tx_hash L ` gossip_txs L ds"
  using assms
proof (induction ds arbitrary: nd)
  case Nil
  then show ?case by (simp add: paid_by_def)
next
  case (Cons d ds)
  obtain nd1 where nd1: "on_gossip L Release d nd = (nd1, Ret ())" "own_address nd1 = own_address nd"
    "n_cache nd1 = n_cache nd \<union> set_option (valid_hash L d)"
    "own_balance nd1 = own_balance nd +
       (case payable L nd d of Some tx \<Rightarrow> if tx_hash L tx \<in> n_cache nd then 0 else tx_amount tx | None \<Rightarrow> 0)"
    by (rule on_gossip_Release)
  have sub: "gossip_txs L ds \<subseteq> gossip_txs L (d # ds)" by (auto simp: gossip_txs_def)
  obtain nd' where nd': "deliver_gossip L Release ds nd1 = (nd', Ret ())"
    "own_balance nd' = own_balance nd1 + (\<Sum>tx \<in> paid_by L nd1 ds. tx_amount tx)"
    "n_cache nd' = n_cache nd1 \<union> tx_hash L ` gossip_txs L ds"
    using Cons.IH [OF inj_on_subset [OF Cons.prems sub]] by blast
  have "own_balance nd' = own_balance nd + (\<Sum>tx \<in> paid_by L nd (d # ds). tx_amount tx)"
    using nd1(4) nd'(2) paid_by_Cons [OF Cons.prems nd1(2,3)] finite_paid_by [of L nd1 ds]
    by (cases "payable L nd d") simp_all
  moreover have "n_cache nd' = n_cache nd \<union> tx_hash L ` gossip_txs L (d # ds)"
  proof (cases "valid_hash L d")
    case (Some h)
    then show ?thesis using nd1(3) nd'(3) gossip_txs_Cons(2) [OF Some, of ds] by auto
  qed (use nd1(3) nd'(3) gossip_txs_Cons(1) [of L d ds] in simp)
  ultimately show ?case using nd1(1) nd'(1) by simp
qed

section \<open>Sending\<close>

text \<open>The line a \<open>send\<close> command is refused with, in the order of the checks.\<close>

definition send_refusal :: "crates \<Rightarrow> node \<Rightarrow> string list \<Rightarrow> string option" where
  "send_refusal L nd parts =
     (if length parts \<noteq> 3 then Some ''Usage: send <address_hex> <amount>''
      else
        (case address_from_hex L (parts ! 1) of
           Inl e \<Rightarrow> Some (''Invalid address: '' @ e)
         | Inr to \<Rightarrow>
             (case parse_u64 (parts ! 2) of
                None \<Rightarrow> Some ''Invalid amount''
              | Some amount \<Rightarrow>
                  map_option (\<lambda>e. ''Transfer rejected by ledger: '' @ ledger_error_display L e)
                    (transfer_error (n_ledger nd) (own_address nd) to amount (own_nonce nd)))))"

text \<open>The transaction a \<open>send\<close> command creates, and what it does with an accepted one.\<close>

definition sent_tx :: "crates \<Rightarrow> u64 \<Rightarrow> node \<Rightarrow> address \<Rightarrow> u64 \<Rightarrow> signed_transaction" where
  "sent_tx L now nd to amount = tx_create L now (n_wallet nd) to amount (own_nonce nd)"

definition direct_requests :: "crates \<Rightarrow> node \<Rightarrow> signed_transaction \<Rightarrow> effect list" where
  "direct_requests L nd tx = map (\<lambda>pid. SendRequest pid \<lparr>tx_rlp = to_rlp_bytes L tx\<rparr>) (n_peers nd)"

definition publish_ok :: "crates \<Rightarrow> swarm \<Rightarrow> node \<Rightarrow> signed_transaction \<Rightarrow> bool" where
  "publish_ok L W nd tx \<longleftrightarrow>
     swarm_publish W (n_effects nd @ direct_requests L nd tx) TX_TOPIC (to_rlp_bytes L tx) = Inr ()"

definition send_report :: "crates \<Rightarrow> swarm \<Rightarrow> node \<Rightarrow> signed_transaction \<Rightarrow> string list" where
  "send_report L W nd tx =
     (if n_peers nd \<noteq> [] \<or> publish_ok L W nd tx
      then [check_mark @ '' Sent '' @ show_u64 (tx_amount tx) @ '' to 0x'' @ hex_encode L (tx_to tx) @
            '' (tx: '' @ tx_hash L tx @ '')'']
      else [warn_sign @ '' No peers connected. Transaction saved locally.'',
            ''  Connect to a peer and try again.''])"

lemma broadcast_tx_eq:
  "tx_to tx = to \<Longrightarrow> tx_amount tx = amount \<Longrightarrow>
   broadcast_tx L W tx to amount nd =
     emits (direct_requests L nd tx @ Publish TX_TOPIC (to_rlp_bytes L tx) # map Println (send_report L W nd tx))
       (cache_tx (tx_hash L tx) nd)"
  by (auto simp: broadcast_tx_def send_direct_eq Let_def emit_emits direct_requests_def send_report_def
      publish_ok_def split: sum.split)

lemma cmd_send_eq:
  assumes "ed25519_ok L" "wallet_wf L (n_wallet nd)"
    and "address_from_hex L a = Inr to" "parse_u64 t = Some amount"
  shows "cmd_send L bp W now [c, a, t] nd =
    (case ledger_transfer bp (n_ledger nd) (own_address nd) to amount (own_nonce nd) of
       (l, Panic) \<Rightarrow> (nd\<lparr>n_ledger := l\<rparr>, Panic)
     | (l, Ret (Inl e)) \<Rightarrow>
         (emits [Println (''Transfer rejected by ledger: '' @ ledger_error_display L e)] (nd\<lparr>n_ledger := l\<rparr>), Ret ())
     | (l, Ret (Inr _)) \<Rightarrow> (broadcast_tx L W (sent_tx L now nd to amount) to amount (nd\<lparr>n_ledger := l\<rparr>), Ret ()))"
  using assms tx_create_verifies [OF assms(1,2)]
  by (simp add: cmd_send_def own_address_def own_nonce_def sent_tx_def Let_def emit_emits
      split: prod.split run.split sum.split)

lemma length_3E:
  assumes "length xs = 3"
  obtains a b c where "xs = [a, b, c]"
  using assms by (auto simp: numeral_3_eq_3 length_Suc_conv)

lemma cmd_send_refused:
  assumes "ed25519_ok L" "wallet_wf L (n_wallet nd)" "send_refusal L nd parts = Some msg"
  shows "cmd_send L bp W now parts nd = (emits [Println msg] nd, Ret ())"
proof (cases "length parts = 3")
  case True
  then obtain c a t where parts: "parts = [c, a, t]" by (rule length_3E)
  show ?thesis
  proof (cases "result_ok (address_from_hex L a)")
    case (Some to)
    show ?thesis
    proof (cases "parse_u64 t")
      case None
      with Some assms(3) parts show ?thesis by (simp add: send_refusal_def cmd_send_def emit_emits)
    next
      case amount: (Some amount)
      then obtain e where e: "transfer_error (n_ledger nd) (own_address nd) to amount (own_nonce nd) = Some e"
        "msg = ''Transfer rejected by ledger: '' @ ledger_error_display L e"
        using Some assms(3) parts by (auto simp: send_refusal_def)
      show ?thesis
        using cmd_send_eq [OF assms(1,2) _ amount] Some parts ledger_transfer_error [OF e(1)] e(2) by simp
    qed
  qed (use assms(3) parts in \<open>auto simp: send_refusal_def cmd_send_def emit_emits\<close>)
qed (use assms(3) in \<open>simp add: send_refusal_def cmd_send_def emit_emits\<close>)

definition send_words :: "string set" where
  "send_words = {''send'', ''transfer''}"

lemma handle_command_send:
  "split_whitespace line = c # args \<Longrightarrow> c \<in> send_words \<Longrightarrow>
   handle_command L bp W now line nd = cmd_send L bp W now (c # args) nd"
  by (simp add: handle_command_def split_whitespace_trim Let_def send_words_def)

text \<open>
  C17: A \<open>send\<close> command that is refused, for a wrong number of words, a bad address, a bad amount or one of
  the ledger's reasons, prints the one line that says so and changes nothing else: the ledger,
  the nonce and the cache are as before and nothing goes to the network. The check that a wallet's
  own transaction verifies never refuses.
\<close>

theorem send_refused_changes_nothing:
  assumes "ed25519_ok L" "wallet_wf L (n_wallet nd)"
    and "split_whitespace line = c # args" "c \<in> send_words" "send_refusal L nd (c # args) = Some msg"
  shows "handle_command L bp W now line nd = (emits [Println msg] nd, Ret ())"
  using handle_command_send [OF assms(3,4)] cmd_send_refused [OF assms(1,2,5)] by simp

text \<open>The ledger after an accepted \<open>send\<close>.\<close>

definition send_fits :: "build \<Rightarrow> node \<Rightarrow> address \<Rightarrow> u64 \<Rightarrow> bool" where
  "send_fits bp nd to amount \<longleftrightarrow>
     bp = Release \<or> (unat (own_nonce nd) + 1 < 2 ^ 64 \<and> funds (n_ledger nd) to + unat amount < 2 ^ 64)"

lemma own_nonce_lookup: "map_of (accounts (n_ledger nd)) (own_address nd) = Some s \<Longrightarrow> own_nonce nd = nonce s"
  by (simp add: own_nonce_def ledger_nonce_def)

lemma own_balance_lookup: "map_of (accounts (n_ledger nd)) (own_address nd) = Some s \<Longrightarrow> own_balance nd = balance s"
  by (simp add: own_balance_def ledger_balance_def)

definition after_transfer :: "address \<Rightarrow> u64 \<Rightarrow> node \<Rightarrow> node" where
  "after_transfer to amount nd =
     (let s = \<lparr>balance = own_balance nd - amount, nonce = own_nonce nd + 1\<rparr>
      in nd\<lparr>n_ledger := put_account to (credited (n_ledger nd) to amount) (put_account (own_address nd) s (n_ledger nd))\<rparr>)"

lemma after_transfer_sel [simp]:
  "n_wallet (after_transfer to v nd) = n_wallet nd" "n_cache (after_transfer to v nd) = n_cache nd"
  "n_peers (after_transfer to v nd) = n_peers nd" "n_stdin_open (after_transfer to v nd) = n_stdin_open nd"
  "n_effects (after_transfer to v nd) = n_effects nd" "own_address (after_transfer to v nd) = own_address nd"
  by (simp_all add: after_transfer_def Let_def own_address_def)

lemma after_transfer_own:
  assumes "to \<noteq> own_address nd"
  shows "own_nonce (after_transfer to v nd) = own_nonce nd + 1"
    and "own_balance (after_transfer to v nd) = own_balance nd - v"
proof -
  have "map_of (accounts (n_ledger (after_transfer to v nd))) (own_address nd) =
    Some \<lparr>balance = own_balance nd - v, nonce = own_nonce nd + 1\<rparr>"
    using assms by (auto simp: after_transfer_def Let_def)
  then show "own_nonce (after_transfer to v nd) = own_nonce nd + 1"
      "own_balance (after_transfer to v nd) = own_balance nd - v"
    using own_nonce_lookup [of "after_transfer to v nd"] own_balance_lookup [of "after_transfer to v nd"]
    by simp_all
qed

text \<open>The result of an accepted \<open>send\<close>.\<close>

definition after_send :: "crates \<Rightarrow> swarm \<Rightarrow> u64 \<Rightarrow> address \<Rightarrow> u64 \<Rightarrow> node \<Rightarrow> node" where
  "after_send L W now to amount nd =
     (let tx = sent_tx L now nd to amount
      in emits (direct_requests L nd tx @ Publish TX_TOPIC (to_rlp_bytes L tx) # map Println (send_report L W nd tx))
           (cache_tx (tx_hash L tx) (after_transfer to amount nd)))"

lemma cmd_send_accepted:
  assumes "ed25519_ok L" "wallet_wf L (n_wallet nd)"
    and "address_from_hex L a = Inr to" "parse_u64 t = Some amount"
    and "transfer_error (n_ledger nd) (own_address nd) to amount (own_nonce nd) = None"
  shows "send_fits bp nd to amount \<Longrightarrow>
      cmd_send L bp W now [c, a, t] nd = (after_send L W now to amount nd, Ret ())"
    and "\<not> send_fits bp nd to amount \<Longrightarrow> snd (cmd_send L bp W now [c, a, t] nd) = Panic"
proof -
  from assms(5) obtain s where s: "own_address nd \<noteq> to" "amount \<noteq> 0"
      "map_of (accounts (n_ledger nd)) (own_address nd) = Some s" "nonce s = own_nonce nd" "amount \<le> balance s"
    by (auto simp: transfer_error_None)
  note eq = cmd_send_eq [OF assms(1-4), of bp W now c]
    and tr = ledger_transfer_valid [OF s, of bp]
  have deb: "debited s amount = \<lparr>balance = own_balance nd - amount, nonce = own_nonce nd + 1\<rparr>"
    using s(3,4) own_balance_lookup [OF s(3)] by (simp add: debited_def)
  show "cmd_send L bp W now [c, a, t] nd = (after_send L W now to amount nd, Ret ())"
    if fits: "send_fits bp nd to amount"
  proof -
    have "ledger_transfer bp (n_ledger nd) (own_address nd) to amount (own_nonce nd) =
      (n_ledger (after_transfer to amount nd), Ret (Inr ()))"
      unfolding tr using fits by (auto simp: send_fits_def after_transfer_def Let_def deb)
    then have "cmd_send L bp W now [c, a, t] nd =
      (broadcast_tx L W (sent_tx L now nd to amount) to amount (nd\<lparr>n_ledger := n_ledger (after_transfer to amount nd)\<rparr>), Ret ())"
      using eq by simp
    also have "nd\<lparr>n_ledger := n_ledger (after_transfer to amount nd)\<rparr> = after_transfer to amount nd"
      by (simp add: after_transfer_def Let_def)
    also have "broadcast_tx L W (sent_tx L now nd to amount) to amount (after_transfer to amount nd) =
      after_send L W now to amount nd"
      by (simp add: broadcast_tx_eq after_send_def Let_def sent_tx_def direct_requests_def send_report_def
          publish_ok_def)
    finally show ?thesis .
  qed
  show "snd (cmd_send L bp W now [c, a, t] nd) = Panic" if "\<not> send_fits bp nd to amount"
    using that unfolding eq tr by (cases bp) (auto simp: send_fits_def not_less)
qed

lemma send_refusal_None:
  assumes "address_from_hex L a = Inr to" "parse_u64 t = Some amount"
  shows "send_refusal L nd [c, a, t] = None \<longleftrightarrow>
    transfer_error (n_ledger nd) (own_address nd) to amount (own_nonce nd) = None"
  using assms by (simp add: send_refusal_def)

lemma transfer_error_own:
  "transfer_error (n_ledger nd) (own_address nd) to amount (own_nonce nd) = None \<Longrightarrow>
   to \<noteq> own_address nd \<and> amount \<noteq> 0 \<and> amount \<le> own_balance nd"
  by (auto simp: transfer_error_None own_balance_def ledger_balance_def)

lemma after_send_sel [simp]:
  "n_wallet (after_send L W now to v nd) = n_wallet nd" "n_peers (after_send L W now to v nd) = n_peers nd"
  "n_stdin_open (after_send L W now to v nd) = n_stdin_open nd"
  "n_cache (after_send L W now to v nd) = insert (tx_hash L (sent_tx L now nd to v)) (n_cache nd)"
  "own_address (after_send L W now to v nd) = own_address nd"
  "n_ledger (after_send L W now to v nd) = n_ledger (after_transfer to v nd)"
  by (simp_all add: after_send_def Let_def)

lemma after_send_own:
  assumes "to \<noteq> own_address nd"
  shows "own_nonce (after_send L W now to v nd) = own_nonce nd + 1"
    and "own_balance (after_send L W now to v nd) = own_balance nd - v"
  using after_transfer_own [OF assms, of v] by (simp_all add: after_send_def Let_def)

lemma sent_tx_sel [simp]:
  "tx_from (sent_tx L now nd to v) = own_address nd" "tx_to (sent_tx L now nd to v) = to"
  "tx_amount (sent_tx L now nd to v) = v" "tx_nonce (sent_tx L now nd to v) = own_nonce nd"
  "tx_timestamp (sent_tx L now nd to v) = now"
  by (simp_all add: sent_tx_def own_address_def)

text \<open>
  A \<open>send\<close> command that is not refused completes (in a debug build, if neither the nonce nor the
  recipient's balance overflows). It creates one transaction from this node to the given address with the given
  amount and the current nonce, which verifies; the own balance, which covers the amount, is
  reduced by it and the nonce moves on by one; the hash is remembered, the same bytes go to every
  connected peer, once each, and then to the gossip topic, and the outcome is printed.
\<close>

theorem send_effect:
  assumes "ed25519_ok L" "wallet_wf L (n_wallet nd)"
    and "split_whitespace line = [c, a, t]" "c \<in> send_words"
    and "address_from_hex L a = Inr to" "parse_u64 t = Some amount"
    and "send_refusal L nd [c, a, t] = None" "send_fits bp nd to amount"
  shows "\<exists>nd' tx. handle_command L bp W now line nd = (nd', Ret ()) \<and>
    tx_verify L tx = Inr () \<and> tx_from tx = own_address nd \<and> tx_to tx = to \<and> tx_amount tx = amount \<and>
    tx_nonce tx = own_nonce nd \<and> tx_timestamp tx = now \<and>
    amount \<le> own_balance nd \<and> own_balance nd' = own_balance nd - amount \<and> own_nonce nd' = own_nonce nd + 1 \<and>
    n_wallet nd' = n_wallet nd \<and> n_peers nd' = n_peers nd \<and>
    n_cache nd' = insert (tx_hash L tx) (n_cache nd) \<and>
    n_effects nd' = n_effects nd @ map (\<lambda>pid. SendRequest pid \<lparr>tx_rlp = to_rlp_bytes L tx\<rparr>) (n_peers nd) @
      Publish TX_TOPIC (to_rlp_bytes L tx) # map Println (send_report L W nd tx)"
proof -
  let ?tx = "sent_tx L now nd to amount" and ?nd = "after_send L W now to amount nd"
  from assms(7) have ok: "transfer_error (n_ledger nd) (own_address nd) to amount (own_nonce nd) = None"
    by (simp add: send_refusal_None [OF assms(5,6)])
  have "handle_command L bp W now line nd = (?nd, Ret ())"
    using handle_command_send [OF assms(3,4)] cmd_send_accepted(1) [OF assms(1,2,5,6) ok assms(8)] by simp
  moreover have "n_effects ?nd = n_effects nd @ map (\<lambda>pid. SendRequest pid \<lparr>tx_rlp = to_rlp_bytes L ?tx\<rparr>) (n_peers nd) @
      Publish TX_TOPIC (to_rlp_bytes L ?tx) # map Println (send_report L W nd ?tx)"
    by (simp add: after_send_def Let_def direct_requests_def)
  moreover have "tx_verify L ?tx = Inr ()" using tx_create_verifies [OF assms(1,2)] by (simp add: sent_tx_def)
  ultimately show ?thesis
    using transfer_error_own [OF ok] after_send_own [of to nd L W now amount]
    by (intro exI [of _ ?nd] exI [of _ ?tx]) simp
qed

text \<open>The line that pays a wallet, as its owner would dictate it.\<close>

definition send_line :: "crates \<Rightarrow> string \<Rightarrow> wallet \<Rightarrow> u64 \<Rightarrow> string" where
  "send_line L c w amount = join_blank [c, address_hex L w, show_u64 amount]"

lemma send_line_words:
  assumes "hex_ok L" "c \<in> send_words"
  shows "split_whitespace (send_line L c w amount) = [c, address_hex L w, show_u64 amount]"
proof -
  have "list_all graphic (address_hex L w)"
    using hex_encode_digit [OF assms(1)]
    by (force simp: address_hex_def list_all_iff is_hex_digit_def graphic_def Let_def)
  moreover have "c \<noteq> [] \<and> list_all graphic c" using assms(2) by (auto simp: send_words_def graphic_def)
  ultimately show ?thesis
    unfolding send_line_def by (intro split_whitespace_join) (simp add: show_u64_graphic address_hex_def)
qed

section \<open>Instances\<close>

definition example_swarm :: swarm where
  "example_swarm = \<lparr>swarm_publish = \<lambda>_ _ _. Inl ''InsufficientPeers'', swarm_connected = \<lambda>_. [''p''],
     swarm_listeners = \<lambda>_. [], swarm_local_peer = ''me''\<rparr>"

definition example_node :: "u8 \<Rightarrow> node" where
  "example_node b =
     \<lparr>n_wallet = example_wallet b,
      n_ledger = fst (ledger_register ledger_new (wallet_address (example_wallet b)) 100),
      n_cache = {}, n_peers = [''p''], n_stdin_open = True, n_effects = []\<rparr>"

lemma example_node_wf: "wallet_wf ref_crates (n_wallet (example_node b))"
  by (simp add: example_node_def example_wallet_wf)

lemma example_node_own:
  "own_address (example_node b) = replicate 20 (b + 1)" "own_balance (example_node b) = 100"
  "own_nonce (example_node b) = 0" "n_peers (example_node b) = [''p'']" "n_effects (example_node b) = []"
  "map_of (accounts (n_ledger (example_node b))) (own_address (example_node b)) = Some \<lparr>balance = 100, nonce = 0\<rparr>"
proof -
  show addr: "own_address (example_node b) = replicate 20 (b + 1)"
    by (simp add: own_address_def example_node_def example_wallet_def wallet_generate_def wallet_address_def
        derive_address_def ref_crates_def ref_digest_def ref_verifying_key_def)
  show acc: "map_of (accounts (n_ledger (example_node b))) (own_address (example_node b)) = Some \<lparr>balance = 100, nonce = 0\<rparr>"
    by (simp add: own_address_def example_node_def ledger_register_def ledger_new_def account_new_def)
  show "own_balance (example_node b) = 100" "own_nonce (example_node b) = 0"
    using own_balance_lookup [OF acc] own_nonce_lookup [OF acc] by simp_all
qed (simp_all add: example_node_def)

definition example_line :: string where
  "example_line = send_line ref_crates ''send'' (example_wallet 8) 5"

lemma example_send:
  "split_whitespace example_line = [''send'', address_hex ref_crates (example_wallet 8), show_u64 5]"
  "''send'' \<in> send_words"
  "address_from_hex ref_crates (address_hex ref_crates (example_wallet 8)) = Inr (own_address (example_node 8))"
  "parse_u64 (show_u64 5) = Some 5"
  "send_refusal ref_crates (example_node 7) [''send'', address_hex ref_crates (example_wallet 8), show_u64 5] = None"
  "send_fits Debug (example_node 7) (own_address (example_node 8)) 5"
proof -
  show word: "''send'' \<in> send_words" by (simp add: send_words_def)
  show "split_whitespace example_line = [''send'', address_hex ref_crates (example_wallet 8), show_u64 5]"
    unfolding example_line_def by (rule send_line_words [OF ref_laws(1) word])
  have "length (address (example_wallet 8)) = ADDRESS_LEN"
    by (rule wallet_wf_address_length [OF ref_laws(2) example_wallet_wf])
  then show addr: "address_from_hex ref_crates (address_hex ref_crates (example_wallet 8)) = Inr (own_address (example_node 8))"
    using address_from_hex_encode(1) [OF ref_laws(1)]
    by (simp only: address_hex_def own_address_def wallet_address_def example_node_def node.simps)
  show amount: "parse_u64 (show_u64 5) = Some 5" by (rule parse_show_u64)
  have "own_address (example_node 7) \<noteq> own_address (example_node 8)" by (simp add: example_node_own(1))
  then show "send_refusal ref_crates (example_node 7) [''send'', address_hex ref_crates (example_wallet 8), show_u64 5] = None"
    unfolding send_refusal_None [OF addr amount]
    using example_node_own(3,6) [of 7] by (simp add: transfer_error_None word_le_nat_alt)
  have "map_of (accounts (n_ledger (example_node 7))) (own_address (example_node 8)) = None"
    by (simp add: example_node_own(1)) (simp add: example_node_def example_wallet_def wallet_generate_def wallet_address_def
        derive_address_def ref_crates_def ref_digest_def ref_verifying_key_def ledger_register_def ledger_new_def)
  then show "send_fits Debug (example_node 7) (own_address (example_node 8)) 5"
    by (simp add: send_fits_def example_node_own(3) funds_def ledger_balance_def)
qed

lemma payable_create:
  assumes "crates_ok L" "wallet_wf L w" "length (own_address B) = ADDRESS_LEN"
  shows "payable L B (to_rlp_bytes L (tx_create L now w (own_address B) v n)) = Some (tx_create L now w (own_address B) v n)"
proof -
  note ok = crates_okD [OF assms(1)]
  have "from_rlp_bytes L (to_rlp_bytes L (tx_create L now w (own_address B) v n)) = Inr (tx_create L now w (own_address B) v n)"
    by (rule from_rlp_bytes_encode [OF ok(4) tx_create_wf [OF ok(3,2) assms(2,3)]])
  moreover have "tx_verify L (tx_create L now w (own_address B) v n) = Inr ()"
    by (rule tx_create_verifies [OF ok(3) assms(2)])
  ultimately show ?thesis by (simp add: payable_def own_address_def)
qed

lemma payable_sent:
  assumes "crates_ok L" "wallet_wf L (n_wallet A)" "length to = ADDRESS_LEN" "own_address B = to"
  shows "payable L B (to_rlp_bytes L (sent_tx L now A to v)) = Some (sent_tx L now A to v)"
  using payable_create [OF assms(1,2), of B] assms(3,4) by (simp add: sent_tx_def)

definition example_payment :: signed_transaction where
  "example_payment = sent_tx ref_crates 1 (example_node 7) (own_address (example_node 8)) 5"

definition example_bytes :: bytes where
  "example_bytes = to_rlp_bytes ref_crates example_payment"

lemma example_payable:
  "payable ref_crates (example_node 8) example_bytes = Some example_payment" "tx_amount example_payment = 5"
  unfolding example_bytes_def example_payment_def
  by (intro payable_sent [OF ref_crates_ok example_node_wf]) (simp_all add: example_node_own(1) ADDRESS_LEN_def)

lemma example_no_overflow: "\<not> credit_overflows bp 5 (example_node 8)"
  using funds_lookup [OF example_node_own(6) [of 8]] by (simp add: credit_overflows_def)

theorem send_effect_witness:
  "\<exists>nd'. handle_command ref_crates Debug example_swarm 1 example_line (example_node 7) = (nd', Ret ()) \<and>
     own_balance nd' = 95 \<and> own_nonce nd' = 1"
  using send_effect [OF ref_laws(3) example_node_wf example_send, where W = example_swarm and now = 1]
  by (force simp: example_node_own)

theorem send_refused_changes_nothing_witness:
  "handle_command ref_crates Debug example_swarm 1 ''send'' (example_node 7) =
     (emits [Println ''Usage: send <address_hex> <amount>''] (example_node 7), Ret ())"
proof (rule send_refused_changes_nothing [OF ref_laws(3) example_node_wf])
  show "split_whitespace ''send'' = [''send'']"
    using split_whitespace_join [of "[''send'']"] by (simp add: graphic_def)
qed (simp_all add: send_words_def send_refusal_def)

theorem request_answered_once_witness:
  "\<exists>nd'. on_transfer_request ref_crates Debug \<lparr>tx_rlp = example_bytes\<rparr> 3 (example_node 8) = (nd', Ret ()) \<and>
     (\<exists>r. responses (n_effects nd') = [(3, r)] \<and> accepted r)"
proof -
  obtain nd' where nd': "on_transfer_request ref_crates Debug \<lparr>tx_rlp = example_bytes\<rparr> 3 (example_node 8) = (nd', Ret ())"
    by (simp add: on_transfer_request_eq example_payable example_no_overflow)
  from request_answered_once [OF this] nd' show ?thesis
    by (auto simp: example_payable example_node_own(5) responses_def)
qed

theorem gossip_idempotent_witness:
  "\<exists>nd'. on_gossip ref_crates Debug example_bytes (example_node 8) = (nd', Ret ()) \<and>
     on_gossip ref_crates Debug example_bytes nd' = (nd', Ret ()) \<and> own_balance nd' = 105"
proof -
  have "n_cache (example_node 8) = {}" by (simp add: example_node_def)
  then obtain nd' where nd': "on_gossip ref_crates Debug example_bytes (example_node 8) = (nd', Ret ())" "own_balance nd' = 105"
    using payable_SomeD [OF example_payable(1)]
    by (simp add: on_gossip_eq example_payable example_no_overflow example_node_own(2))
  with gossip_idempotent [of ref_crates Debug example_bytes "example_node 8" nd' 0] show ?thesis by blast
qed

theorem direct_replay_credits_again_witness:
  "\<exists>nd'. deliver_requests ref_crates Release \<lparr>tx_rlp = example_bytes\<rparr> [1, 2] (example_node 8) = (nd', Ret ()) \<and>
     funds (n_ledger nd') (own_address (example_node 8)) = 110"
proof -
  have "payable ref_crates (example_node 8) (tx_rlp \<lparr>tx_rlp = example_bytes\<rparr>) = Some example_payment"
    by (simp add: example_payable)
  from direct_replay_credits_again [OF this, of "[1, 2]"] show ?thesis
    using funds_lookup [OF example_node_own(6) [of 8]] by (simp add: example_payable)
qed

theorem gossip_converges_witness:
  "\<exists>nd'. deliver_gossip ref_crates Release [example_bytes, example_bytes] (example_node 8) = (nd', Ret ()) \<and>
     own_balance nd' = 105"
proof -
  have txs: "gossip_txs ref_crates [example_bytes, example_bytes] = {example_payment}"
    using payable_SomeD [OF example_payable(1)] by (auto simp: gossip_txs_def)
  then have "paid_by ref_crates (example_node 8) [example_bytes, example_bytes] = {example_payment}"
    using payable_SomeD [OF example_payable(1)] by (auto simp: paid_by_def example_node_def)
  with gossip_converges [of ref_crates "[example_bytes, example_bytes]" "example_node 8"] txs show ?thesis
    by (auto simp: example_payable example_node_own(2))
qed

end
