(* ===== verification/Ledger_Spec.thy ===== *)
theory Ledger_Spec
  imports Ledger
begin

text \<open>
  What the ledger promises, stated over unbounded numbers: an abstract ledger maps an address to
  its balance and its nonce, and a transfer moves an amount between two of them. The ledger of
  \<^verbatim>\<open>ledger.rs\<close> refines it as long as the total supply and the sender's nonce fit in 64 bits. Over
  sequences of operations: the nonce of an account never goes back, a nonce is never accepted
  twice, and supply changes by exactly what is registered and credited.
\<close>

section \<open>The abstract ledger\<close>

type_synonym spec_ledger = "address \<rightharpoonup> nat \<times> nat"

datatype spec_error =
    SpecFunds nat nat
  | SpecNonce nat nat
  | SpecUnknown address
  | SpecSelf
  | SpecZero

definition spec_credit :: "spec_ledger \<Rightarrow> address \<Rightarrow> nat \<Rightarrow> spec_ledger" where
  "spec_credit S a amount =
     S(a \<mapsto> (case S a of None \<Rightarrow> (amount, 0) | Some (b, k) \<Rightarrow> (b + amount, k)))"

definition spec_transfer :: "spec_ledger \<Rightarrow> address \<Rightarrow> address \<Rightarrow> nat \<Rightarrow> nat \<Rightarrow> spec_error + spec_ledger" where
  "spec_transfer S from to amount n =
     (if from = to then Inl SpecSelf
      else if amount = 0 then Inl SpecZero
      else
        (case S from of
           None \<Rightarrow> Inl (SpecUnknown from)
         | Some (b, k) \<Rightarrow>
             if k \<noteq> n then Inl (SpecNonce k n)
             else if b < amount then Inl (SpecFunds b amount)
             else Inr (spec_credit (S(from \<mapsto> (b - amount, k + 1))) to amount)))"

section \<open>Refinement\<close>

definition abs_ledger :: "ledger \<Rightarrow> spec_ledger" where
  "abs_ledger l a = map_option (\<lambda>s. (unat (balance s), unat (nonce s))) (map_of (accounts l) a)"

fun abs_error :: "ledger_error \<Rightarrow> spec_error" where
  "abs_error (InsufficientBalance have need) = SpecFunds (unat have) (unat need)"
| "abs_error (InvalidNonce expected got) = SpecNonce (unat expected) (unat got)"
| "abs_error (AddressNotFound a) = SpecUnknown a"
| "abs_error SelfTransfer = SpecSelf"
| "abs_error ZeroValue = SpecZero"

lemma abs_put_account: "abs_ledger (put_account a s l) = (abs_ledger l)(a \<mapsto> (unat (balance s), unat (nonce s)))"
  by (auto simp: abs_ledger_def)

lemma abs_credited:
  assumes "funds l a + unat amount < 2 ^ 64"
  shows "abs_ledger (put_account a (credited l a amount) l) = spec_credit (abs_ledger l) a (unat amount)"
proof -
  have "unat (balance (credited l a amount)) = funds l a + unat amount"
    using assms by (simp add: balance_credited)
  then show ?thesis
    by (auto simp: abs_put_account spec_credit_def abs_ledger_def credited_def ledger_defs split: option.splits)
qed

lemma abs_debited:
  assumes "unat (nonce s) + 1 < 2 ^ 64" "amount \<le> balance s"
  shows "abs_ledger (put_account a (debited s amount) l) =
    (abs_ledger l)(a \<mapsto> (unat (balance s) - unat amount, unat (nonce s) + 1))"
proof -
  have "unat (nonce s + 1) = unat (nonce s) + 1" using unat_u64_add_exact [of "nonce s" 1] assms(1) by simp
  with assms(2) show ?thesis by (simp add: abs_put_account debited_def unat_u64_sub_exact)
qed

lemma spec_transfer_error:
  "transfer_error l from to amount n = Some e \<Longrightarrow>
   spec_transfer (abs_ledger l) from to (unat amount) (unat n) = Inl (abs_error e)"
  by (auto simp: transfer_error_def spec_transfer_def abs_ledger_def ledger_defs word_less_nat_alt
      word_unat_eq_iff split: option.splits if_splits)

lemma spec_transfer_done:
  assumes "transfer_error l from to amount n = None" "map_of (accounts l) from = Some s" "from \<noteq> to"
    and "unat (nonce s) + 1 < 2 ^ 64" "funds l to + unat amount < 2 ^ 64" "amount \<le> balance s"
  shows "spec_transfer (abs_ledger l) from to (unat amount) (unat n) =
    Inr (abs_ledger (put_account to (credited l to amount) (put_account from (debited s amount) l)))"
proof -
  let ?l1 = "put_account from (debited s amount) l"
  have nz: "amount \<noteq> 0" "nonce s = n" using assms(1,2) by (auto simp: transfer_error_None)
  have "credited l to amount = credited ?l1 to amount" "funds l to = funds ?l1 to"
    using assms(3) by (simp_all add: credited_def funds_put_account)
  then have "abs_ledger (put_account to (credited l to amount) ?l1) =
      spec_credit (abs_ledger ?l1) to (unat amount)"
    using abs_credited [of ?l1 to amount] assms(5) by simp
  then show ?thesis
    using assms nz abs_debited [OF assms(4,6)]
    by (simp add: spec_transfer_def abs_ledger_def [of l "from"] word_le_nat_alt unat_eq_0)
qed

text \<open>
  C8: While the total supply and the sender's next nonce fit in 64 bits, the ledger implements the
  abstract ledger on unbounded numbers: a transfer never panics, it succeeds or fails exactly as
  the abstract transfer does, with the corresponding error, and the two ledgers still correspond
  afterwards. This holds in either build.
\<close>

theorem ledger_transfer_refines:
  assumes "total_supply l < 2 ^ 64" "\<forall>k. ledger_nonce l from = Some k \<longrightarrow> unat k + 1 < 2 ^ 64"
  shows "\<exists>l' r. ledger_transfer bp l from to amount n = (l', Ret r) \<and>
    spec_transfer (abs_ledger l) from to (unat amount) (unat n) =
      (case r of Inl e \<Rightarrow> Inl (abs_error e) | Inr _ \<Rightarrow> Inr (abs_ledger l'))"
proof -
  have fit: "funds l to + unat amount < 2 ^ 64"
    if "from \<noteq> to" "map_of (accounts l) from = Some s" "amount \<le> balance s" for s
    using that funds_supply2 [of "from" to l] funds_lookup [of l "from" s] assms(1)
    by (simp add: word_le_nat_alt)
  show ?thesis
  proof (cases rule: ledger_transfer_cases [of l "from" to amount n bp])
    case (rejected e)
    then show ?thesis using spec_transfer_error by auto
  next
    case (nonce_panic s)
    then show ?thesis using assms(2) by (auto simp: ledger_nonce_def)
  next
    case (credit_panic s)
    then show ?thesis using fit by auto
  next
    case (done_ s)
    have "unat (nonce s) + 1 < 2 ^ 64" using assms(2) done_ by (simp add: ledger_nonce_def)
    then show ?thesis
      using done_ spec_transfer_done [OF done_(1,2,6) _ fit [OF done_(6,2,5)] done_(5)] by simp
  qed
qed

theorem ledger_transfer_refines_witness:
  "\<exists>l' r. ledger_transfer Debug example_ledger (example_addr 1) (example_addr 2) 2000 0 = (l', Ret r) \<and>
    spec_transfer (abs_ledger example_ledger) (example_addr 1) (example_addr 2) (unat (2000 :: u64)) (unat (0 :: u64)) =
      (case r of Inl e \<Rightarrow> Inl (abs_error e) | Inr _ \<Rightarrow> Inr (abs_ledger l'))"
proof (rule ledger_transfer_refines)
  show "total_supply example_ledger < 2 ^ 64"
    by (simp add: example_ledger_def example_addr_def ledger_register_def ledger_new_def
        account_new_def total_supply_def entry_total_def)
  show "\<forall>k. ledger_nonce example_ledger (example_addr 1) = Some k \<longrightarrow> unat k + 1 < 2 ^ 64"
    by (simp add: example_ledger_def example_addr_def ledger_register_def ledger_new_def
        account_new_def ledger_nonce_def)
qed

section \<open>Sequences of operations\<close>

datatype ledger_op =
    OpRegister address u64
  | OpTransfer address address u64 u64
  | OpCredit address u64

text \<open>The ledger after an operation; the caller sees the same ledger whatever the result.\<close>

fun ledger_exec :: "build \<Rightarrow> ledger \<Rightarrow> ledger_op \<Rightarrow> ledger run" where
  "ledger_exec bp l (OpRegister a b) = Ret (fst (ledger_register l a b))"
| "ledger_exec bp l (OpTransfer from to amount n) =
     (case ledger_transfer bp l from to amount n of (l', Panic) \<Rightarrow> Panic | (l', Ret _) \<Rightarrow> Ret l')"
| "ledger_exec bp l (OpCredit a amount) =
     (case ledger_credit bp l a amount of (l', Panic) \<Rightarrow> Panic | (l', Ret _) \<Rightarrow> Ret l')"

fun spec_exec :: "spec_ledger \<Rightarrow> ledger_op \<Rightarrow> spec_ledger run" where
  "spec_exec S (OpRegister a b) = Ret (if S a = None then S(a \<mapsto> (unat b, 0)) else S)"
| "spec_exec S (OpTransfer from to amount n) =
     Ret (case spec_transfer S from to (unat amount) (unat n) of Inl _ \<Rightarrow> S | Inr S' \<Rightarrow> S')"
| "spec_exec S (OpCredit a amount) = Ret (spec_credit S a (unat amount))"

lemma ledger_exec_nonce:
  assumes "ledger_exec bp l p = Ret l'" "ledger_nonce l a = Some k"
  shows "ledger_nonce l' a = Some k \<or> ledger_nonce l' a = Some (k + 1)"
proof (cases p)
  case (OpTransfer "from" to amount n)
  with assms show ?thesis
    by (cases rule: ledger_transfer_cases [of l "from" to amount n bp])
      (auto simp: ledger_nonce_def debited_def credited_def split: option.splits)
qed (use assms in \<open>auto simp: ledger_register_def ledger_credit_eq ledger_nonce_def credited_def
      hmap.lookup_put split: option.splits if_splits\<close>)

interpretation ledger_nonces: sequenced "ledger_exec bp" "\<lambda>l a. map_option unat (ledger_nonce l a)" "2 ^ 64" for bp
proof unfold_locales
  fix l p l' a n
  assume "ledger_exec bp l p = Ret l'" "map_option unat (ledger_nonce l a) = Some n" "n + 1 < 2 ^ 64"
  then show "map_option unat (ledger_nonce l' a) = Some n \<or> map_option unat (ledger_nonce l' a) = Some (n + 1)"
    using ledger_exec_nonce [of bp l p l' a] unat_u64_add_exact [of _ 1] by fastforce
qed

interpretation spec_nonces: sequenced spec_exec "\<lambda>S a. map_option snd (S a)" limit for limit
proof unfold_locales
  fix S p S' a n
  assume "spec_exec S p = Ret S'" "map_option snd (S a) = Some n"
  then show "map_option snd (S' a) = Some n \<or> map_option snd (S' a) = Some (n + 1)"
    by (cases p) (auto simp: spec_transfer_def spec_credit_def split: option.splits if_splits sum.splits)
qed

lemma spec_exec_step:
  assumes "ledger_exec Debug l p = Ret l'" shows "spec_exec (abs_ledger l) p = Ret (abs_ledger l')"
proof (cases p)
  case (OpRegister a b)
  with assms show ?thesis
    by (auto simp: ledger_register_def abs_ledger_def account_new_def hmap.lookup_put fun_eq_iff split: option.splits)
next
  case (OpTransfer "from" to amount n)
  then show ?thesis
  proof (cases rule: ledger_transfer_cases [of l "from" to amount n Debug])
    case (done_ s)
    then have "unat (nonce s) + 1 < 2 ^ 64" "funds l to + unat amount < 2 ^ 64" by simp_all
    from spec_transfer_done [OF done_(1,2,6) this done_(5)] show ?thesis using OpTransfer assms done_(7) by simp
  qed (use OpTransfer assms spec_transfer_error in auto)
next
  case (OpCredit a amount)
  with assms show ?thesis by (auto simp: ledger_credit_eq abs_credited split: if_splits)
qed

interpretation ledger_sim: simulation "ledger_exec Debug" "\<lambda>_. True" abs_ledger "\<lambda>_ p. p" spec_exec
  by unfold_locales (simp_all add: spec_exec_step)

text \<open>
  C9: A nonce is spent once. After a successful transfer with some nonce, and after any further
  operations on the ledger, fewer than would exhaust the 64-bit nonces, every transfer from that
  sender with the same nonce is rejected with the error that names the higher nonce expected.
\<close>

theorem ledger_no_replay:
  assumes "ledger_transfer bp l from to amount n = (l1, Ret (Inr ()))"
    and "run_ops (ledger_exec bp) l1 ops = Ret l2"
    and "unat n + 1 + length ops < 2 ^ 64"
    and "from \<noteq> to'" "amount' \<noteq> 0"
  shows "\<exists>k. ledger_transfer bp l2 from to' amount' n = (l2, Ret (Inl (InvalidNonce k n))) \<and> unat n < unat k"
proof -
  have n1: "unat (n + 1) = unat n + 1" using unat_u64_add_exact [of n 1] assms(3) by simp
  then have "map_option unat (ledger_nonce l1 from) = Some (unat n + 1)"
    using transfer_done_nonce [OF assms(1)] by simp
  then obtain m where "map_option unat (ledger_nonce l2 from) = Some m" "unat n + 1 \<le> m"
    using ledger_nonces.seq_run [OF assms(2)] assms(3) by blast
  then obtain k where k: "ledger_nonce l2 from = Some k" "unat n < unat k" by auto
  then have "transfer_error l2 from to' amount' n = Some (InvalidNonce k n)"
    using assms(4,5) by (auto simp: transfer_error_def ledger_nonce_def ledger_balance_def)
  then show ?thesis using ledger_transfer_error k(2) by blast
qed

theorem ledger_no_replay_witness:
  "\<exists>k. ledger_transfer Debug (fst (ledger_transfer Debug example_ledger (example_addr 1) (example_addr 2) 100 0))
     (example_addr 1) (example_addr 2) 100 0 =
   (fst (ledger_transfer Debug example_ledger (example_addr 1) (example_addr 2) 100 0), Ret (Inl (InvalidNonce k 0))) \<and>
   unat (0 :: u64) < unat k"
proof (rule ledger_no_replay)
  show "ledger_transfer Debug example_ledger (example_addr 1) (example_addr 2) 100 0 =
    (fst (ledger_transfer Debug example_ledger (example_addr 1) (example_addr 2) 100 0), Ret (Inr ()))"
    by (simp add: example_ledger_def example_addr_def ledger_register_def ledger_new_def
        account_new_def ledger_transfer_def rust_defs entry_add_def)
  show "run_ops (ledger_exec Debug) (fst (ledger_transfer Debug example_ledger (example_addr 1) (example_addr 2) 100 0)) []
    = Ret (fst (ledger_transfer Debug example_ledger (example_addr 1) (example_addr 2) 100 0))" by simp
qed (simp_all add: example_addr_def)

section \<open>Supply over sequences\<close>

fun op_mint :: "ledger_op \<Rightarrow> nat" where
  "op_mint (OpRegister a b) = unat b"
| "op_mint (OpTransfer from to amount n) = 0"
| "op_mint (OpCredit a b) = unat b"

fun is_register :: "ledger_op \<Rightarrow> bool" where
  "is_register (OpRegister a b) = True"
| "is_register _ = False"

lemma credit_supply:
  assumes "total_supply l + unat amount < 2 ^ 64"
  shows "total_supply (put_account a (credited l a amount) l) = total_supply l + unat amount"
proof -
  have "funds l a + unat amount < 2 ^ 64" using funds_supply [of l a] assms by linarith
  then show ?thesis using put_account_supply [of a "credited l a amount" l] by (simp add: balance_credited)
qed

lemma transfer_supply:
  assumes "ledger_transfer bp l from to amount n = (l', Ret r)" "total_supply l < 2 ^ 64"
  shows "total_supply l' = total_supply l"
proof (cases rule: ledger_transfer_cases [of l "from" to amount n bp])
  case (done_ s)
  let ?l1 = "put_account from (debited s amount) l"
  have s1: "total_supply ?l1 + unat amount = total_supply l"
    using put_account_supply [of "from" "debited s amount" l] balance_debited [OF done_(5)]
      funds_lookup [OF done_(2)] by linarith
  have "credited l to amount = credited ?l1 to amount"
    using done_(6) by (simp add: credited_def)
  then show ?thesis using credit_supply [of ?l1 amount to] s1 assms done_ by simp
qed (use assms in auto)

lemma ledger_exec_supply:
  assumes "ledger_exec bp l p = Ret l'" "total_supply l + op_mint p < 2 ^ 64"
  shows "total_supply l \<le> total_supply l' \<and> total_supply l' \<le> total_supply l + op_mint p \<and>
    (is_register p \<or> total_supply l' = total_supply l + op_mint p)"
proof (cases p)
  case (OpRegister a b)
  have "total_supply (put_account a (account_new b) l) = total_supply l + unat b" if "map_of (accounts l) a = None"
    using put_account_supply [of a "account_new b" l] that by (simp add: account_new_def ledger_defs)
  with OpRegister assms show ?thesis by (auto simp: ledger_register_def put_account_def split: option.splits)
next
  case (OpTransfer "from" to amount n)
  with assms show ?thesis using transfer_supply by (auto split: prod.splits run.splits)
next
  case (OpCredit a b)
  with assms show ?thesis using credit_supply [of l b a] by (auto simp: ledger_credit_eq split: if_splits)
qed

lemma run_supply:
  assumes "run_ops (ledger_exec bp) l ops = Ret l'" "total_supply l + sum_list (map op_mint ops) < 2 ^ 64"
  shows "total_supply l \<le> total_supply l' \<and> total_supply l' \<le> total_supply l + sum_list (map op_mint ops) \<and>
    (list_ex is_register ops \<or> total_supply l' = total_supply l + sum_list (map op_mint ops))"
  using assms
proof (induction ops arbitrary: l)
  case (Cons p ops)
  then obtain l1 where l1: "ledger_exec bp l p = Ret l1" "run_ops (ledger_exec bp) l1 ops = Ret l'"
    by (auto split: run.splits)
  have s: "total_supply l \<le> total_supply l1 \<and> total_supply l1 \<le> total_supply l + op_mint p \<and>
      (is_register p \<or> total_supply l1 = total_supply l + op_mint p)"
    using ledger_exec_supply [OF l1(1)] Cons.prems(2) by simp
  with Cons.IH [OF l1(2)] Cons.prems(2) show ?case by auto
qed simp

text \<open>
  Over any sequence of operations that together could not bring the supply past 64 bits, transfers
  neither create nor destroy value: the supply never falls, grows by at most what registrations
  and credits carry, and by exactly that when there is no registration among them.
\<close>

theorem ledger_run_supply:
  assumes "run_ops (ledger_exec bp) l ops = Ret l'" "total_supply l + sum_list (map op_mint ops) < 2 ^ 64"
  shows "total_supply l \<le> total_supply l' \<and> total_supply l' \<le> total_supply l + sum_list (map op_mint ops) \<and>
    (list_ex is_register ops \<or> total_supply l' = total_supply l + sum_list (map op_mint ops))"
  using run_supply [OF assms] .

theorem ledger_run_supply_witness:
  "total_supply (put_account (example_addr 3) (credited example_ledger (example_addr 3) 7) example_ledger) =
   total_supply example_ledger + 7"
proof -
  have "total_supply example_ledger = 1500"
    by (simp add: example_ledger_def example_addr_def ledger_register_def ledger_new_def
        account_new_def total_supply_def entry_total_def)
  moreover have "run_ops (ledger_exec Release) example_ledger [OpCredit (example_addr 3) 7] =
    Ret (put_account (example_addr 3) (credited example_ledger (example_addr 3) 7) example_ledger)"
    by (simp add: ledger_credit_eq)
  ultimately show ?thesis using ledger_run_supply [of Release example_ledger "[OpCredit (example_addr 3) 7]"] by simp
qed

end
