(* ===== verification/Event_Loop.thy ===== *)
theory Event_Loop
  imports Node_Spec Ledger_Spec
begin

text \<open>
  The program around the handlers (\<^verbatim>\<open>src/zyphra/src/main.rs\<close>, function \<open>main\<close>): opening the wallet,
  registering it, building the swarm, listening, dialling and bootstrapping, each with its error,
  and the event loop as a function of one input and as a step relation. The random bytes, the libp2p
  identity and the answers of the fallible libp2p calls are parameters (\<open>host\<close>). An input is a
  line of standard input (with the time at which it is handled) or a swarm event; which one comes
  next is not determined, and the branch for standard input is disabled once it has ended.
\<close>

section \<open>Start-up\<close>

record host =
  host_random :: bytes
  host_identity :: bytes
  host_peer_id :: "bytes \<Rightarrow> peer_id"
  host_tcp :: "unit result"
  host_dns :: "unit result"
  host_libp2p :: libp2p
  host_listen :: "effect list \<Rightarrow> multiaddr \<Rightarrow> unit result"
  host_dial :: "effect list \<Rightarrow> multiaddr \<Rightarrow> unit result"

definition open_wallet :: "crates \<Rightarrow> host \<Rightarrow> cli \<Rightarrow> wallet result" where
  "open_wallet L H c =
     (case cli_secret_key c of
        Some hex_key \<Rightarrow>
          try_bind (with_context ''Invalid hex secret key'' (ok_or () (hex_decode L hex_key)))
            (from_secret_bytes L)
      | None \<Rightarrow> Inr (wallet_generate L (host_random H)))"

record swarm_setup =
  setup_peer_id :: peer_id
  setup_nodelay :: bool
  setup_behaviour :: node_behaviour
  setup_idle_timeout :: nat

text \<open>The question marks after TCP and DNS return the error; both \<open>expect\<close> calls panic.\<close>

definition build_swarm :: "host \<Rightarrow> swarm_setup result run" where
  "build_swarm H =
     (case host_tcp H of
        Inl e \<Rightarrow> Ret (Inl e)
      | Inr _ \<Rightarrow>
          (case host_dns H of
             Inl e \<Rightarrow> Ret (Inl e)
           | Inr _ \<Rightarrow>
               (let peer = host_peer_id H (host_identity H) in
                case build_behaviour (host_libp2p H) (host_identity H) peer of
                  Inl e \<Rightarrow> Panic
                | Inr b \<Rightarrow>
                    Ret (Inr \<lparr>setup_peer_id = peer, setup_nodelay = True, setup_behaviour = b,
                              setup_idle_timeout = 120\<rparr>))))"

fun dial_peers :: "host \<Rightarrow> multiaddr list \<Rightarrow> effect list \<Rightarrow> effect list result" where
  "dial_peers H [] es = Inr es"
| "dial_peers H (addr # addrs) es =
     try_bind (with_context ''Failed to dial peer'' (host_dial H es addr))
       (\<lambda>_. dial_peers H addrs (es @ [Dial addr]))"

definition main_init :: "crates \<Rightarrow> host \<Rightarrow> cli \<Rightarrow> node result run" where
  "main_init L H c =
     (case open_wallet L H c of
        Inl e \<Rightarrow> Ret (Inl e)
      | Inr w \<Rightarrow>
          (let l = fst (ledger_register ledger_new (wallet_address w) (cli_balance c)) in
           case build_swarm H of
             Panic \<Rightarrow> Panic
           | Ret (Inl e) \<Rightarrow> Ret (Inl e)
           | Ret (Inr sw) \<Rightarrow>
               Ret (try_bind (with_context ''Failed to listen'' (host_listen H [] (cli_listen c)))
                 (\<lambda>_. try_bind (dial_peers H (cli_peer c) [ListenOn (cli_listen c)])
                   (\<lambda>es. Inr \<lparr>n_wallet = w, n_ledger = l, n_cache = {}, n_peers = [], n_stdin_open = True,
                               n_effects = es @ (if cli_peer c \<noteq> [] then [KadBootstrap] else [])\<rparr>)))))"

section \<open>The loop\<close>

datatype stdin_result = Line string | Eof | ReadError string

datatype swarm_event =
    NewListenAddr multiaddr
  | Behaviour node_event
  | ConnectionEstablished peer_id multiaddr
  | ConnectionClosed peer_id
  | OutgoingConnectionError "peer_id option" string
  | IncomingConnectionError string
  | Dialing "peer_id option"
  | OtherSwarmEvent

datatype loop_input = Stdin u64 stdin_result | SwarmEvent swarm_event

fun on_stdin :: "crates \<Rightarrow> build \<Rightarrow> swarm \<Rightarrow> u64 \<Rightarrow> stdin_result \<Rightarrow> node \<Rightarrow> node \<times> unit run" where
  "on_stdin L bp W now (Line line) nd = handle_command L bp W now line nd"
| "on_stdin L bp W now Eof nd = (nd\<lparr>n_stdin_open := False\<rparr>, Ret ())"
| "on_stdin L bp W now (ReadError e) nd = (nd\<lparr>n_stdin_open := False\<rparr>, Ret ())"

definition on_connection_established :: "peer_id \<Rightarrow> multiaddr \<Rightarrow> node \<Rightarrow> node" where
  "on_connection_established pid remote nd =
     emit KadBootstrap (emit (AddExplicitPeer pid) (emit (KadAddAddress pid remote)
       (nd\<lparr>n_peers := List.insert pid (n_peers nd)\<rparr>)))"

definition on_connection_closed :: "peer_id \<Rightarrow> node \<Rightarrow> node" where
  "on_connection_closed pid nd = emit (RemoveExplicitPeer pid) (nd\<lparr>n_peers := removeAll pid (n_peers nd)\<rparr>)"

fun on_swarm_event :: "crates \<Rightarrow> build \<Rightarrow> swarm_event \<Rightarrow> node \<Rightarrow> node \<times> unit run" where
  "on_swarm_event L bp (NewListenAddr addr) nd = (nd, Ret ())"
| "on_swarm_event L bp (Behaviour ev) nd = handle_behaviour_event L bp ev nd"
| "on_swarm_event L bp (ConnectionEstablished pid remote) nd = (on_connection_established pid remote nd, Ret ())"
| "on_swarm_event L bp (ConnectionClosed pid) nd = (on_connection_closed pid nd, Ret ())"
| "on_swarm_event L bp (OutgoingConnectionError pid e) nd = (nd, Ret ())"
| "on_swarm_event L bp (IncomingConnectionError e) nd = (nd, Ret ())"
| "on_swarm_event L bp (Dialing pid) nd = (nd, Ret ())"
| "on_swarm_event L bp OtherSwarmEvent nd = (nd, Ret ())"

text \<open>One turn of \<open>select!\<close>; a turn takes place only for an enabled branch.\<close>

fun input_enabled :: "node \<Rightarrow> loop_input \<Rightarrow> bool" where
  "input_enabled nd (Stdin now r) = n_stdin_open nd"
| "input_enabled nd (SwarmEvent ev) = True"

fun main_turn :: "crates \<Rightarrow> build \<Rightarrow> swarm \<Rightarrow> node \<Rightarrow> loop_input \<Rightarrow> node \<times> unit run" where
  "main_turn L bp W nd (Stdin now r) = on_stdin L bp W now r nd"
| "main_turn L bp W nd (SwarmEvent ev) = on_swarm_event L bp ev nd"

text \<open>The loop as a step relation, and run on given inputs, those of a disabled branch never being taken.\<close>

inductive main_loop :: "crates \<Rightarrow> build \<Rightarrow> swarm \<Rightarrow> node \<Rightarrow> loop_input \<Rightarrow> node \<Rightarrow> bool" where
  turn: "input_enabled nd i \<Longrightarrow> main_turn L bp W nd i = (nd', Ret ()) \<Longrightarrow> main_loop L bp W nd i nd'"

inductive_simps main_loop_iff: "main_loop L bp W nd i nd'"

definition main_exec :: "crates \<Rightarrow> build \<Rightarrow> swarm \<Rightarrow> node \<Rightarrow> loop_input \<Rightarrow> node run" where
  "main_exec L bp W nd i =
     (if input_enabled nd i
      then (case main_turn L bp W nd i of (nd', Ret _) \<Rightarrow> Ret nd' | (nd', Panic) \<Rightarrow> Panic)
      else Ret nd)"

lemma main_exec_Ret:
  "main_exec L bp W nd i = Ret nd' \<longleftrightarrow> main_loop L bp W nd i nd' \<or> (\<not> input_enabled nd i \<and> nd' = nd)"
  by (auto simp: main_exec_def main_loop_iff split: prod.splits run.splits)

section \<open>What one turn does\<close>

fun is_tx_effect :: "effect \<Rightarrow> bool" where
  "is_tx_effect (Publish t d) = True"
| "is_tx_effect (SendRequest p r) = True"
| "is_tx_effect e = False"

definition no_tx :: "effect list \<Rightarrow> bool" where
  "no_tx es \<longleftrightarrow> (\<forall>e \<in> set es. \<not> is_tx_effect e)"

lemma no_tx_simps [simp]:
  "no_tx []" "no_tx (e # es) \<longleftrightarrow> \<not> is_tx_effect e \<and> no_tx es" "no_tx (es @ ds) \<longleftrightarrow> no_tx es \<and> no_tx ds"
  "no_tx (map Println ss)"
  by (auto simp: no_tx_def)

text \<open>A node whose wallet, ledger and cache are untouched, with nothing paid.\<close>

definition quiet :: "node \<Rightarrow> node \<Rightarrow> bool" where
  "quiet nd nd' \<longleftrightarrow>
     n_wallet nd' = n_wallet nd \<and> n_ledger nd' = n_ledger nd \<and> n_cache nd' = n_cache nd \<and>
     (\<exists>es. n_effects nd' = n_effects nd @ es \<and> no_tx es) \<and>
     (distinct (n_peers nd) \<longrightarrow> distinct (n_peers nd')) \<and> (n_stdin_open nd' \<longrightarrow> n_stdin_open nd)"

lemma quiet_refl [simp]: "quiet nd nd"
  by (simp add: quiet_def)

lemma quiet_emits: "no_tx es \<Longrightarrow> quiet nd (emits es nd)"
  by (auto simp: quiet_def)

lemma quiet_discovery: "quiet nd (on_identify pid addrs nd)" "quiet nd (on_mdns_discovered ps nd)"
proof -
  have "on_identify pid addrs nd = emits (map (KadAddAddress pid) addrs @ [AddExplicitPeer pid]) nd"
    by (simp add: on_identify_def emit_emits fold_emits flip: map_map)
  then show "quiet nd (on_identify pid addrs nd)" by (auto intro!: quiet_emits simp: no_tx_def)
  have "on_mdns_discovered ps nd = emits (concat (map (\<lambda>p. [AddExplicitPeer (fst p), KadAddAddress (fst p) (snd p)]) ps)) nd"
    by (simp add: on_mdns_discovered_def emit_emits fold_emits case_prod_unfold)
  then show "quiet nd (on_mdns_discovered ps nd)" by (auto intro!: quiet_emits simp: no_tx_def)
qed

lemma quiet_response: "quiet nd (on_transfer_response r nd)"
  using quiet_emits [of "[Println _]" nd] by (simp add: on_transfer_response_def emit_emits(2))

lemma quiet_connection:
  "quiet nd (on_connection_established pid remote nd)" "quiet nd (on_connection_closed pid nd)"
  by (auto simp: quiet_def on_connection_established_def on_connection_closed_def distinct_removeAll)

lemma quiet_query: "\<exists>ss. nd' = emits (map Println ss) nd \<Longrightarrow> quiet nd nd'"
  by (auto intro: quiet_emits)

lemma handle_command_cases:
  obtains (query) "\<forall>c args. split_whitespace line = c # args \<longrightarrow> c \<notin> send_words"
      "snd (handle_command L bp W now line nd) = Ret ()" "quiet nd (fst (handle_command L bp W now line nd))"
  | (pay) c args where "split_whitespace line = c # args" "c \<in> send_words"
      "handle_command L bp W now line nd = cmd_send L bp W now (c # args) nd"
proof (cases "split_whitespace line")
  case Nil
  then show thesis using query by (simp add: handle_command_def split_whitespace_trim)
next
  case (Cons c args)
  show thesis
  proof (cases "c \<in> send_words")
    case True
    then show thesis using pay handle_command_send Cons by blast
  next
    case False
    then show thesis
      using query Cons query_emits [THEN quiet_query] quiet_emits [of "[Println _]" nd]
      by (simp add: handle_command_def split_whitespace_trim Let_def send_words_def emit_emits(2) split: if_splits)
  qed
qed

lemma cmd_send_returns:
  assumes "ed25519_ok L" "wallet_wf L (n_wallet nd)" "cmd_send L bp W now parts nd = (nd', Ret ())"
  obtains (refused) msg where "nd' = emits [Println msg] nd"
  | (accepted) to amount where "length to = ADDRESS_LEN"
      "transfer_error (n_ledger nd) (own_address nd) to amount (own_nonce nd) = None"
      "nd' = after_send L W now to amount nd"
proof (cases "send_refusal L nd parts")
  case (Some msg)
  then have "nd' = emits [Println msg] nd" using cmd_send_refused [OF assms(1,2) Some, of bp W now] assms(3) by simp
  then show thesis by (rule refused)
next
  case None
  then have "length parts = 3" by (simp add: send_refusal_def split: if_splits)
  then obtain c a t where parts: "parts = [c, a, t]" by (rule length_3E)
  with None obtain to amount where ta: "address_from_hex L a = Inr to" "parse_u64 t = Some amount"
    by (auto simp: send_refusal_def split: sum.splits option.splits)
  note err = None [unfolded parts send_refusal_None [OF ta]]
  note acc = cmd_send_accepted [OF assms(1,2) ta err, of bp W now c]
  show thesis
    using accepted [OF address_from_hex_length [OF ta(1)] err] acc assms(3)
    by (cases "send_fits bp nd to amount") (simp_all add: parts)
qed

lemma cache_emits: "cache_tx h (emits es nd) = emits es (cache_tx h nd)"
  by (simp add: cache_tx_def emits_def)

lemma main_loop_cases:
  assumes "ed25519_ok L" "wallet_wf L (n_wallet nd)" "main_loop L bp W nd i nd'"
  obtains (quiet) "quiet nd nd'"
  | (witnessed) h where "nd' = cache_tx h nd"
  | (paid) data tx es where "payable L nd data = Some tx" "no_tx es" "\<not> credit_overflows bp (tx_amount tx) nd"
      "nd' = emits es (cache_tx (tx_hash L tx) (credit_own (tx_amount tx) nd))"
  | (sent) now to amount where "n_stdin_open nd" "length to = ADDRESS_LEN"
      "transfer_error (n_ledger nd) (own_address nd) to amount (own_nonce nd) = None"
      "nd' = after_send L W now to amount nd"
proof -
  have gossip: thesis if g: "on_gossip L bp data nd = (nd', Ret ())" for data
  proof (cases "payable L nd data")
    case None
    with g have "nd' = nd \<or> (\<exists>h. nd' = cache_tx h nd)"
      by (auto simp: on_gossip_eq split: option.splits if_splits)
    then show thesis using quiet witnessed by auto
  next
    case (Some tx)
    let ?es = "[Println (received_text L ''Incoming transfer'' tx)]"
    have "nd' = nd \<or> (\<not> credit_overflows bp (tx_amount tx) nd \<and>
        nd' = emits ?es (cache_tx (tx_hash L tx) (credit_own (tx_amount tx) nd)))"
      using Some g payable_SomeD [OF Some] by (auto simp: on_gossip_eq cache_emits split: if_splits)
    then show thesis using quiet paid [OF Some, of ?es] by auto
  qed
  have request: thesis if r: "on_transfer_request L bp req ch nd = (nd', Ret ())" for req ch
  proof (cases "payable L nd (tx_rlp req)")
    case None
    with r have "nd' = emits [SendResponse ch (request_refusal L nd (tx_rlp req))] nd"
      by (simp add: on_transfer_request_eq)
    then show thesis using quiet quiet_emits [of "[SendResponse ch (request_refusal L nd (tx_rlp req))]" nd] by simp
  next
    case (Some tx)
    let ?es = "[Println (received_text L ''Direct transfer received'' tx),
        SendResponse ch \<lparr>accepted = True, reason = [], resp_tx_hash = tx_hash L tx\<rparr>]"
    have "\<not> credit_overflows bp (tx_amount tx) nd \<and>
        nd' = emits ?es (cache_tx (tx_hash L tx) (credit_own (tx_amount tx) nd))"
      using Some r by (auto simp: on_transfer_request_eq split: if_splits)
    then show thesis using paid [OF Some, of ?es] by simp
  qed
  have behaviour: thesis if e: "handle_behaviour_event L bp ev nd = (nd', Ret ())" for ev
    using e gossip request
    by (cases "(L, bp, ev, nd)" rule: handle_behaviour_event.cases)
      (auto intro: quiet quiet_discovery quiet_response)
  have command: thesis if "n_stdin_open nd" "handle_command L bp W now line nd = (nd', Ret ())" for now line
  proof (cases rule: handle_command_cases [of line L bp W now nd])
    case query
    with that show thesis using quiet by simp
  next
    case (pay c args)
    then have send: "cmd_send L bp W now (c # args) nd = (nd', Ret ())" using that by simp
    show thesis
    proof (cases rule: cmd_send_returns [OF assms(1,2) send])
      case (1 msg)
      then show thesis using quiet quiet_emits [of "[Println msg]" nd] by simp
    next
      case (2 to amount)
      then show thesis using sent [OF that(1)] by blast
    qed
  qed
  have closed: "quiet nd (nd\<lparr>n_stdin_open := False\<rparr>)" by (simp add: quiet_def)
  from assms(3) have turn: "input_enabled nd i" "main_turn L bp W nd i = (nd', Ret ())"
    by (simp_all add: main_loop_iff)
  show thesis
  proof (cases i)
    case (Stdin now r)
    with turn show thesis using command closed quiet by (cases r) auto
  next
    case (SwarmEvent ev)
    with turn show thesis using behaviour quiet quiet_connection by (cases ev) auto
  qed
qed

section \<open>The invariant of the loop\<close>

fun published :: "effect list \<Rightarrow> bytes list" where
  "published [] = []"
| "published (Publish t d # es) = d # published es"
| "published (_ # es) = published es"

lemma published_append [simp]: "published (es @ ds) = published es @ published ds"
  by (induction es rule: published.induct) simp_all

lemma published_no_tx [simp]: "no_tx es \<Longrightarrow> published es = []"
  by (induction es rule: published.induct) simp_all

lemma published_requests [simp]: "published (direct_requests L nd tx) = []"
proof -
  have "published (map (\<lambda>pid. SendRequest pid \<lparr>tx_rlp = d\<rparr>) pids) = []" for d pids
    by (induction pids) simp_all
  then show ?thesis by (simp add: direct_requests_def)
qed

text \<open>The state is well-formed and the node knows its own account.\<close>

definition node_wf :: "crates \<Rightarrow> node \<Rightarrow> bool" where
  "node_wf L nd \<longleftrightarrow>
     wallet_wf L (n_wallet nd) \<and> ledger_wf (n_ledger nd) \<and>
     ledger_balance (n_ledger nd) (own_address nd) \<noteq> None \<and> distinct (n_peers nd)"

text \<open>
  The transactions published so far are valid, come from this node, carry the nonces counted from zero and are
  remembered; the ledger's nonce is their number; nothing else was ever sent to a peer.
\<close>

definition sent_ok :: "crates \<Rightarrow> node \<Rightarrow> signed_transaction list \<Rightarrow> bool" where
  "sent_ok L nd txs \<longleftrightarrow>
     published (n_effects nd) = map (to_rlp_bytes L) txs \<and>
     map tx_nonce txs = map of_nat [0..<length txs] \<and> own_nonce nd = of_nat (length txs) \<and>
     (\<forall>tx \<in> set txs. tx_wf tx \<and> tx_verify L tx = Inr () \<and> tx_from tx = own_address nd \<and>
        tx_hash L tx \<in> n_cache nd) \<and>
     (\<forall>p r. SendRequest p r \<in> set (n_effects nd) \<longrightarrow> tx_rlp r \<in> set (published (n_effects nd)))"

definition node_inv :: "crates \<Rightarrow> node \<Rightarrow> bool" where
  "node_inv L nd \<longleftrightarrow> crates_ok L \<and> node_wf L nd \<and> (\<exists>txs. sent_ok L nd txs)"

text \<open>Where a run of the program begins.\<close>

definition node_start :: "crates \<Rightarrow> host \<Rightarrow> cli \<Rightarrow> node \<Rightarrow> bool" where
  "node_start L H c nd \<longleftrightarrow>
     crates_ok L \<and> length (host_random H) = secret_key_length L \<and> main_init L H c = Ret (Inr nd)"

lemma no_tx_request: "no_tx es \<Longrightarrow> SendRequest p r \<notin> set es"
  by (force simp: no_tx_def)

lemma sent_ok_quiet:
  assumes "sent_ok L nd txs" "n_effects nd' = n_effects nd @ es" "no_tx es" "n_cache nd \<subseteq> n_cache nd'"
    and "own_nonce nd' = own_nonce nd" "own_address nd' = own_address nd"
  shows "sent_ok L nd' txs"
  using assms no_tx_request [OF assms(3)] by (auto simp: sent_ok_def)

lemma sent_ok_send:
  assumes "crates_ok L" "wallet_wf L (n_wallet nd)" "sent_ok L nd txs"
    and "length to = ADDRESS_LEN" "to \<noteq> own_address nd"
  shows "sent_ok L (after_send L W now to v nd) (txs @ [sent_tx L now nd to v])"
proof -
  let ?tx = "sent_tx L now nd to v" and ?nd = "after_send L W now to v nd"
  note ok = crates_okD [OF assms(1)]
  have "tx_wf ?tx" "tx_verify L ?tx = Inr ()"
    unfolding sent_tx_def
    by (rule tx_create_wf [OF ok(3,2) assms(2,4)], rule tx_create_verifies [OF ok(3) assms(2)])
  moreover have effs: "n_effects ?nd =
      n_effects nd @ direct_requests L nd ?tx @ Publish TX_TOPIC (to_rlp_bytes L ?tx) # map Println (send_report L W nd ?tx)"
    by (simp add: after_send_def Let_def)
  moreover have "\<forall>p r. SendRequest p r \<in> set (n_effects ?nd) \<longrightarrow> tx_rlp r \<in> set (published (n_effects ?nd))"
    using assms(3) unfolding effs by (auto simp: sent_ok_def direct_requests_def)
  moreover have "published (n_effects ?nd) = map (to_rlp_bytes L) (txs @ [?tx])"
    using assms(3) unfolding effs by (simp add: sent_ok_def)
  moreover have "own_nonce ?nd = of_nat (length (txs @ [?tx]))"
    using assms(3) after_send_own(1) [OF assms(5)] by (simp add: sent_ok_def)
  ultimately show ?thesis using assms(3) by (auto simp: sent_ok_def)
qed

lemma node_wf_quiet: "node_wf L nd \<Longrightarrow> quiet nd nd' \<Longrightarrow> node_wf L nd'"
  by (auto simp: node_wf_def quiet_def own_address_def)

lemma node_wf_credit:
  assumes "digest_ok L" "node_wf L nd" shows "node_wf L (credit_own v nd)"
proof -
  have "length (own_address nd) = ADDRESS_LEN"
    using assms wallet_wf_address_length by (auto simp: node_wf_def own_address_def wallet_address_def)
  then show ?thesis using assms(2) put_account_wf by (auto simp: node_wf_def ledger_balance_def)
qed

lemma node_wf_send:
  assumes "digest_ok L" "node_wf L nd" "length to = ADDRESS_LEN"
  shows "node_wf L (after_send L W now to v nd)"
proof -
  have "length (own_address nd) = ADDRESS_LEN"
    using assms wallet_wf_address_length by (auto simp: node_wf_def own_address_def wallet_address_def)
  then show ?thesis
    using assms put_account_wf
    by (auto simp: node_wf_def ledger_balance_def after_transfer_def Let_def)
qed

lemma node_wf_frame [simp]:
  "node_wf L (cache_tx h nd) = node_wf L nd" "node_wf L (emits es nd) = node_wf L nd"
  by (simp_all add: node_wf_def)

section \<open>Start-up and the reachable states\<close>

lemma dial_peers_Inr:
  "dial_peers H addrs es = Inr es' \<longleftrightarrow>
     es' = es @ map Dial addrs \<and>
     (\<forall>i < length addrs. host_dial H (es @ map Dial (take i addrs)) (addrs ! i) = Inr ())"
  by (induction addrs arbitrary: es)
    (auto simp: try_bind_Inr_iff with_context_iff less_Suc_eq_0_disj)

lemma unit_result_iff: "(case r of Inl e \<Rightarrow> x e | Inr _ \<Rightarrow> y) = (if r = Inr () then y else x (projl r))"
  for r :: "unit result"
  by (cases r) auto

lemma build_swarm_cases:
  "(\<exists>sw. build_swarm H = Ret (Inr sw)) \<longleftrightarrow>
     host_tcp H = Inr () \<and> host_dns H = Inr () \<and>
     (\<exists>b. build_behaviour (host_libp2p H) (host_identity H) (host_peer_id H (host_identity H)) = Inr b)"
  "build_swarm H = Panic \<longleftrightarrow>
     host_tcp H = Inr () \<and> host_dns H = Inr () \<and>
     (\<exists>e. build_behaviour (host_libp2p H) (host_identity H) (host_peer_id H (host_identity H)) = Inl e)"
  by (auto simp: build_swarm_def Let_def unit_result_iff split: sum.splits)

text \<open>The node at the entry of the loop.\<close>

definition first_node :: "cli \<Rightarrow> wallet \<Rightarrow> node" where
  "first_node c w =
     \<lparr>n_wallet = w, n_ledger = put_account (wallet_address w) \<lparr>balance = cli_balance c, nonce = 0\<rparr> ledger_new,
      n_cache = {}, n_peers = [], n_stdin_open = True,
      n_effects = ListenOn (cli_listen c) # map Dial (cli_peer c) @ (if cli_peer c = [] then [] else [KadBootstrap])\<rparr>"

definition network_up :: "host \<Rightarrow> cli \<Rightarrow> bool" where
  "network_up H c \<longleftrightarrow>
     host_listen H [] (cli_listen c) = Inr () \<and>
     (\<forall>i < length (cli_peer c).
        host_dial H (ListenOn (cli_listen c) # map Dial (take i (cli_peer c))) (cli_peer c ! i) = Inr ())"

lemma main_init_Inr:
  "main_init L H c = Ret (Inr nd) \<longleftrightarrow>
     (\<exists>w sw. open_wallet L H c = Inr w \<and> build_swarm H = Ret (Inr sw) \<and> network_up H c \<and> nd = first_node c w)"
  by (auto simp: main_init_def Let_def try_bind_Inr_iff with_context_iff dial_peers_Inr network_up_def first_node_def
      ledger_register_def ledger_new_def account_new_def put_account_def split: sum.splits run.splits)

lemma open_wallet_Inr:
  assumes "length (host_random H) = secret_key_length L" "open_wallet L H c = Inr w"
  shows "wallet_wf L w"
  using assms wallet_generate_wf from_secret_bytes_wf
  by (auto simp: open_wallet_def try_bind_Inr_iff split: option.splits)

lemma node_start_inv:
  assumes "node_start L H c nd" shows "node_inv L nd"
proof -
  obtain w where w: "open_wallet L H c = Inr w" "nd = first_node c w"
    using assms by (auto simp: node_start_def main_init_Inr)
  have ok: "crates_ok L" and "wallet_wf L w"
    using assms open_wallet_Inr w(1) by (auto simp: node_start_def)
  moreover from this have "length (wallet_address w) = ADDRESS_LEN"
    using wallet_wf_address_length crates_okD by (auto simp: wallet_address_def)
  moreover have "ledger_wf ledger_new" by (simp add: ledger_wf_def ledger_new_def map_wf_def)
  ultimately have "node_wf L nd"
    using put_account_wf
    by (auto simp: w(2) node_wf_def first_node_def own_address_def ledger_balance_def)
  moreover have "no_tx (n_effects nd)" by (auto simp: w(2) first_node_def no_tx_def)
  then have "sent_ok L nd []"
    using no_tx_request [of "n_effects nd"]
    by (auto simp: sent_ok_def own_nonce_def ledger_nonce_def w(2) first_node_def own_address_def)
  ultimately show ?thesis using ok by (auto simp: node_inv_def)
qed

lemma main_loop_inv:
  assumes "node_inv L nd" "main_loop L bp W nd i nd'" shows "node_inv L nd'"
proof -
  obtain txs where inv: "crates_ok L" "node_wf L nd" "sent_ok L nd txs" using assms(1) by (auto simp: node_inv_def)
  have w: "wallet_wf L (n_wallet nd)" using inv(2) by (simp add: node_wf_def)
  note ok = crates_okD [OF inv(1)]
  have "node_wf L nd' \<and> (\<exists>txs'. sent_ok L nd' txs')"
  proof (cases rule: main_loop_cases [OF ok(3) w assms(2)])
    case 1
    then obtain es where "n_effects nd' = n_effects nd @ es" "no_tx es" by (auto simp: quiet_def)
    with 1 have "sent_ok L nd' txs"
      by (intro sent_ok_quiet [OF inv(3)]) (auto simp: quiet_def own_nonce_def own_address_def)
    then show ?thesis using node_wf_quiet [OF inv(2) 1] by blast
  next
    case (2 h)
    then have "sent_ok L nd' txs" by (intro sent_ok_quiet [OF inv(3), of _ "[]"]) auto
    then show ?thesis using inv(2) 2 by auto
  next
    case (3 data tx es)
    then have "sent_ok L nd' txs" by (intro sent_ok_quiet [OF inv(3), of _ es]) auto
    then show ?thesis using node_wf_credit [OF ok(2) inv(2)] 3 by auto
  next
    case (4 now to amount)
    then have "to \<noteq> own_address nd" using transfer_error_own by blast
    then show ?thesis
      using sent_ok_send [OF inv(1) w inv(3) 4(2)] node_wf_send [OF ok(2) inv(2) 4(2)] 4(4) by blast
  qed
  then show ?thesis using inv(1) by (simp add: node_inv_def)
qed

lemma main_loop_wallet:
  assumes "node_inv L nd" "main_loop L bp W nd i nd'" shows "n_wallet nd' = n_wallet nd"
proof -
  have "ed25519_ok L" "wallet_wf L (n_wallet nd)"
    using assms(1) crates_okD by (auto simp: node_inv_def node_wf_def)
  from main_loop_cases [OF this assms(2)] show ?thesis by cases (simp_all add: quiet_def)
qed

interpretation event_loop: invariant_system "node_start L H c" "main_loop L bp W"
    "\<lambda>nd. node_inv L nd \<and> open_wallet L H c = Inr (n_wallet nd)" for L H c bp W
proof unfold_locales
  show "node_inv L nd \<and> open_wallet L H c = Inr (n_wallet nd)" if "node_start L H c nd" for nd
    using node_start_inv [OF that] that by (auto simp: node_start_def main_init_Inr first_node_def)
  show "node_inv L nd' \<and> open_wallet L H c = Inr (n_wallet nd')"
    if "node_inv L nd \<and> open_wallet L H c = Inr (n_wallet nd)" "main_loop L bp W nd i nd'" for nd i nd'
    using that main_loop_inv main_loop_wallet by (metis (no_types))
qed

section \<open>Accounting over a run\<close>

text \<open>What an input earns the node, and what it spends, read off the input and the state before it.\<close>

fun income :: "crates \<Rightarrow> node \<Rightarrow> loop_input \<Rightarrow> u64" where
  "income L nd (SwarmEvent (Behaviour (Gossipsub (GossipMessage src mid data)))) =
     (case payable L nd data of None \<Rightarrow> 0 | Some tx \<Rightarrow> if tx_hash L tx \<in> n_cache nd then 0 else tx_amount tx)"
| "income L nd (SwarmEvent (Behaviour (Transfer (RequestMessage peer req ch)))) =
     (case payable L nd (tx_rlp req) of None \<Rightarrow> 0 | Some tx \<Rightarrow> tx_amount tx)"
| "income L nd _ = 0"

definition accepted_send :: "crates \<Rightarrow> node \<Rightarrow> loop_input \<Rightarrow> (address \<times> u64) option" where
  "accepted_send L nd i =
     (case i of
        Stdin now (Line line) \<Rightarrow>
          (case split_whitespace line of
             [c, a, t] \<Rightarrow>
               if n_stdin_open nd \<and> c \<in> send_words \<and> send_refusal L nd [c, a, t] = None
               then (case (address_from_hex L a, parse_u64 t) of (Inr to, Some v) \<Rightarrow> Some (to, v) | _ \<Rightarrow> None)
               else None
           | _ \<Rightarrow> None)
      | _ \<Rightarrow> None)"

definition spending :: "crates \<Rightarrow> node \<Rightarrow> loop_input \<Rightarrow> u64" where
  "spending L nd i = (case accepted_send L nd i of None \<Rightarrow> 0 | Some (to, v) \<Rightarrow> v)"

definition nonce_used :: "crates \<Rightarrow> node \<Rightarrow> loop_input \<Rightarrow> nat" where
  "nonce_used L nd i = (case accepted_send L nd i of None \<Rightarrow> 0 | Some _ \<Rightarrow> 1)"

lemma accepted_send_other [simp]:
  "accepted_send L nd (SwarmEvent ev) = None" "accepted_send L nd (Stdin now Eof) = None"
  "accepted_send L nd (Stdin now (ReadError e)) = None"
  by (simp_all add: accepted_send_def)

lemma own_cong:
  "n_wallet nd' = n_wallet nd \<Longrightarrow> n_ledger nd' = n_ledger nd \<Longrightarrow>
   own_balance nd' = own_balance nd \<and> own_nonce nd' = own_nonce nd"
  by (simp add: own_balance_def own_nonce_def own_address_def)

lemma quiet_own: "quiet nd nd' \<Longrightarrow> own_balance nd' = own_balance nd \<and> own_nonce nd' = own_nonce nd"
  by (intro own_cong) (auto simp: quiet_def)

lemma event_accounts:
  assumes "handle_behaviour_event L bp ev nd = (nd', Ret ())"
  shows "own_balance nd' = own_balance nd + income L nd (SwarmEvent (Behaviour ev)) \<and> own_nonce nd' = own_nonce nd"
  using assms quiet_own [OF quiet_discovery(1)] quiet_own [OF quiet_discovery(2)] quiet_own [OF quiet_response]
  by (cases "(L, bp, ev, nd)" rule: handle_behaviour_event.cases)
    (auto simp: on_gossip_eq on_transfer_request_eq dest: payable_SomeD split: option.splits if_splits)

lemma command_outcome:
  assumes "ed25519_ok L" "wallet_wf L (n_wallet nd)" "n_stdin_open nd"
    and "handle_command L bp W now line nd = (nd', Ret ())"
  obtains (none) "accepted_send L nd (Stdin now (Line line)) = None" "quiet nd nd'"
  | (accepted) to v where "accepted_send L nd (Stdin now (Line line)) = Some (to, v)" "length to = ADDRESS_LEN"
      "transfer_error (n_ledger nd) (own_address nd) to v (own_nonce nd) = None" "nd' = after_send L W now to v nd" "send_fits bp nd to v"
proof (cases rule: handle_command_cases [of line L bp W now nd])
  case query
  have "accepted_send L nd (Stdin now (Line line)) = None"
    using query(1) by (auto simp: accepted_send_def split: list.split)
  then show thesis using none query assms(4) by simp
next
  case (pay c args)
  note sel = pay(1,2) assms(3)
  show thesis
  proof (cases "send_refusal L nd (c # args)")
    case (Some msg)
    then have "accepted_send L nd (Stdin now (Line line)) = None"
      using sel by (auto simp: accepted_send_def split: list.split)
    moreover have "nd' = emits [Println msg] nd"
      using cmd_send_refused [OF assms(1,2) Some, of bp W now] pay(3) assms(4) by simp
    ultimately show thesis using none quiet_emits [of "[Println msg]" nd] by simp
  next
    case None
    then have "length (c # args) = 3" by (simp add: send_refusal_def split: if_splits)
    then obtain a t where args: "args = [a, t]" using length_3E [of "c # args"] by auto
    with None obtain to v where ta: "address_from_hex L a = Inr to" "parse_u64 t = Some v"
      by (auto simp: send_refusal_def split: sum.splits option.splits)
    note err = None [unfolded args send_refusal_None [OF ta]]
    have acc: "accepted_send L nd (Stdin now (Line line)) = Some (to, v)"
      using sel None args ta by (simp add: accepted_send_def)
    have "snd (cmd_send L bp W now [c, a, t] nd) = Ret ()" using pay(3) [symmetric] assms(4) args by simp
    then have fits: "send_fits bp nd to v" using cmd_send_accepted(2) [OF assms(1,2) ta err, of bp W now c] by fastforce
    have "nd' = after_send L W now to v nd"
      using cmd_send_accepted(1) [OF assms(1,2) ta err fits, of W now c] pay(3) [symmetric] assms(4) args by simp
    then show thesis by (rule accepted [OF acc address_from_hex_length [OF ta(1)] err _ fits])
  qed
qed

lemma send_accounts:
  assumes "ed25519_ok L" "wallet_wf L (n_wallet nd)" "n_stdin_open nd"
    and "handle_command L bp W now line nd = (nd', Ret ())"
  shows "own_balance nd' = own_balance nd - spending L nd (Stdin now (Line line)) \<and>
    own_nonce nd' = own_nonce nd + of_nat (nonce_used L nd (Stdin now (Line line)))"
proof (cases rule: command_outcome [OF assms])
  case 1
  then show ?thesis using quiet_own [of nd nd'] by (simp add: spending_def nonce_used_def)
next
  case (2 to v)
  then have "to \<noteq> own_address nd" using transfer_error_own by blast
  then show ?thesis using 2 after_send_own [of to nd L W now v] by (simp add: spending_def nonce_used_def)
qed

lemma turn_accounts:
  assumes "node_inv L nd" "main_exec L bp W nd i = Ret nd'"
  shows "own_balance nd' = own_balance nd + income L nd i - spending L nd i \<and>
    own_nonce nd' = own_nonce nd + of_nat (nonce_used L nd i)"
proof -
  have ok: "ed25519_ok L" "wallet_wf L (n_wallet nd)"
    using assms(1) crates_okD by (auto simp: node_inv_def node_wf_def)
  consider (off) "\<not> input_enabled nd i" "nd' = nd" | (on) "input_enabled nd i" "main_turn L bp W nd i = (nd', Ret ())"
    using assms(2) by (auto simp: main_exec_Ret main_loop_iff)
  then show ?thesis
  proof cases
    case off
    then have "accepted_send L nd i = None" by (auto simp: accepted_send_def split: loop_input.split stdin_result.split list.split)
    moreover from off have "income L nd i = 0" by (cases i) auto
    ultimately show ?thesis using off by (simp add: spending_def nonce_used_def)
  next
    case on
    show ?thesis
    proof (cases i)
      case (Stdin now r)
      with on send_accounts [OF ok] own_cong [of nd' nd] show ?thesis
        by (cases r) (auto simp: spending_def nonce_used_def)
    next
      case (SwarmEvent ev)
      with on event_accounts [of L bp _ nd nd'] quiet_own [OF quiet_connection(1)] quiet_own [OF quiet_connection(2)]
      show ?thesis by (cases ev) (auto simp: spending_def nonce_used_def)
    qed
  qed
qed

lemma exec_inv: "node_inv L nd \<Longrightarrow> main_exec L bp W nd i = Ret nd' \<Longrightarrow> node_inv L nd'"
  using main_loop_inv by (auto simp: main_exec_Ret)

text \<open>A quantity summed over the states and inputs of a run.\<close>

fun over_run :: "(node \<Rightarrow> loop_input \<Rightarrow> 'a :: monoid_add) \<Rightarrow> (node \<Rightarrow> loop_input \<Rightarrow> node run) \<Rightarrow> node \<Rightarrow> loop_input list \<Rightarrow> 'a" where
  "over_run q exec nd [] = 0"
| "over_run q exec nd (i # is) =
     q nd i + (case exec nd i of Panic \<Rightarrow> 0 | Ret nd' \<Rightarrow> over_run q exec nd' is)"

text \<open>
  C3: The books balance: over any run of the event loop, from any state the program can be in, the own
  balance is the initial one plus the payments received (gossip counted only when new) minus the
  accepted sends, in 64-bit arithmetic, and the own nonce has advanced by exactly the number of
  accepted sends. Nothing else, neither discovery nor responses nor queries nor invalid messages, moves either.
\<close>

theorem run_accounts:
  assumes "node_inv L nd" "run_ops (main_exec L bp W) nd is = Ret nd'"
  shows "own_balance nd' = own_balance nd + over_run (income L) (main_exec L bp W) nd is
        - over_run (spending L) (main_exec L bp W) nd is \<and>
      own_nonce nd' = own_nonce nd + of_nat (over_run (nonce_used L) (main_exec L bp W) nd is)"
  using assms
proof (induction "is" arbitrary: nd)
  case (Cons i "is")
  then obtain nd1 where nd1: "main_exec L bp W nd i = Ret nd1" "run_ops (main_exec L bp W) nd1 is = Ret nd'"
    by (auto split: run.splits)
  from Cons.IH [OF exec_inv [OF Cons.prems(1) nd1(1)] nd1(2)] turn_accounts [OF Cons.prems(1) nd1(1)]
  show ?case by (simp add: nd1(1) algebra_simps)
qed simp

section \<open>Properties of the program\<close>

definition wallet_opens :: "crates \<Rightarrow> cli \<Rightarrow> bool" where
  "wallet_opens L c \<longleftrightarrow>
     (case cli_secret_key c of
        None \<Rightarrow> True
      | Some k \<Rightarrow> (\<exists>b. hex_decode L k = Some b \<and> length b = secret_key_length L))"

lemma wallet_opens_iff: "wallet_opens L c \<longleftrightarrow> (\<exists>w. open_wallet L H c = Inr w)"
  by (auto simp: wallet_opens_def open_wallet_def from_secret_bytes_def Let_def try_bind_Inr_iff with_context_iff
      ok_or_iff split: option.splits)

definition swarm_builds :: "host \<Rightarrow> bool" where
  "swarm_builds H \<longleftrightarrow>
     host_tcp H = Inr () \<and> host_dns H = Inr () \<and>
     behaviour_error (host_libp2p H) (host_identity H) (host_peer_id H (host_identity H)) = None"

lemma behaviour_error_iff:
  "behaviour_error P k p = None \<longleftrightarrow> (\<exists>b. build_behaviour P k p = Inr b)"
  by (auto simp: behaviour_error_def build_behaviour_def Let_def split: option.split)

lemma is_Inl_iff: "(\<exists>e. r = Inl e) \<longleftrightarrow> \<not> (\<exists>b. r = Inr b)"
  by (cases r) auto

text \<open>
  C31: The program enters its loop exactly when the wallet opens (no key given, or one that is hexadecimal and of
  the right length), the transports and the behaviour are built, it can listen, and every peer given can be
  dialled in turn. It panics exactly when the wallet opens and the transports work but the
  behaviour cannot be built; in every other case it ends with an error. At the entry of the loop
  the ledger holds one account, the own one, with the balance of the command line and nonce
  zero, no hash is remembered, no peer is connected, and the swarm has been told to listen, to
  dial each peer and, if there is one, to bootstrap.
\<close>

theorem start_up:
  "((\<exists>nd. main_init L H c = Ret (Inr nd)) \<longleftrightarrow> wallet_opens L c \<and> swarm_builds H \<and> network_up H c) \<and>
   (main_init L H c = Panic \<longleftrightarrow>
      wallet_opens L c \<and> host_tcp H = Inr () \<and> host_dns H = Inr () \<and> \<not> swarm_builds H) \<and>
   (\<forall>nd. main_init L H c = Ret (Inr nd) \<longrightarrow>
      accounts (n_ledger nd) = [(own_address nd, \<lparr>balance = cli_balance c, nonce = 0\<rparr>)] \<and>
      n_cache nd = {} \<and> n_peers nd = [] \<and> n_stdin_open nd \<and>
      n_effects nd = ListenOn (cli_listen c) # map Dial (cli_peer c) @ (if cli_peer c = [] then [] else [KadBootstrap]))"
proof -
  have "(\<exists>nd. main_init L H c = Ret (Inr nd)) \<longleftrightarrow> wallet_opens L c \<and> swarm_builds H \<and> network_up H c"
    using build_swarm_cases(1) [of H]
    by (auto simp: main_init_Inr wallet_opens_iff [of L c H] swarm_builds_def behaviour_error_iff)
  moreover have "main_init L H c = Panic \<longleftrightarrow> wallet_opens L c \<and> build_swarm H = Panic"
    by (auto simp: main_init_def wallet_opens_iff [of L c H] Let_def split: sum.splits run.splits)
  then have "main_init L H c = Panic \<longleftrightarrow>
     wallet_opens L c \<and> host_tcp H = Inr () \<and> host_dns H = Inr () \<and> \<not> swarm_builds H"
    using build_swarm_cases(2) [of H] by (auto simp: swarm_builds_def behaviour_error_iff is_Inl_iff)
  ultimately show ?thesis
    by (auto simp: main_init_Inr first_node_def own_address_def put_account_def ledger_new_def)
qed

text \<open>
  In every state the program can reach, in either build and whatever the network and the user do, the
  wallet is the one opened at start-up, its address derived from its key, the ledger has one entry
  per 20-byte address and includes the own account, and the connected peers are listed once each.
\<close>

theorem reachable_node_wf:
  assumes "reach (node_start L H c) (main_loop L bp W) nd"
  shows "open_wallet L H c = Inr (n_wallet nd) \<and> wallet_wf L (n_wallet nd) \<and> ledger_wf (n_ledger nd) \<and>
    ledger_balance (n_ledger nd) (own_address nd) \<noteq> None \<and> distinct (n_peers nd)"
  using event_loop.reach_inv [OF assms] by (simp add: node_inv_def node_wf_def)

text \<open>
  C7: In every state the program can reach, what it has published decodes, in order, to transactions of its
  own with the nonces 0, 1, 2 and so on, all of them valid, and every direct request carried the
  bytes of one of them. Their number is the own nonce (modulo 2 to the 64). When one of them comes back by
  gossip it is ignored.
\<close>

theorem published_transactions:
  assumes "reach (node_start L H c) (main_loop L bp W) nd"
  shows "\<exists>txs. map (from_rlp_bytes L) (published (n_effects nd)) = map Inr txs \<and>
    map tx_nonce txs = map of_nat [0..<length txs] \<and> own_nonce nd = of_nat (length txs) \<and>
    (\<forall>tx \<in> set txs. tx_verify L tx = Inr () \<and> tx_from tx = own_address nd) \<and>
    (\<forall>p r. SendRequest p r \<in> set (n_effects nd) \<longrightarrow> tx_rlp r \<in> set (published (n_effects nd))) \<and>
    (\<forall>d \<in> set (published (n_effects nd)). on_gossip L bp d nd = (nd, Ret ()))"
proof -
  obtain txs where inv: "crates_ok L" "sent_ok L nd txs"
    using event_loop.reach_inv [OF assms] by (auto simp: node_inv_def)
  have dec: "from_rlp_bytes L (to_rlp_bytes L tx) = Inr tx" if "tx \<in> set txs" for tx
    using that inv from_rlp_bytes_encode crates_okD by (auto simp: sent_ok_def)
  have "on_gossip L bp (to_rlp_bytes L tx) nd = (nd, Ret ())" if "tx \<in> set txs" for tx
    using dec [OF that] inv(2) that by (auto simp: sent_ok_def on_gossip_eq valid_hash_def)
  moreover have "map (from_rlp_bytes L) (published (n_effects nd)) = map Inr txs"
    using inv(2) dec by (simp add: sent_ok_def)
  ultimately show ?thesis using inv(2) by (intro exI [of _ txs]) (auto simp: sent_ok_def)
qed

text \<open>The connected peers are touched by connection events alone.\<close>

fun peers_after :: "loop_input \<Rightarrow> peer_id list \<Rightarrow> peer_id list" where
  "peers_after (SwarmEvent (ConnectionEstablished pid remote)) ps = List.insert pid ps"
| "peers_after (SwarmEvent (ConnectionClosed pid)) ps = removeAll pid ps"
| "peers_after _ ps = ps"

lemma quiet_peers:
  "n_peers (on_identify pid addrs nd) = n_peers nd" "n_peers (on_mdns_discovered ps nd) = n_peers nd"
  "n_peers (on_transfer_response r nd) = n_peers nd"
  by (simp_all add: on_identify_def on_mdns_discovered_def on_transfer_response_def emit_emits fold_emits case_prod_unfold)

lemma command_peers: "n_peers (fst (handle_command L bp W now line nd)) = n_peers nd"
proof -
  have send: "n_peers (fst (cmd_send L bp W now parts nd)) = n_peers nd" for parts
    by (simp add: cmd_send_def broadcast_tx_def send_direct_eq Let_def
        split: sum.split option.split run.split prod.split)
  have query: "n_peers nd' = n_peers nd" if "\<exists>ss. nd' = emits (map Println ss) nd" for nd' using that by auto
  show ?thesis
    using send query_emits [THEN query]
    by (simp add: handle_command_def Let_def split: list.split)
qed

lemma turn_peers:
  assumes "main_exec L bp W nd i = Ret nd'" shows "n_peers nd' = peers_after i (n_peers nd)"
proof -
  have event: "n_peers m = n_peers nd" if "handle_behaviour_event L bp ev nd = (m, Ret ())" for ev m
    using that
    by (cases "(L, bp, ev, nd)" rule: handle_behaviour_event.cases)
      (auto simp: quiet_peers on_gossip_eq on_transfer_request_eq split: option.splits if_splits)
  have line: "n_peers m = n_peers nd" if "handle_command L bp W now l nd = (m, Ret ())" for now l m
    using that command_peers [of L bp W now l nd] by simp
  have stdin: "n_peers m = n_peers nd" if "on_stdin L bp W now r nd = (m, Ret ())" for now r m
    using that line by (cases r) auto
  have swarm: "n_peers m = peers_after (SwarmEvent ev) (n_peers nd)" if "on_swarm_event L bp ev nd = (m, Ret ())" for ev m
    using that event by (cases ev) (auto simp: on_connection_established_def on_connection_closed_def)
  from assms stdin swarm show ?thesis
    by (cases i) (auto simp: main_exec_Ret main_loop_iff)
qed

definition connects :: "peer_id \<Rightarrow> loop_input \<Rightarrow> bool" where
  "connects p i \<longleftrightarrow> (\<exists>remote. i = SwarmEvent (ConnectionEstablished p remote))"

definition disconnects :: "peer_id \<Rightarrow> loop_input \<Rightarrow> bool" where
  "disconnects p i \<longleftrightarrow> i = SwarmEvent (ConnectionClosed p)"

lemma peers_after_mem:
  "p \<in> set (peers_after i ps) \<longleftrightarrow> connects p i \<or> (p \<in> set ps \<and> \<not> disconnects p i)"
  by (cases "(i, ps)" rule: peers_after.cases) (auto simp: connects_def disconnects_def)

text \<open>A connection is established and none is closed from there on.\<close>

definition linked_by :: "peer_id \<Rightarrow> loop_input list \<Rightarrow> bool" where
  "linked_by p is \<longleftrightarrow> (\<exists>ys i zs. is = ys @ i # zs \<and> connects p i \<and> (\<forall>z \<in> set zs. \<not> disconnects p z))"

lemma linked_by_Cons:
  "linked_by p (i # is) \<longleftrightarrow> linked_by p is \<or> (connects p i \<and> (\<forall>z \<in> set is. \<not> disconnects p z))"
proof
  assume "linked_by p (i # is)"
  then show "linked_by p is \<or> (connects p i \<and> (\<forall>z \<in> set is. \<not> disconnects p z))"
    by (auto simp: linked_by_def Cons_eq_append_conv)
next
  assume "linked_by p is \<or> (connects p i \<and> (\<forall>z \<in> set is. \<not> disconnects p z))"
  then show "linked_by p (i # is)"
    unfolding linked_by_def by (metis append_Cons append_Nil)
qed

text \<open>
  C32: After any run a peer is among those a \<open>send\<close> contacts directly exactly when a connection to it was
  established and no connection to it has been closed since, or it was there at the beginning and none was
  closed. One closed connection is enough to drop a peer, however many were established.
\<close>

theorem connected_peers_tracked:
  assumes "run_ops (main_exec L bp W) nd is = Ret nd'"
  shows "p \<in> set (n_peers nd') \<longleftrightarrow>
    linked_by p is \<or> (p \<in> set (n_peers nd) \<and> (\<forall>z \<in> set is. \<not> disconnects p z))"
  using assms
proof (induction "is" arbitrary: nd)
  case (Cons i "is")
  then obtain nd1 where nd1: "main_exec L bp W nd i = Ret nd1" "run_ops (main_exec L bp W) nd1 is = Ret nd'"
    by (auto split: run.splits)
  have mem: "p \<in> set (n_peers nd1) \<longleftrightarrow> connects p i \<or> (p \<in> set (n_peers nd) \<and> \<not> disconnects p i)"
    using turn_peers [OF nd1(1)] by (simp add: peers_after_mem)
  show ?case
    unfolding Cons.IH [OF nd1(2)] mem linked_by_Cons by auto
qed (simp add: linked_by_def)

text \<open>
  Once standard input has ended it never comes back, and from then on the node only receives: whatever
  happens, no transaction is published or sent to a peer any more, the nonce stays, and every account but the
  own one keeps its state.
\<close>

theorem closed_stdin_only_receives:
  assumes "node_inv L nd" "\<not> n_stdin_open nd" "run_ops (main_exec L bp W) nd is = Ret nd'"
  shows "\<not> n_stdin_open nd' \<and> (\<exists>es. n_effects nd' = n_effects nd @ es \<and> no_tx es) \<and> own_nonce nd' = own_nonce nd \<and>
    own_address nd' = own_address nd \<and>
    (\<forall>a. a \<noteq> own_address nd \<longrightarrow> map_of (accounts (n_ledger nd')) a = map_of (accounts (n_ledger nd)) a)"
  using assms
proof (induction "is" arbitrary: nd)
  case (Cons i "is")
  then obtain nd1 where nd1: "main_exec L bp W nd i = Ret nd1" "run_ops (main_exec L bp W) nd1 is = Ret nd'"
    by (auto split: run.splits)
  have ok: "ed25519_ok L" "wallet_wf L (n_wallet nd)"
    using Cons.prems(1) crates_okD by (auto simp: node_inv_def node_wf_def)
  have one: "\<not> n_stdin_open nd1 \<and> (\<exists>es. n_effects nd1 = n_effects nd @ es \<and> no_tx es) \<and> own_nonce nd1 = own_nonce nd \<and>
    own_address nd1 = own_address nd \<and>
    (\<forall>a. a \<noteq> own_address nd \<longrightarrow> map_of (accounts (n_ledger nd1)) a = map_of (accounts (n_ledger nd)) a)"
  proof (cases "main_loop L bp W nd i nd1")
    case True
    show ?thesis
    proof (cases rule: main_loop_cases [OF ok True])
      case 1
      with Cons.prems(2) quiet_own [OF 1] show ?thesis by (auto simp: quiet_def own_address_def)
    qed (use Cons.prems(2) in auto)
  next
    case False
    then show ?thesis using nd1(1) Cons.prems(2) by (simp add: main_exec_Ret)
  qed
  with Cons.IH [OF exec_inv [OF Cons.prems(1) nd1(1)] _ nd1(2)]
  show ?case by (metis append_assoc no_tx_simps(3))
qed simp

section \<open>Instances\<close>

definition example_host :: host where
  "example_host =
     \<lparr>host_random = replicate 32 7, host_identity = replicate 32 1, host_peer_id = (\<lambda>_. ''me''),
      host_tcp = Inr (), host_dns = Inr (),
      host_libp2p = \<lparr>gossip_config_builds = (\<lambda>_. True), gossip_behaviour_error = (\<lambda>_ _. None),
        gossip_subscribes = (\<lambda>_. True), mdns_starts = (\<lambda>_. True)\<rparr>,
      host_listen = (\<lambda>_ _. Inr ()), host_dial = (\<lambda>_ _. Inr ())\<rparr>"

definition example_start :: node where
  "example_start = first_node cli_default (example_wallet 7)"

lemma example_start: "node_start ref_crates example_host cli_default example_start"
proof -
  have "open_wallet ref_crates example_host cli_default = Inr (example_wallet 7)"
    by (simp add: open_wallet_def cli_default_def example_host_def example_wallet_def)
  moreover have "\<exists>sw. build_swarm example_host = Ret (Inr sw)"
    by (simp add: build_swarm_def build_behaviour_def example_host_def Let_def)
  moreover have "network_up example_host cli_default" by (simp add: network_up_def example_host_def cli_default_def)
  ultimately show ?thesis
    using ref_crates_ok
    by (auto simp: node_start_def main_init_Inr example_start_def) (simp add: example_host_def ref_crates_def)
qed

lemma example_start_own:
  "n_wallet example_start = example_wallet 7" "own_address example_start = own_address (example_node 7)"
  "map_of (accounts (n_ledger example_start)) (own_address example_start) = Some \<lparr>balance = 1000, nonce = 0\<rparr>"
  "n_effects example_start = [ListenOn ''/ip4/0.0.0.0/tcp/0'']" "n_stdin_open example_start" "n_peers example_start = []"
  by (simp_all add: example_start_def first_node_def own_address_def cli_default_def example_node_def)

lemma example_start_send:
  "main_loop ref_crates bp W example_start (Stdin 1 (Line example_line))
     (after_send ref_crates W 1 (own_address (example_node 8)) 5 example_start)"
proof -
  have nonce: "own_nonce example_start = 0" using own_nonce_lookup [OF example_start_own(3)] by simp
  have other: "own_address example_start \<noteq> own_address (example_node 8)"
    by (simp add: example_start_own(2) example_node_own(1))
  have err: "transfer_error (n_ledger example_start) (own_address example_start) (own_address (example_node 8)) 5
      (own_nonce example_start) = None"
    using nonce other example_start_own(3) by (simp add: transfer_error_None word_le_nat_alt)
  have "map_of (accounts (n_ledger example_start)) (own_address (example_node 8)) = None"
    using other by (simp add: example_start_def first_node_def own_address_def ledger_new_def put_account_def)
  then have fits: "send_fits bp example_start (own_address (example_node 8)) 5"
    by (simp add: send_fits_def nonce funds_def ledger_balance_def)
  have "wallet_wf ref_crates (n_wallet example_start)" by (simp add: example_start_own(1) example_wallet_wf)
  from cmd_send_accepted(1) [OF ref_laws(3) this example_send(3,4) err fits] show ?thesis
    using handle_command_send [OF example_send(1,2)] example_start_own(5) by (simp add: main_loop_iff)
qed

lemma example_reached:
  "reach (node_start ref_crates example_host cli_default) (main_loop ref_crates Release example_swarm)
     (after_send ref_crates example_swarm 1 (own_address (example_node 8)) 5 example_start)"
  by (rule reach_step, rule reach_init, rule example_start, rule example_start_send)

theorem start_up_witness:
  "\<exists>nd. main_init ref_crates example_host cli_default = Ret (Inr nd) \<and>
     n_effects nd = [ListenOn ''/ip4/0.0.0.0/tcp/0''] \<and>
     accounts (n_ledger nd) = [(own_address nd, \<lparr>balance = 1000, nonce = 0\<rparr>)]"
proof -
  have "main_init ref_crates example_host cli_default = Ret (Inr example_start)"
    using example_start by (simp add: node_start_def)
  with start_up [of ref_crates example_host cli_default] show ?thesis by (auto simp: cli_default_def)
qed

theorem reachable_node_wf_witness:
  "ledger_wf (n_ledger (after_send ref_crates example_swarm 1 (own_address (example_node 8)) 5 example_start)) \<and>
   distinct (n_peers (after_send ref_crates example_swarm 1 (own_address (example_node 8)) 5 example_start))"
  using reachable_node_wf [OF example_reached] by blast

theorem published_transactions_witness:
  "\<exists>tx. map (from_rlp_bytes ref_crates) (published (n_effects
       (after_send ref_crates example_swarm 1 (own_address (example_node 8)) 5 example_start))) = [Inr tx] \<and>
     tx_nonce tx = 0"
proof -
  let ?nd = "after_send ref_crates example_swarm 1 (own_address (example_node 8)) 5 example_start"
  have one: "length (published (n_effects ?nd)) = 1"
    by (simp add: after_send_def Let_def example_start_own(4))
  obtain txs where txs: "map (from_rlp_bytes ref_crates) (published (n_effects ?nd)) = map Inr txs"
      "map tx_nonce txs = map of_nat [0..<length txs]"
    using published_transactions [OF example_reached] by blast
  have "length txs = 1" using arg_cong [OF txs(1), of length] one by simp
  then obtain tx where "txs = [tx]" by (auto simp: length_Suc_conv)
  with txs show ?thesis by auto
qed

lemma example_node_inv: "node_inv ref_crates (example_node b)"
proof -
  have "sent_ok ref_crates (example_node b) []" by (simp add: sent_ok_def example_node_own)
  moreover have "length (address (example_wallet b)) = ADDRESS_LEN"
    by (rule wallet_wf_address_length [OF ref_laws(2) example_wallet_wf])
  then have "node_wf ref_crates (example_node b)"
    using example_node_own(6) [of b]
    by (simp add: node_wf_def example_node_wf example_node_own(4) ledger_balance_def)
      (simp add: example_node_def ledger_wf_def ledger_register_def ledger_new_def map_wf_def wallet_address_def)
  ultimately show ?thesis using ref_crates_ok by (auto simp: node_inv_def)
qed

definition example_gossip :: loop_input where
  "example_gossip = SwarmEvent (Behaviour (Gossipsub (GossipMessage ''p'' ''m'' example_bytes)))"

lemma example_gossip_turn:
  obtains nd' where "main_exec ref_crates Debug W ((example_node 8)\<lparr>n_stdin_open := open\<rparr>) example_gossip = Ret nd'"
proof -
  let ?nd = "(example_node 8)\<lparr>n_stdin_open := open\<rparr>"
  have "payable ref_crates ?nd example_bytes = Some example_payment"
    using example_payable(1) payable_cong [of ?nd "example_node 8" ref_crates] by simp
  moreover have "\<not> credit_overflows Debug 5 ?nd"
    using example_no_overflow [of Debug] by (simp add: credit_overflows_def own_address_def)
  moreover have "n_cache ?nd = {}" by (simp add: example_node_def)
  ultimately have "\<exists>nd'. on_gossip ref_crates Debug example_bytes ?nd = (nd', Ret ())"
    using payable_SomeD [OF example_payable(1)] by (simp add: on_gossip_eq example_payable(2))
  then show thesis using that by (auto simp: main_exec_def example_gossip_def)
qed

theorem run_accounts_witness:
  "\<exists>nd'. run_ops (main_exec ref_crates Debug example_swarm) (example_node 8) [example_gossip] = Ret nd' \<and>
     own_balance nd' = 105 \<and> own_nonce nd' = 0"
proof -
  obtain nd' where "main_exec ref_crates Debug example_swarm (example_node 8) example_gossip = Ret nd'"
    using example_gossip_turn [of example_swarm True] by (auto simp: example_node_def)
  then have run: "run_ops (main_exec ref_crates Debug example_swarm) (example_node 8) [example_gossip] = Ret nd'" by simp
  have "income ref_crates (example_node 8) example_gossip = 5"
    by (simp add: example_gossip_def example_payable) (simp add: example_node_def)
  with run_accounts [OF example_node_inv run] run show ?thesis
    by (simp add: example_node_own spending_def nonce_used_def example_gossip_def split: run.splits)
qed

theorem connected_peers_tracked_witness:
  "\<exists>nd'. run_ops (main_exec ref_crates Debug example_swarm) (example_node 8)
       [SwarmEvent (ConnectionEstablished ''q'' ''a''), SwarmEvent (ConnectionEstablished ''q'' ''b''),
        SwarmEvent (ConnectionClosed ''q'')] = Ret nd' \<and>
     ''q'' \<notin> set (n_peers nd') \<and> ''p'' \<in> set (n_peers nd')"
proof -
  let ?is = "[SwarmEvent (ConnectionEstablished ''q'' ''a''), SwarmEvent (ConnectionEstablished ''q'' ''b''),
        SwarmEvent (ConnectionClosed ''q'')]"
  obtain nd' where run: "run_ops (main_exec ref_crates Debug example_swarm) (example_node 8) ?is = Ret nd'"
    by (simp add: main_exec_def)
  have "\<not> linked_by ''q'' ?is" by (simp add: linked_by_Cons connects_def disconnects_def) (simp add: linked_by_def)
  then show ?thesis
    using run connected_peers_tracked [OF run, of "''q''"] connected_peers_tracked [OF run, of "''p''"]
    by (auto simp: example_node_own(4) disconnects_def)
qed

theorem closed_stdin_only_receives_witness:
  "\<exists>nd'. run_ops (main_exec ref_crates Debug example_swarm) ((example_node 8)\<lparr>n_stdin_open := False\<rparr>)
       [example_gossip, Stdin 1 (Line example_line)] = Ret nd' \<and> \<not> n_stdin_open nd' \<and> own_nonce nd' = 0"
proof -
  let ?nd = "(example_node 8)\<lparr>n_stdin_open := False\<rparr>"
  have same: "own_address ?nd = own_address (example_node 8)" "own_nonce ?nd = own_nonce (example_node 8)"
    by (simp_all add: own_address_def own_nonce_def)
  have inv: "node_inv ref_crates ?nd"
    using example_node_inv [of 8] by (simp add: node_inv_def node_wf_def sent_ok_def same)
  obtain nd1 where one: "main_exec ref_crates Debug example_swarm ?nd example_gossip = Ret nd1"
    by (rule example_gossip_turn)
  have first: "run_ops (main_exec ref_crates Debug example_swarm) ?nd [example_gossip] = Ret nd1" using one by simp
  have "\<not> n_stdin_open nd1" using closed_stdin_only_receives [OF inv _ first] by simp
  then have "run_ops (main_exec ref_crates Debug example_swarm) ?nd [example_gossip, Stdin 1 (Line example_line)] = Ret nd1"
    using one by (simp add: main_exec_def [of _ _ _ nd1])
  then show ?thesis using closed_stdin_only_receives [OF inv _ first] by (simp add: same example_node_own(3))
qed

end
