(* ===== verification/Cluster.thy ===== *)
theory Cluster
  imports Event_Loop
begin

text \<open>
  A network of any number of nodes, each running the event loop of \<^verbatim>\<open>main.rs\<close>. What a node hands to its swarm goes to
  the network: published bytes may reach any node at any time and any number of times; a direct request
  reaches the node of its peer identifier at most once, and may be lost. Everything else a node can
  meet (typed lines, connections, discovery, responses) happens in any order. Two counters record, for the
  statements only, what the nodes have sent and what was credited for direct requests. Shown: gossip
  alone never creates money, and with direct requests every payment counts at most twice.
\<close>

section \<open>The network\<close>

record cluster =
  cl_nodes :: "(peer_id \<times> node) list"
  cl_gossip :: "bytes list"
  cl_requests :: "(peer_id \<times> transfer_request) list"
  cl_sent :: nat
  cl_direct :: nat

fun requested :: "effect list \<Rightarrow> (peer_id \<times> transfer_request) list" where
  "requested [] = []"
| "requested (SendRequest p r # es) = (p, r) # requested es"
| "requested (_ # es) = requested es"

definition new_effects :: "node \<Rightarrow> node \<Rightarrow> effect list" where
  "new_effects nd nd' = drop (length (n_effects nd)) (n_effects nd')"

definition node_turn :: "nat \<Rightarrow> node \<Rightarrow> cluster \<Rightarrow> cluster" where
  "node_turn k nd' C =
     (case cl_nodes C ! k of
        (pid, nd) \<Rightarrow>
          C\<lparr>cl_nodes := (cl_nodes C)[k := (pid, nd')],
            cl_gossip := cl_gossip C @ published (new_effects nd nd'),
            cl_requests := cl_requests C @ requested (new_effects nd nd')\<rparr>)"

abbreviation gossip_input :: "peer_id \<Rightarrow> string \<Rightarrow> bytes \<Rightarrow> loop_input" where
  "gossip_input src mid d \<equiv> SwarmEvent (Behaviour (Gossipsub (GossipMessage src mid d)))"

abbreviation request_input :: "peer_id \<Rightarrow> transfer_request \<Rightarrow> channel \<Rightarrow> loop_input" where
  "request_input src req ch \<equiv> SwarmEvent (Behaviour (Transfer (RequestMessage src req ch)))"

fun is_message :: "loop_input \<Rightarrow> bool" where
  "is_message (SwarmEvent (Behaviour (Gossipsub (GossipMessage src mid d)))) = True"
| "is_message (SwarmEvent (Behaviour (Transfer (RequestMessage src req ch)))) = True"
| "is_message i = False"

text \<open>The node at a place, and the request at a place taken out.\<close>

definition node_at :: "cluster \<Rightarrow> nat \<Rightarrow> node" where
  "node_at C k = snd (cl_nodes C ! k)"

definition take_request :: "nat \<Rightarrow> cluster \<Rightarrow> cluster" where
  "take_request n C = C\<lparr>cl_requests := take n (cl_requests C) @ drop (Suc n) (cl_requests C)\<rparr>"

datatype cluster_event = Local nat loop_input | GossipTo nat loop_input | RequestTo nat loop_input | LoseRequest nat

inductive cluster_step :: "crates \<Rightarrow> build \<Rightarrow> (nat \<Rightarrow> swarm) \<Rightarrow> cluster \<Rightarrow> cluster_event \<Rightarrow> cluster \<Rightarrow> bool"
  for L :: crates and bp :: build and W :: "nat \<Rightarrow> swarm" where
  local_turn: "k < length (cl_nodes C) \<Longrightarrow> \<not> is_message i \<Longrightarrow> main_loop L bp (W k) (node_at C k) i nd' \<Longrightarrow>
    cluster_step L bp W C (Local k i)
      ((node_turn k nd' C)\<lparr>cl_sent := cl_sent C + unat (spending L (node_at C k) i)\<rparr>)"
| gossip_turn: "k < length (cl_nodes C) \<Longrightarrow> d \<in> set (cl_gossip C) \<Longrightarrow>
    main_loop L bp (W k) (node_at C k) (gossip_input src mid d) nd' \<Longrightarrow>
    cluster_step L bp W C (GossipTo k (gossip_input src mid d)) (node_turn k nd' C)"
| request_turn: "k < length (cl_nodes C) \<Longrightarrow> n < length (cl_requests C) \<Longrightarrow>
    cl_requests C ! n = (fst (cl_nodes C ! k), req) \<Longrightarrow>
    main_loop L bp (W k) (node_at C k) (request_input src req ch) nd' \<Longrightarrow>
    cluster_step L bp W C (RequestTo k (request_input src req ch))
      ((node_turn k nd' (take_request n C))\<lparr>cl_direct := cl_direct C + unat (income L (node_at C k) (request_input src req ch))\<rparr>)"
| lose_request: "n < length (cl_requests C) \<Longrightarrow> cluster_step L bp W C (LoseRequest n) (take_request n C)"

text \<open>All nodes freshly started, with different peer identifiers and addresses, and nothing under way.\<close>

definition cluster_start :: "crates \<Rightarrow> (host \<times> cli) list \<Rightarrow> cluster \<Rightarrow> bool" where
  "cluster_start L hs C \<longleftrightarrow>
     list_all2 (\<lambda>(H, c) (pid, nd). node_start L H c nd \<and> pid = host_peer_id H (host_identity H)) hs (cl_nodes C) \<and>
     distinct (map fst (cl_nodes C)) \<and> distinct (map (\<lambda>(pid, nd). own_address nd) (cl_nodes C)) \<and>
     cl_gossip C = [] \<and> cl_requests C = [] \<and> cl_sent C = 0 \<and> cl_direct C = 0"

definition held :: "cluster \<Rightarrow> nat" where
  "held C = (\<Sum>(pid, nd) \<leftarrow> cl_nodes C. unat (own_balance nd))"

definition minted :: "(host \<times> cli) list \<Rightarrow> nat" where
  "minted hs = (\<Sum>(H, c) \<leftarrow> hs. unat (cli_balance c))"

section \<open>What is still to be paid\<close>

definition gossip_due :: "crates \<Rightarrow> bytes \<Rightarrow> node \<Rightarrow> nat" where
  "gossip_due L d nd =
     (case payable L nd d of None \<Rightarrow> 0 | Some tx \<Rightarrow> if tx_hash L tx \<in> n_cache nd then 0 else unat (tx_amount tx))"

definition request_due :: "crates \<Rightarrow> peer_id \<times> transfer_request \<Rightarrow> peer_id \<times> node \<Rightarrow> nat" where
  "request_due L r p =
     (if fst r = fst p
      then (case payable L (snd p) (tx_rlp (snd r)) of None \<Rightarrow> 0 | Some tx \<Rightarrow> unat (tx_amount tx)) else 0)"

definition gossip_open :: "crates \<Rightarrow> cluster \<Rightarrow> nat" where
  "gossip_open L C = (\<Sum>d \<in> set (cl_gossip C). \<Sum>p \<leftarrow> cl_nodes C. gossip_due L d (snd p))"

definition request_open :: "crates \<Rightarrow> cluster \<Rightarrow> nat" where
  "request_open L C = (\<Sum>r \<leftarrow> cl_requests C. \<Sum>p \<leftarrow> cl_nodes C. request_due L r p)"

definition cluster_inv :: "crates \<Rightarrow> nat \<Rightarrow> cluster \<Rightarrow> bool" where
  "cluster_inv L m C \<longleftrightarrow>
     (\<forall>p \<in> set (cl_nodes C). node_inv L (snd p)) \<and>
     distinct (map fst (cl_nodes C)) \<and> distinct (map (\<lambda>p. own_address (snd p)) (cl_nodes C)) \<and>
     held C + gossip_open L C \<le> m + cl_direct C \<and> cl_direct C + request_open L C \<le> cl_sent C"

text \<open>Sums over a list of nodes in which one changes, and over one with different keys.\<close>

lemma sum_list_update_nat:
  "k < length xs \<Longrightarrow> (\<Sum>x \<leftarrow> xs[k := y]. f x) + f (xs ! k) = (\<Sum>x \<leftarrow> xs. f x) + f y" for f :: "'a \<Rightarrow> nat"
  by (induction xs arbitrary: k) (auto split: nat.split simp: less_Suc_eq_0_disj)

lemma sum_list_key_le:
  assumes "distinct (map g xs)" "\<And>x. x \<in> set xs \<Longrightarrow> f x \<le> (if g x = a then v else 0)"
  shows "(\<Sum>x \<leftarrow> xs. f x) \<le> (v :: nat)"
  using assms
proof (induction xs)
  case (Cons x xs)
  show ?case
  proof (cases "g x = a")
    case True
    have "f y = 0" if "y \<in> set xs" for y
    proof -
      have "g y \<noteq> a" using imageI [OF that, of g] True Cons.prems(1) by auto
      then show ?thesis using Cons.prems(2) [of y] that by simp
    qed
    then have "\<forall>y \<in> set xs. f y = 0" by blast
    then have none: "(\<Sum>y \<leftarrow> xs. f y) = 0" by (induction xs) simp_all
    show ?thesis using Cons.prems(2) [of x] True by (simp only: list.map sum_list.Cons none) simp
  next
    case False
    then show ?thesis using Cons.IH Cons.prems by fastforce
  qed
qed simp

lemma sum_list_le: "(\<And>x. x \<in> set xs \<Longrightarrow> f x \<le> (g x :: nat)) \<Longrightarrow> (\<Sum>x \<leftarrow> xs. f x) \<le> (\<Sum>x \<leftarrow> xs. g x)"
  by (induction xs) (auto simp: add_mono)

lemma sum_list_member_le: "x \<in> set xs \<Longrightarrow> f x \<le> (\<Sum>x \<leftarrow> xs. f x)" for f :: "'a \<Rightarrow> nat"
  by (induction xs) auto

section \<open>One turn of one node\<close>

lemma requested_append [simp]: "requested (es @ ds) = requested es @ requested ds"
  by (induction es rule: requested.induct) simp_all

lemma requested_no_tx [simp]: "no_tx es \<Longrightarrow> requested es = []"
  by (induction es rule: requested.induct) simp_all

lemma requested_map [simp]:
  "requested (map Println ss) = []" "requested (map (\<lambda>pid. SendRequest pid r) pids) = map (\<lambda>pid. (pid, r)) pids"
  by (induction ss, simp_all) (induction pids, simp_all)

lemma new_effects_append: "n_effects nd' = n_effects nd @ es \<Longrightarrow> new_effects nd nd' = es"
  by (simp add: new_effects_def)

lemma turn_mono:
  assumes "node_inv L nd" "main_loop L bp W nd i nd'"
  shows "n_wallet nd' = n_wallet nd" "n_cache nd \<subseteq> n_cache nd'"
proof -
  have "ed25519_ok L" "wallet_wf L (n_wallet nd)" using assms(1) crates_okD by (auto simp: node_inv_def node_wf_def)
  from main_loop_cases [OF this assms(2)] show "n_cache nd \<subseteq> n_cache nd'" by cases (auto simp: quiet_def)
  show "n_wallet nd' = n_wallet nd" by (rule main_loop_wallet [OF assms])
qed

lemma swarm_event_no_tx:
  assumes "on_swarm_event L bp ev nd = (nd', Ret ())"
  shows "\<exists>es. n_effects nd' = n_effects nd @ es \<and> no_tx es"
proof -
  have quiet: ?thesis if "quiet nd nd'" using that by (simp add: quiet_def)
  have gossip: ?thesis if "on_gossip L bp data nd = (nd', Ret ())" for data
    using that by (auto simp: on_gossip_eq split: option.splits if_splits)
  have request: ?thesis if "on_transfer_request L bp req ch nd = (nd', Ret ())" for req ch
    using that by (auto simp: on_transfer_request_eq split: option.splits if_splits)
  have event: ?thesis if "handle_behaviour_event L bp e nd = (nd', Ret ())" for e
    using that gossip request quiet quiet_discovery quiet_response
    by (cases "(L, bp, e, nd)" rule: handle_behaviour_event.cases) auto
  show ?thesis using assms event quiet quiet_connection by (cases ev) auto
qed

lemma turn_silent:
  assumes "node_inv L nd" "main_loop L bp W nd i nd'" "accepted_send L nd i = None"
  shows "published (new_effects nd nd') = []" "requested (new_effects nd nd') = []"
proof -
  have ok: "ed25519_ok L" "wallet_wf L (n_wallet nd)" using assms(1) crates_okD by (auto simp: node_inv_def node_wf_def)
  have turn: "input_enabled nd i" "main_turn L bp W nd i = (nd', Ret ())" using assms(2) by (simp_all add: main_loop_iff)
  have "\<exists>es. n_effects nd' = n_effects nd @ es \<and> no_tx es"
  proof (cases i)
    case (SwarmEvent ev)
    then show ?thesis using turn swarm_event_no_tx by simp
  next
    case (Stdin now r)
    then show ?thesis
    proof (cases r)
      case (Line line)
      then have "n_stdin_open nd" "handle_command L bp W now line nd = (nd', Ret ())" using turn Stdin by simp_all
      from command_outcome [OF ok this] show ?thesis
        by cases (use assms(3) Stdin Line in \<open>auto simp: quiet_def\<close>)
    qed (use turn Stdin in auto)
  qed
  then show "published (new_effects nd nd') = []" "requested (new_effects nd nd') = []"
    by (auto simp: new_effects_append)
qed

lemma turn_send:
  assumes "node_inv L nd" "main_loop L bp W nd i nd'" "accepted_send L nd i = Some (to, v)"
  obtains tx where "published (new_effects nd nd') = [to_rlp_bytes L tx]"
    "requested (new_effects nd nd') = map (\<lambda>pid. (pid, \<lparr>tx_rlp = to_rlp_bytes L tx\<rparr>)) (n_peers nd)"
    "from_rlp_bytes L (to_rlp_bytes L tx) = Inr tx" "tx_to tx = to" "tx_amount tx = v" "v \<le> own_balance nd"
proof -
  have crates: "crates_ok L" and w: "wallet_wf L (n_wallet nd)" using assms(1) by (auto simp: node_inv_def node_wf_def)
  note ok = crates_okD [OF crates]
  from assms(3) obtain now line where i: "i = Stdin now (Line line)"
    by (auto simp: accepted_send_def split: loop_input.splits stdin_result.splits)
  have "n_stdin_open nd" "handle_command L bp W now line nd = (nd', Ret ())"
    using assms(2) by (simp_all add: i main_loop_iff)
  from command_outcome [OF ok(3) w this] show thesis
  proof cases
    case 1
    then show thesis using assms(3) i by simp
  next
    case (2 to' v')
    then have eq: "to' = to" "v' = v" using assms(3) i by simp_all
    let ?tx = "sent_tx L now nd to v"
    have "tx_wf ?tx" unfolding sent_tx_def using 2(2) eq by (intro tx_create_wf [OF ok(3,2) w]) simp
    then have dec: "from_rlp_bytes L (to_rlp_bytes L ?tx) = Inr ?tx" by (rule from_rlp_bytes_encode [OF ok(4)])
    have "new_effects nd nd' =
        direct_requests L nd ?tx @ Publish TX_TOPIC (to_rlp_bytes L ?tx) # map Println (send_report L W nd ?tx)"
      by (rule new_effects_append) (simp add: 2(4) eq after_send_def Let_def)
    then have "published (new_effects nd nd') = [to_rlp_bytes L ?tx]"
      "requested (new_effects nd nd') = map (\<lambda>pid. (pid, \<lparr>tx_rlp = to_rlp_bytes L ?tx\<rparr>)) (n_peers nd)"
      by simp_all (simp add: direct_requests_def)
    then show thesis using that dec transfer_error_own [OF 2(3)] eq by simp
  qed
qed

lemma due_mono:
  assumes "n_wallet nd' = n_wallet nd" "n_cache nd \<subseteq> n_cache nd'"
  shows "gossip_due L d nd' \<le> gossip_due L d nd" "request_due L r (pid, nd') = request_due L r (pid, nd)"
  using assms(2) payable_cong [OF assms(1), of L]
  by (auto simp: gossip_due_def request_due_def split: option.split)

lemma gossip_due_income: "gossip_due L d nd = unat (income L nd (gossip_input src mid d))"
  by (simp add: gossip_due_def split: option.split)

lemma request_due_income: "request_due L (pid, req) (pid, nd) = unat (income L nd (request_input src req ch))"
  by (simp add: request_due_def split: option.split)

text \<open>A gossip message that has been handled is worth nothing more to the node.\<close>

lemma gossip_due_handled:
  assumes "main_loop L bp W nd (gossip_input src mid d) nd'"
  shows "gossip_due L d nd' = 0"
proof (cases "payable L nd' d")
  case (Some tx)
  have g: "on_gossip L bp d nd = (nd', Ret ())" using assms by (simp add: main_loop_iff)
  then have "n_wallet nd' = n_wallet nd" by (auto simp: on_gossip_eq split: option.splits if_splits)
  then have "payable L nd d = Some tx" using Some payable_cong by metis
  then have "tx_hash L tx \<in> n_cache nd'"
    using g payable_SomeD [of L nd d tx] by (auto simp: on_gossip_eq split: if_splits)
  then show ?thesis by (simp add: gossip_due_def Some)
qed (simp add: gossip_due_def)

text \<open>The balance after a turn, counted without wrap-around.\<close>

lemma turn_balance:
  assumes "node_inv L nd" "main_loop L bp W nd i nd'"
  shows "unat (own_balance nd') + unat (spending L nd i) \<le> unat (own_balance nd) + unat (income L nd i)"
proof -
  have acc: "own_balance nd' = own_balance nd + income L nd i - spending L nd i"
    using turn_accounts [OF assms(1)] assms(2) main_exec_Ret by blast
  show ?thesis
  proof (cases "accepted_send L nd i")
    case None
    have "unat (own_balance nd + income L nd i) \<le> unat (own_balance nd) + unat (income L nd i)"
      by (simp add: unat_u64_add mod_less_eq_dividend)
    then show ?thesis using acc None by (simp add: spending_def)
  next
    case (Some p)
    obtain to v where p: "p = (to, v)" by force
    have "v \<le> own_balance nd" using turn_send [OF assms] Some p by blast
    moreover have "income L nd i = 0"
      using Some by (cases "(L, nd, i)" rule: income.cases) simp_all
    ultimately show ?thesis using acc Some p by (simp add: spending_def unat_u64_sub_exact word_le_nat_alt)
  qed
qed

section \<open>One turn in the network\<close>

lemma node_turn_eq:
  "node_turn k nd' C =
     C\<lparr>cl_nodes := (cl_nodes C)[k := (fst (cl_nodes C ! k), nd')],
       cl_gossip := cl_gossip C @ published (new_effects (node_at C k) nd'),
       cl_requests := cl_requests C @ requested (new_effects (node_at C k) nd')\<rparr>"
  by (simp add: node_turn_def node_at_def case_prod_unfold)

lemma map_update_same: "k < length xs \<Longrightarrow> f y = f (xs ! k) \<Longrightarrow> map f (xs[k := y]) = map f xs"
  by (simp add: map_update list_update_same_conv)

lemma turn_nodes:
  assumes "cluster_inv L m C" "k < length (cl_nodes C)" "main_loop L bp W (node_at C k) i nd'"
  shows "node_inv L (node_at C k)" "\<forall>p \<in> set (cl_nodes (node_turn k nd' C)). node_inv L (snd p)"
    "map fst (cl_nodes (node_turn k nd' C)) = map fst (cl_nodes C)"
    "map (\<lambda>p. own_address (snd p)) (cl_nodes (node_turn k nd' C)) = map (\<lambda>p. own_address (snd p)) (cl_nodes C)"
proof -
  show inv: "node_inv L (node_at C k)" using assms(1,2) by (simp add: cluster_inv_def node_at_def)
  have "node_inv L nd'" by (rule main_loop_inv [OF inv assms(3)])
  then show "\<forall>p \<in> set (cl_nodes (node_turn k nd' C)). node_inv L (snd p)"
    using assms(1) by (auto simp: node_turn_eq cluster_inv_def dest!: set_update_subset_insert [THEN subsetD])
  show "map fst (cl_nodes (node_turn k nd' C)) = map fst (cl_nodes C)"
    unfolding node_turn_eq using assms(2) by (simp add: map_update_same)
  show "map (\<lambda>p. own_address (snd p)) (cl_nodes (node_turn k nd' C)) = map (\<lambda>p. own_address (snd p)) (cl_nodes C)"
    unfolding node_turn_eq using assms(2) turn_mono(1) [OF inv assms(3)]
    by (simp add: map_update_same own_address_def node_at_def)
qed

lemma turn_held:
  "k < length (cl_nodes C) \<Longrightarrow>
   held (node_turn k nd' C) + unat (own_balance (node_at C k)) = held C + unat (own_balance nd')"
  unfolding held_def node_turn_eq node_at_def
  using sum_list_update_nat [where f = "\<lambda>(pid, nd). unat (own_balance nd)" and xs = "cl_nodes C"]
  by (simp add: case_prod_unfold)

lemma turn_gossip_due:
  "k < length (cl_nodes C) \<Longrightarrow>
   (\<Sum>p \<leftarrow> cl_nodes (node_turn k nd' C). gossip_due L d (snd p)) + gossip_due L d (node_at C k) =
   (\<Sum>p \<leftarrow> cl_nodes C. gossip_due L d (snd p)) + gossip_due L d nd'"
  unfolding node_turn_eq node_at_def using sum_list_update_nat [where f = "\<lambda>p. gossip_due L d (snd p)" and xs = "cl_nodes C"] by simp

lemma turn_request_due:
  assumes "k < length (cl_nodes C)" "n_wallet nd' = n_wallet (node_at C k)" "n_cache (node_at C k) \<subseteq> n_cache nd'"
  shows "(\<Sum>p \<leftarrow> cl_nodes (node_turn k nd' C). request_due L r p) = (\<Sum>p \<leftarrow> cl_nodes C. request_due L r p)"
proof -
  have "request_due L r (fst (cl_nodes C ! k), nd') = request_due L r (cl_nodes C ! k)"
    using due_mono(2) [OF assms(2,3), of L r "fst (cl_nodes C ! k)"] by (simp add: node_at_def)
  then show ?thesis
    unfolding node_turn_eq using sum_list_update_nat [OF assms(1), where f = "request_due L r" and y = "(fst (cl_nodes C ! k), nd')"]
    by simp
qed

lemma turn_gossip_due_le:
  assumes "k < length (cl_nodes C)" "n_wallet nd' = n_wallet (node_at C k)" "n_cache (node_at C k) \<subseteq> n_cache nd'"
  shows "(\<Sum>p \<leftarrow> cl_nodes (node_turn k nd' C). gossip_due L d (snd p)) \<le> (\<Sum>p \<leftarrow> cl_nodes C. gossip_due L d (snd p))"
  using turn_gossip_due [OF assms(1), where d = d and L = L and nd' = nd'] due_mono(1) [OF assms(2,3), of L d] by simp

text \<open>A turn that hands nothing to the network.\<close>

lemma silent_turn:
  assumes "cluster_inv L m C" "k < length (cl_nodes C)" "main_loop L bp W (node_at C k) i nd'"
    and "accepted_send L (node_at C k) i = None"
  shows "cl_gossip (node_turn k nd' C) = cl_gossip C" "cl_requests (node_turn k nd' C) = cl_requests C"
    "gossip_open L (node_turn k nd' C) \<le> gossip_open L C" "request_open L (node_turn k nd' C) = request_open L C"
    "held (node_turn k nd' C) \<le> held C + unat (income L (node_at C k) i)"
proof -
  note inv = turn_nodes(1) [OF assms(1-3)]
  note mono = turn_mono [OF inv assms(3)]
  show same: "cl_gossip (node_turn k nd' C) = cl_gossip C" "cl_requests (node_turn k nd' C) = cl_requests C"
    using turn_silent [OF inv assms(3,4)] by (simp_all add: node_turn_eq)
  show "gossip_open L (node_turn k nd' C) \<le> gossip_open L C"
    unfolding gossip_open_def same by (intro sum_mono turn_gossip_due_le [OF assms(2) mono])
  show "request_open L (node_turn k nd' C) = request_open L C"
    unfolding request_open_def same by (simp add: turn_request_due [OF assms(2) mono])
  show "held (node_turn k nd' C) \<le> held C + unat (income L (node_at C k) i)"
    using turn_held [OF assms(2), of nd'] turn_balance [OF inv assms(3)] by simp
qed

text \<open>An accepted send: the new transaction is worth its amount once by gossip and once by request.\<close>

lemma new_request_due:
  assumes "distinct (map (\<lambda>p. own_address (snd p)) ps)" "distinct pids" "from_rlp_bytes L d = Inr tx"
  shows "(\<Sum>pid \<leftarrow> pids. \<Sum>p \<leftarrow> ps. request_due L (pid, \<lparr>tx_rlp = d\<rparr>) p) \<le> unat (tx_amount tx)"
proof -
  have due: "request_due L (pid, \<lparr>tx_rlp = d\<rparr>) p \<le>
      (if own_address (snd p) = tx_to tx then if fst p = pid then unat (tx_amount tx) else 0 else 0)" for pid p
    using assms(3) by (auto simp: request_due_def payable_def own_address_def)
  show ?thesis
  proof (cases "\<exists>p \<in> set ps. own_address (snd p) = tx_to tx")
    case True
    then obtain q where q: "q \<in> set ps" "own_address (snd q) = tx_to tx" by blast
    have "p = q" if "p \<in> set ps" "own_address (snd p) = tx_to tx" for p
      using that q assms(1) by (auto simp: distinct_map inj_on_def)
    then have "(\<Sum>p \<leftarrow> ps. request_due L (pid, \<lparr>tx_rlp = d\<rparr>) p) \<le> (if pid = fst q then unat (tx_amount tx) else 0)" for pid
      by (intro sum_list_key_le [OF assms(1), where a = "tx_to tx"] order_trans [OF due]) auto
    then show ?thesis using assms(2) by (intro sum_list_key_le [where g = "\<lambda>x. x" and a = "fst q"]) simp_all
  next
    case False
    then have "request_due L (pid, \<lparr>tx_rlp = d\<rparr>) p \<le> (if own_address (snd p) = tx_to tx then 0 else 0)" if "p \<in> set ps" for pid p
      using that due [of pid p] by auto
    then have "(\<Sum>p \<leftarrow> ps. request_due L (pid, \<lparr>tx_rlp = d\<rparr>) p) \<le> 0" for pid by (rule sum_list_key_le [OF assms(1)])
    then have none: "(\<Sum>p \<leftarrow> ps. request_due L (pid, \<lparr>tx_rlp = d\<rparr>) p) = 0" for pid by (metis le_zero_eq)
    show ?thesis unfolding none by simp
  qed
qed

lemma new_gossip_due:
  assumes "distinct (map (\<lambda>p. own_address (snd p)) ps)" "from_rlp_bytes L d = Inr tx"
  shows "(\<Sum>p \<leftarrow> ps. gossip_due L d (snd p)) \<le> unat (tx_amount tx)"
  using assms(2) by (intro sum_list_key_le [OF assms(1), where a = "tx_to tx"]) (auto simp: gossip_due_def payable_def own_address_def)

lemma send_turn:
  assumes "cluster_inv L m C" "k < length (cl_nodes C)" "main_loop L bp W (node_at C k) i nd'"
    and "accepted_send L (node_at C k) i = Some (to, v)"
  shows "gossip_open L (node_turn k nd' C) \<le> gossip_open L C + unat v"
    "request_open L (node_turn k nd' C) \<le> request_open L C + unat v"
    "held (node_turn k nd' C) + unat v \<le> held C"
proof -
  note nodes = turn_nodes [OF assms(1-3)]
  note mono = turn_mono [OF nodes(1) assms(3)]
  let ?C = "node_turn k nd' C"
  have dist: "distinct (map (\<lambda>p. own_address (snd p)) (cl_nodes ?C))" "distinct (map (\<lambda>p. own_address (snd p)) (cl_nodes C))"
    using assms(1) by (simp_all add: nodes(4) cluster_inv_def)
  have peers: "distinct (n_peers (node_at C k))" using nodes(1) by (simp add: node_inv_def node_wf_def)
  obtain tx where tx: "published (new_effects (node_at C k) nd') = [to_rlp_bytes L tx]"
    "requested (new_effects (node_at C k) nd') = map (\<lambda>pid. (pid, \<lparr>tx_rlp = to_rlp_bytes L tx\<rparr>)) (n_peers (node_at C k))"
    "from_rlp_bytes L (to_rlp_bytes L tx) = Inr tx" "tx_amount tx = v"
    using turn_send [OF nodes(1) assms(3,4)] by blast
  let ?d = "to_rlp_bytes L tx"
  have net: "cl_gossip ?C = cl_gossip C @ [?d]"
    "cl_requests ?C = cl_requests C @ map (\<lambda>pid. (pid, \<lparr>tx_rlp = ?d\<rparr>)) (n_peers (node_at C k))"
    by (simp_all add: node_turn_eq tx)
  have "gossip_open L ?C \<le> (\<Sum>p \<leftarrow> cl_nodes ?C. gossip_due L ?d (snd p)) +
      (\<Sum>d \<in> set (cl_gossip C). \<Sum>p \<leftarrow> cl_nodes ?C. gossip_due L d (snd p))"
    unfolding gossip_open_def net by (simp add: sum.insert_if)
  also have "\<dots> \<le> unat v + gossip_open L C"
    unfolding gossip_open_def using new_gossip_due [OF dist(1) tx(3)] tx(4)
    by (intro add_mono sum_mono turn_gossip_due_le [OF assms(2) mono]) simp_all
  finally show "gossip_open L ?C \<le> gossip_open L C + unat v" by simp
  have "request_open L ?C = request_open L C +
      (\<Sum>pid \<leftarrow> n_peers (node_at C k). \<Sum>p \<leftarrow> cl_nodes C. request_due L (pid, \<lparr>tx_rlp = ?d\<rparr>) p)"
    unfolding request_open_def net by (simp add: turn_request_due [OF assms(2) mono] comp_def)
  then show "request_open L ?C \<le> request_open L C + unat v"
    using new_request_due [OF dist(2) peers tx(3)] tx(4) by simp
  have "income L (node_at C k) i = 0"
    using assms(4) by (cases "(L, node_at C k, i)" rule: income.cases) simp_all
  then show "held ?C + unat v \<le> held C"
    using turn_held [OF assms(2), of nd'] turn_balance [OF nodes(1) assms(3)] assms(4) by (simp add: spending_def)
qed

section \<open>The invariant of the network\<close>

lemma take_request_sel [simp]:
  "cl_nodes (take_request n C) = cl_nodes C" "cl_gossip (take_request n C) = cl_gossip C"
  "cl_sent (take_request n C) = cl_sent C" "cl_direct (take_request n C) = cl_direct C"
  "node_at (take_request n C) k = node_at C k" "held (take_request n C) = held C"
  "gossip_open L (take_request n C) = gossip_open L C"
  by (simp_all add: take_request_def node_at_def held_def gossip_open_def)

lemma take_request_open:
  assumes "n < length (cl_requests C)"
  shows "request_open L (take_request n C) + (\<Sum>p \<leftarrow> cl_nodes C. request_due L (cl_requests C ! n) p) = request_open L C"
proof -
  have "cl_requests C = take n (cl_requests C) @ cl_requests C ! n # drop (Suc n) (cl_requests C)"
    by (rule id_take_nth_drop [OF assms])
  then have "request_open L C = (\<Sum>r \<leftarrow> take n (cl_requests C) @ cl_requests C ! n # drop (Suc n) (cl_requests C).
      \<Sum>p \<leftarrow> cl_nodes C. request_due L r p)"
    by (simp only: request_open_def)
  then show ?thesis by (simp add: request_open_def take_request_def)
qed

lemma cluster_inv_take: "cluster_inv L m C \<Longrightarrow> n < length (cl_requests C) \<Longrightarrow> cluster_inv L m (take_request n C)"
  using take_request_open [of n C L] by (simp add: cluster_inv_def)

lemma cluster_sums_frame [simp]:
  "held (C\<lparr>cl_sent := x\<rparr>) = held C" "held (C\<lparr>cl_direct := x\<rparr>) = held C"
  "gossip_open L (C\<lparr>cl_sent := x\<rparr>) = gossip_open L C" "gossip_open L (C\<lparr>cl_direct := x\<rparr>) = gossip_open L C"
  "request_open L (C\<lparr>cl_sent := x\<rparr>) = request_open L C" "request_open L (C\<lparr>cl_direct := x\<rparr>) = request_open L C"
  by (simp_all add: held_def gossip_open_def request_open_def)

lemma node_turn_sel [simp]: "cl_sent (node_turn k nd' C) = cl_sent C" "cl_direct (node_turn k nd' C) = cl_direct C"
  by (simp_all add: node_turn_eq)

lemma local_inv:
  assumes "cluster_inv L m C" "k < length (cl_nodes C)" "\<not> is_message i" "main_loop L bp W (node_at C k) i nd'"
  shows "cluster_inv L m ((node_turn k nd' C)\<lparr>cl_sent := cl_sent C + unat (spending L (node_at C k) i)\<rparr>)"
proof (cases "accepted_send L (node_at C k) i")
  case None
  have "income L (node_at C k) i = 0"
    using assms(3) by (cases "(L, node_at C k, i)" rule: income.cases) simp_all
  then show ?thesis
    using assms(1) turn_nodes(2-4) [OF assms(1,2,4)] silent_turn(3-5) [OF assms(1,2,4) None]
    by (simp add: cluster_inv_def)
next
  case (Some p)
  then obtain to v where "accepted_send L (node_at C k) i = Some (to, v)" by (cases p) simp
  then show ?thesis
    using assms(1) turn_nodes(2-4) [OF assms(1,2,4)] send_turn [OF assms(1,2,4)]
    by (simp add: cluster_inv_def spending_def)
qed

lemma gossip_inv:
  assumes "cluster_inv L m C" "k < length (cl_nodes C)" "d \<in> set (cl_gossip C)"
    and "main_loop L bp W (node_at C k) (gossip_input src mid d) nd'"
  shows "cluster_inv L m (node_turn k nd' C)"
proof -
  let ?C = "node_turn k nd' C" and ?S = "\<lambda>C d. \<Sum>p \<leftarrow> cl_nodes C. gossip_due L d (snd p)"
  note silent = silent_turn [OF assms(1,2,4) accepted_send_other(1)]
  note mono = turn_mono [OF turn_nodes(1) [OF assms(1,2,4)] assms(4)]
  have split: "gossip_open L D = ?S D d + (\<Sum>e \<in> set (cl_gossip C) - {d}. ?S D e)" if "cl_gossip D = cl_gossip C" for D
    unfolding gossip_open_def that using assms(3) by (simp add: sum.remove)
  have "(\<Sum>e \<in> set (cl_gossip C) - {d}. ?S ?C e) \<le> (\<Sum>e \<in> set (cl_gossip C) - {d}. ?S C e)"
    by (intro sum_mono turn_gossip_due_le [OF assms(2) mono])
  moreover have "?S ?C d + unat (income L (node_at C k) (gossip_input src mid d)) = ?S C d"
    using turn_gossip_due [OF assms(2), where d = d and L = L and nd' = nd'] gossip_due_handled [OF assms(4)]
      gossip_due_income [of L d "node_at C k" src mid] by simp
  ultimately have "gossip_open L ?C + unat (income L (node_at C k) (gossip_input src mid d)) \<le> gossip_open L C"
    using split [OF silent(1)] split [of C] by simp
  then show ?thesis
    using assms(1) turn_nodes(2-4) [OF assms(1,2,4)] silent(4,5) by (simp add: cluster_inv_def)
qed

lemma request_inv:
  assumes "cluster_inv L m C" "k < length (cl_nodes C)" "n < length (cl_requests C)"
    and "cl_requests C ! n = (fst (cl_nodes C ! k), req)" "main_loop L bp W (node_at C k) (request_input src req ch) nd'"
  shows "cluster_inv L m ((node_turn k nd' (take_request n C))
    \<lparr>cl_direct := cl_direct C + unat (income L (node_at C k) (request_input src req ch))\<rparr>)"
proof -
  let ?T = "take_request n C"
  have k: "k < length (cl_nodes ?T)" using assms(2) by simp
  have loop: "main_loop L bp W (node_at ?T k) (request_input src req ch) nd'" using assms(5) by simp
  note T = cluster_inv_take [OF assms(1,3)]
  note silent = silent_turn [OF T k loop accepted_send_other(1)]
  have "cl_nodes C ! k \<in> set (cl_nodes C)" using assms(2) by simp
  from sum_list_member_le [OF this, of "request_due L (cl_requests C ! n)"]
  have "unat (income L (node_at C k) (request_input src req ch)) \<le> (\<Sum>p \<leftarrow> cl_nodes C. request_due L (cl_requests C ! n) p)"
    using request_due_income [of L "fst (cl_nodes C ! k)" req "node_at C k" src ch] by (simp add: assms(4) node_at_def)
  then have "request_open L ?T + unat (income L (node_at C k) (request_input src req ch)) \<le> request_open L C"
    using take_request_open [OF assms(3), of L] by simp
  then show ?thesis
    using assms(1) turn_nodes(2-4) [OF T k loop] silent(3-5) by (simp add: cluster_inv_def)
qed

lemma cluster_step_inv:
  assumes "cluster_inv L m C" "cluster_step L bp W C e C'" shows "cluster_inv L m C'"
  using assms(2)
proof cases
  case (local_turn k i nd')
  then show ?thesis using local_inv [OF assms(1)] by blast
next
  case (gossip_turn k d src mid nd')
  then show ?thesis using gossip_inv [OF assms(1)] by blast
next
  case (request_turn k n req src ch nd')
  show ?thesis unfolding request_turn(2) by (rule request_inv [OF assms(1) request_turn(3-6)])
next
  case (lose_request n)
  then show ?thesis using cluster_inv_take [OF assms(1)] by blast
qed

lemma node_start_balance: "node_start L H c nd \<Longrightarrow> own_balance nd = cli_balance c"
  by (auto simp: node_start_def main_init_Inr first_node_def own_balance_def own_address_def ledger_balance_def)

lemma cluster_start_held: "cluster_start L hs C \<Longrightarrow> held C = minted hs"
proof -
  assume "cluster_start L hs C"
  then have "list_all2 (\<lambda>(H, c) (pid, nd). node_start L H c nd \<and> pid = host_peer_id H (host_identity H)) hs (cl_nodes C)"
    by (simp add: cluster_start_def)
  then have "(\<Sum>(pid, nd) \<leftarrow> cl_nodes C. unat (own_balance nd)) = minted hs"
    by (induction rule: list_all2_induct) (auto simp: minted_def node_start_balance)
  then show ?thesis by (simp add: held_def)
qed

lemma cluster_start_inv:
  assumes "cluster_start L hs C" shows "cluster_inv L (minted hs) C"
proof -
  have "list_all2 (\<lambda>(H, c) (pid, nd). node_start L H c nd \<and> pid = host_peer_id H (host_identity H)) hs (cl_nodes C)"
    using assms by (simp add: cluster_start_def)
  then have "\<forall>p \<in> set (cl_nodes C). node_inv L (snd p)"
    by (induction rule: list_all2_induct) (auto simp: node_start_inv)
  then show ?thesis
    using assms cluster_start_held [OF assms]
    by (simp add: cluster_inv_def cluster_start_def gossip_open_def request_open_def case_prod_unfold)
qed

interpretation network: invariant_system "cluster_start L hs" "cluster_step L bp W" "cluster_inv L (minted hs)" for L hs bp W
  by unfold_locales (rule cluster_start_inv, assumption, rule cluster_step_inv)

text \<open>
  C4: Money in a network of honest nodes is bounded. Whatever is typed, whoever connects, and in whatever order and
  however often published transactions arrive, the balances the nodes hold for themselves never add
  up to more than they were started with plus what was credited for direct requests; without
  direct requests nothing is ever created. What is credited for direct requests never exceeds
  what the accepted sends spent, so that every payment is counted at most twice.
\<close>

theorem network_money_bounded:
  assumes "reach (cluster_start L hs) (cluster_step L bp W) C"
  shows "held C \<le> minted hs + cl_direct C \<and> cl_direct C \<le> cl_sent C"
  using network.reach_inv [OF assms] by (simp add: cluster_inv_def)

section \<open>An instance\<close>

definition second_host :: host where
  "second_host = example_host\<lparr>host_random := replicate 32 8, host_peer_id := (\<lambda>_. ''you'')\<rparr>"

definition second_start :: node where
  "second_start = first_node cli_default (example_wallet 8)"

lemma second_start: "node_start ref_crates second_host cli_default second_start"
proof -
  have "open_wallet ref_crates second_host cli_default = Inr (example_wallet 8)"
    by (simp add: open_wallet_def cli_default_def second_host_def example_host_def example_wallet_def)
  moreover have "\<exists>sw. build_swarm second_host = Ret (Inr sw)"
    by (simp add: build_swarm_def build_behaviour_def second_host_def example_host_def Let_def)
  moreover have "network_up second_host cli_default"
    by (simp add: network_up_def second_host_def example_host_def cli_default_def)
  ultimately show ?thesis
    using ref_crates_ok
    by (auto simp: node_start_def main_init_Inr second_start_def) (simp add: second_host_def example_host_def ref_crates_def)
qed

definition example_cluster :: cluster where
  "example_cluster = \<lparr>cl_nodes = [(''me'', example_start), (''you'', second_start)], cl_gossip = [], cl_requests = [],
     cl_sent = 0, cl_direct = 0\<rparr>"

definition example_hosts :: "(host \<times> cli) list" where
  "example_hosts = [(example_host, cli_default), (second_host, cli_default)]"

lemma example_cluster_start: "cluster_start ref_crates example_hosts example_cluster"
proof -
  have "own_address second_start = own_address (example_node 8)"
    by (simp add: second_start_def first_node_def own_address_def example_node_def)
  then show ?thesis
    using example_start second_start
    by (simp add: cluster_start_def example_cluster_def example_hosts_def example_start_own(2) example_node_own(1))
      (simp add: example_host_def second_host_def)
qed

theorem network_money_bounded_witness:
  "\<exists>C. reach (cluster_start ref_crates example_hosts) (cluster_step ref_crates Release (\<lambda>_. example_swarm)) C \<and>
     cl_gossip C \<noteq> [] \<and> held C \<le> 2000"
proof -
  let ?i = "Stdin 1 (Line example_line)"
  let ?nd = "after_send ref_crates example_swarm 1 (own_address (example_node 8)) 5 example_start"
  let ?C = "(node_turn 0 ?nd example_cluster)\<lparr>cl_sent := cl_sent example_cluster +
      unat (spending ref_crates (node_at example_cluster 0) ?i)\<rparr>"
  have at: "node_at example_cluster 0 = example_start" "0 < length (cl_nodes example_cluster)"
    by (simp_all add: node_at_def example_cluster_def)
  have "cluster_step ref_crates Release (\<lambda>_. example_swarm) example_cluster (Local 0 ?i) ?C"
    using example_start_send at by (intro local_turn) simp_all
  then have r: "reach (cluster_start ref_crates example_hosts) (cluster_step ref_crates Release (\<lambda>_. example_swarm)) ?C"
    using reach_step [OF reach_init] example_cluster_start by metis
  have "cl_direct ?C = 0" by (simp add: example_cluster_def)
  moreover have "minted example_hosts = 2000" by (simp add: minted_def example_hosts_def cli_default_def)
  moreover have "cl_gossip ?C \<noteq> []"
    by (simp add: node_turn_eq at after_send_def Let_def new_effects_def)
  ultimately show ?thesis using r network_money_bounded [OF r] by (intro exI [of _ ?C]) simp
qed

end
