(* ===== verification/Node_Refine.thy ===== *)
theory Node_Refine
  imports Event_Loop
begin

text \<open>
  The node as its user thinks of it: a purse with a balance, the list of payments made and the set of
  transactions seen, over unbounded numbers. A debug build of the event loop, as long as it
  does not panic, implements the purse step by step; a release build does the same as a debug build
  as long as that one does not panic. What holds of purses, such as that nothing is ever
  spent that was not there, so holds of the program in either build.
\<close>

section \<open>The purse\<close>

datatype action =
    Idle
  | See string
  | Receive string nat
  | Pay address nat string

record purse =
  pu_balance :: nat
  pu_paid :: "(address \<times> nat) list"
  pu_seen :: "string set"

text \<open>A payment is allowed when it is not empty, not to oneself and covered.\<close>

fun purse_exec :: "address \<Rightarrow> purse \<Rightarrow> action \<Rightarrow> purse run" where
  "purse_exec me p Idle = Ret p"
| "purse_exec me p (See h) = Ret (p\<lparr>pu_seen := insert h (pu_seen p)\<rparr>)"
| "purse_exec me p (Receive h v) =
     Ret (p\<lparr>pu_balance := pu_balance p + v, pu_seen := insert h (pu_seen p)\<rparr>)"
| "purse_exec me p (Pay to v h) =
     (if to \<noteq> me \<and> 0 < v \<and> v \<le> pu_balance p
      then Ret (p\<lparr>pu_balance := pu_balance p - v, pu_paid := pu_paid p @ [(to, v)],
                  pu_seen := insert h (pu_seen p)\<rparr>)
      else Panic)"

fun received :: "action \<Rightarrow> nat" where
  "received (Receive h v) = v"
| "received _ = 0"

lemma purse_balance:
  "run_ops (purse_exec me) p as = Ret q \<Longrightarrow>
   pu_balance q + sum_list (map snd (pu_paid q)) =
     pu_balance p + sum_list (map snd (pu_paid p)) + sum_list (map received as)"
proof (induction as arbitrary: p)
  case (Cons a as)
  then obtain r where r: "purse_exec me p a = Ret r" "run_ops (purse_exec me) r as = Ret q"
    by (auto split: run.splits)
  have "pu_balance r + sum_list (map snd (pu_paid r)) = pu_balance p + sum_list (map snd (pu_paid p)) + received a"
    using r(1) by (cases a) (auto split: if_splits)
  with Cons.IH [OF r(2)] show ?case by simp
qed simp

section \<open>The node as a purse\<close>

definition paid_out :: "crates \<Rightarrow> bytes \<Rightarrow> address \<times> nat" where
  "paid_out L d = (case from_rlp_bytes L d of Inl _ \<Rightarrow> ([], 0) | Inr tx \<Rightarrow> (tx_to tx, unat (tx_amount tx)))"

definition purse_of :: "crates \<Rightarrow> node \<Rightarrow> purse" where
  "purse_of L nd =
     \<lparr>pu_balance = unat (own_balance nd), pu_paid = map (paid_out L) (published (n_effects nd)), pu_seen = n_cache nd\<rparr>"

fun event_action :: "crates \<Rightarrow> node \<Rightarrow> node_event \<Rightarrow> action" where
  "event_action L nd (Gossipsub (GossipMessage src mid data)) =
     (case valid_hash L data of
        None \<Rightarrow> Idle
      | Some h \<Rightarrow>
          if h \<in> n_cache nd then Idle
          else (case payable L nd data of None \<Rightarrow> See h | Some tx \<Rightarrow> Receive h (unat (tx_amount tx))))"
| "event_action L nd (Transfer (RequestMessage peer req ch)) =
     (case payable L nd (tx_rlp req) of
        None \<Rightarrow> Idle
      | Some tx \<Rightarrow> Receive (tx_hash L tx) (unat (tx_amount tx)))"
| "event_action L nd _ = Idle"

fun input_action :: "crates \<Rightarrow> node \<Rightarrow> loop_input \<Rightarrow> action" where
  "input_action L nd (SwarmEvent (Behaviour ev)) = event_action L nd ev"
| "input_action L nd (Stdin now r) =
     (case accepted_send L nd (Stdin now r) of
        None \<Rightarrow> Idle
      | Some (to, v) \<Rightarrow> Pay to (unat v) (tx_hash L (sent_tx L now nd to v)))"
| "input_action L nd _ = Idle"

lemma purse_of_sel [simp]:
  "pu_balance (purse_of L nd) = unat (own_balance nd)" "pu_seen (purse_of L nd) = n_cache nd"
  by (simp_all add: purse_of_def)

lemma purse_of_closed: "purse_of L (nd\<lparr>n_stdin_open := b\<rparr>) = purse_of L nd"
  by (simp add: purse_of_def own_balance_def own_address_def)

lemma purse_of_quiet: "quiet nd nd' \<Longrightarrow> purse_of L nd' = purse_of L nd"
  using quiet_own [of nd nd'] by (auto simp: purse_of_def quiet_def)

lemma purse_of_frame:
  "no_tx es \<Longrightarrow> purse_of L (emits es nd) = purse_of L nd"
  "purse_of L (cache_tx h nd) = (purse_of L nd)\<lparr>pu_seen := insert h (n_cache nd)\<rparr>"
  by (simp_all add: purse_of_def)

lemma funds_own_balance: "funds (n_ledger nd) (own_address nd) = unat (own_balance nd)"
  by (simp add: funds_def own_balance_def split: option.split)

lemma purse_of_credit:
  assumes "\<not> credit_overflows Debug v nd"
  shows "purse_of L (credit_own v nd) = (purse_of L nd)\<lparr>pu_balance := unat (own_balance nd) + unat v\<rparr>"
proof -
  have "unat (own_balance nd + v) = unat (own_balance nd) + unat v"
    using assms by (intro unat_u64_add_exact) (simp add: credit_overflows_def funds_own_balance)
  then show ?thesis by (simp add: purse_of_def)
qed

lemma purse_of_send:
  assumes "node_inv L nd" "length to = ADDRESS_LEN" "to \<noteq> own_address nd" "v \<le> own_balance nd"
  shows "purse_of L (after_send L W now to v nd) =
    \<lparr>pu_balance = unat (own_balance nd) - unat v, pu_paid = pu_paid (purse_of L nd) @ [(to, unat v)],
     pu_seen = insert (tx_hash L (sent_tx L now nd to v)) (n_cache nd)\<rparr>"
proof -
  have ok: "crates_ok L" "wallet_wf L (n_wallet nd)" using assms(1) by (simp_all add: node_inv_def node_wf_def)
  note laws = crates_okD [OF ok(1)]
  have "from_rlp_bytes L (to_rlp_bytes L (sent_tx L now nd to v)) = Inr (sent_tx L now nd to v)"
    unfolding sent_tx_def by (rule from_rlp_bytes_encode [OF laws(4) tx_create_wf [OF laws(3,2) ok(2) assms(2)]])
  then have "paid_out L (to_rlp_bytes L (sent_tx L now nd to v)) = (to, unat v)" by (simp add: paid_out_def)
  moreover have "published (n_effects (after_send L W now to v nd)) =
      published (n_effects nd) @ [to_rlp_bytes L (sent_tx L now nd to v)]"
    by (simp add: after_send_def Let_def)
  ultimately show ?thesis
    using after_send_own(2) [OF assms(3)] assms(4) by (simp add: purse_of_def unat_u64_sub_exact)
qed

lemma event_purse:
  assumes "handle_behaviour_event L Debug ev nd = (nd', Ret ())"
  shows "purse_exec me (purse_of L nd) (event_action L nd ev) = Ret (purse_of L nd')"
  using assms purse_of_quiet [OF quiet_discovery(1)] purse_of_quiet [OF quiet_discovery(2)] purse_of_quiet [OF quiet_response]
  by (cases "(L, Debug, ev, nd)" rule: handle_behaviour_event.cases)
    (auto simp: on_gossip_eq on_transfer_request_eq purse_of_frame purse_of_credit
      dest: payable_SomeD split: option.splits if_splits)

lemma command_purse:
  assumes "node_inv L nd" "n_stdin_open nd" "handle_command L bp W now line nd = (nd', Ret ())"
  shows "purse_exec (own_address nd) (purse_of L nd) (input_action L nd (Stdin now (Line line))) = Ret (purse_of L nd')"
proof -
  have ok: "ed25519_ok L" "wallet_wf L (n_wallet nd)"
    using assms(1) crates_okD by (auto simp: node_inv_def node_wf_def)
  show ?thesis
  proof (cases rule: command_outcome [OF ok assms(2,3)])
    case 1
    then show ?thesis using purse_of_quiet by simp
  next
    case (2 to v)
    then have "to \<noteq> own_address nd" "v \<noteq> 0" "v \<le> own_balance nd"
      using own_balance_lookup [of nd] by (auto simp: transfer_error_None)
    then show ?thesis
      using 2 purse_of_send [OF assms(1) 2(2), of v W now] by (simp add: purse_of_def word_le_nat_alt unat_gt_0)
  qed
qed

lemma turn_purse:
  assumes "node_inv L nd" "main_exec L Debug W nd i = Ret nd'"
  shows "purse_exec (own_address nd) (purse_of L nd) (input_action L nd i) = Ret (purse_of L nd')"
proof -
  consider (off) "\<not> input_enabled nd i" "nd' = nd" | (on) "input_enabled nd i" "main_turn L Debug W nd i = (nd', Ret ())"
    using assms(2) by (auto simp: main_exec_Ret main_loop_iff)
  then show ?thesis
  proof cases
    case off
    then have "accepted_send L nd i = None" by (auto simp: accepted_send_def split: loop_input.split stdin_result.split list.split)
    with off show ?thesis by (cases i) auto
  next
    case on
    show ?thesis
    proof (cases i)
      case (Stdin now r)
      with on command_purse [OF assms(1)] show ?thesis by (cases r) (auto simp: purse_of_closed)
    next
      case (SwarmEvent ev)
      with on event_purse [of L _ nd nd'] purse_of_quiet [OF quiet_connection(1)] purse_of_quiet [OF quiet_connection(2)]
      show ?thesis by (cases ev) auto
    qed
  qed
qed

lemma exec_own_address:
  assumes "node_inv L nd" "main_exec L bp W nd i = Ret nd'" shows "own_address nd' = own_address nd"
  using assms main_loop_wallet by (auto simp: main_exec_Ret own_address_def)

interpretation node_sim: simulation "main_exec L Debug W" "\<lambda>nd. node_inv L nd \<and> own_address nd = me" "purse_of L"
    "input_action L" "purse_exec me" for L W me
  by unfold_locales (use exec_inv exec_own_address turn_purse in auto)

section \<open>The two builds\<close>

lemma ledger_transfer_release:
  "ledger_transfer Debug l from to amount n = (l', Ret r) \<Longrightarrow> ledger_transfer Release l from to amount n = (l', Ret r)"
  by (cases rule: ledger_transfer_cases [of l "from" to amount n Debug];
      cases rule: ledger_transfer_cases [of l "from" to amount n Release]) auto

lemma cmd_send_release:
  "cmd_send L Debug W now parts nd = (nd', Ret ()) \<Longrightarrow> cmd_send L Release W now parts nd = (nd', Ret ())"
  by (auto simp: cmd_send_def Let_def ledger_transfer_release split: if_splits sum.splits option.splits prod.splits run.splits)

lemma handle_command_release:
  assumes "handle_command L Debug W now line nd = (nd', Ret ())"
  shows "handle_command L Release W now line nd = (nd', Ret ())"
proof (cases "split_whitespace line")
  case (Cons c args)
  show ?thesis
  proof (cases "c \<in> send_words")
    case True
    then show ?thesis using assms handle_command_send [OF Cons True] cmd_send_release by simp
  next
    case False
    then have "handle_command L Debug W now line nd = handle_command L Release W now line nd"
      unfolding handle_command_def Let_def split_whitespace_trim Cons
      by (simp only: list.simps send_words_def if_False)
    then show ?thesis using assms by simp
  qed
qed (use assms in \<open>simp add: handle_command_def split_whitespace_trim\<close>)

lemma event_release:
  "handle_behaviour_event L Debug ev nd = (nd', Ret ()) \<Longrightarrow> handle_behaviour_event L Release ev nd = (nd', Ret ())"
  by (cases "(L, Debug, ev, nd)" rule: handle_behaviour_event.cases)
    (auto simp: on_gossip_eq on_transfer_request_eq credit_overflows_def split: option.splits if_splits)

lemma turn_release: "main_turn L Debug W nd i = (nd', Ret ()) \<Longrightarrow> main_turn L Release W nd i = (nd', Ret ())"
proof (cases i)
  case (Stdin now r)
  then show "main_turn L Debug W nd i = (nd', Ret ()) \<Longrightarrow> main_turn L Release W nd i = (nd', Ret ())"
    by (cases r) (auto simp: handle_command_release)
next
  case (SwarmEvent ev)
  then show "main_turn L Debug W nd i = (nd', Ret ()) \<Longrightarrow> main_turn L Release W nd i = (nd', Ret ())"
    by (cases ev) (auto simp: event_release)
qed

interpretation builds_sim: simulation "main_exec L Debug W" "\<lambda>_. True" "\<lambda>nd. nd" "\<lambda>_ i. i" "main_exec L Release W" for L W
  by unfold_locales (auto simp: main_exec_def turn_release split: if_splits prod.splits run.splits)

lemma actions_inputs: "run_ops exec s is = Ret t \<Longrightarrow> actions exec (\<lambda>_ i. i) s is = is"
  by (induction "is" arbitrary: s) (auto split: run.splits)

section \<open>Properties\<close>

text \<open>
  C12: The program is a purse. Over any sequence of inputs that a debug build survives, from the start of the program
  on, each input does to the balance, the payments made and the transactions seen exactly one action of the
  purse over unbounded numbers, starting with the balance of the command line; in particular each payment was covered when
  it was made, and what is left plus all that was paid is what there was plus all that was received.
\<close>

theorem program_refines_purse:
  assumes "node_start L H c nd" "run_ops (main_exec L Debug W) nd is = Ret nd'"
  shows "run_ops (purse_exec (own_address nd)) \<lparr>pu_balance = unat (cli_balance c), pu_paid = [], pu_seen = {}\<rparr>
      (actions (main_exec L Debug W) (input_action L) nd is) = Ret (purse_of L nd') \<and>
    unat (own_balance nd') + sum_list (map (snd \<circ> paid_out L) (published (n_effects nd'))) =
      unat (cli_balance c) + sum_list (map received (actions (main_exec L Debug W) (input_action L) nd is))"
proof -
  obtain w where "nd = first_node c w" using assms(1) by (auto simp: node_start_def main_init_Inr)
  then have "own_balance nd = cli_balance c" "n_cache nd = {}" "published (n_effects nd) = []"
    by (simp_all add: first_node_def own_balance_def own_address_def ledger_balance_def)
      (auto intro: published_no_tx simp: no_tx_def)
  then have start: "purse_of L nd = \<lparr>pu_balance = unat (cli_balance c), pu_paid = [], pu_seen = {}\<rparr>"
    by (simp add: purse_of_def)
  from node_sim.abs_run [of L nd "own_address nd" W "is" nd'] node_start_inv [OF assms(1)] assms(2)
  have run: "run_ops (purse_exec (own_address nd)) (purse_of L nd) (actions (main_exec L Debug W) (input_action L) nd is) =
      Ret (purse_of L nd')" by simp
  from purse_balance [OF this] run show ?thesis by (simp add: start) (simp add: purse_of_def)
qed

text \<open>
  C13: The two builds agree. Over any sequence of inputs that a debug build gets through without a panic, a
  release build gets through as well and ends in the very same state, with the same ledger, the same messages and the same
  printed lines; so the builds differ only from the first overflow on.
\<close>

theorem builds_agree:
  assumes "run_ops (main_exec L Debug W) nd is = Ret nd'"
  shows "run_ops (main_exec L Release W) nd is = Ret nd'"
  using builds_sim.abs_run [OF TrueI assms] actions_inputs [OF assms] by simp

section \<open>Instances\<close>

lemma example_start_run:
  "run_ops (main_exec ref_crates Debug example_swarm) example_start [Stdin 1 (Line example_line)] =
     Ret (after_send ref_crates example_swarm 1 (own_address (example_node 8)) 5 example_start)"
  using example_start_send [of Debug] by (simp add: main_exec_def main_loop_iff)

theorem program_refines_purse_witness:
  "\<exists>nd'. run_ops (main_exec ref_crates Debug example_swarm) example_start [Stdin 1 (Line example_line)] = Ret nd' \<and>
     unat (own_balance nd') + sum_list (map (snd \<circ> paid_out ref_crates) (published (n_effects nd'))) = 1000"
  using program_refines_purse [OF example_start example_start_run] example_start_run
  by (simp add: cli_default_def split: run.split) (auto split: option.split)

theorem builds_agree_witness:
  "run_ops (main_exec ref_crates Release example_swarm) example_start [Stdin 1 (Line example_line)] =
     Ret (after_send ref_crates example_swarm 1 (own_address (example_node 8)) 5 example_start)"
  by (rule builds_agree [OF example_start_run])

end
