(* ===== verification/Settlement.thy ===== *)
theory Settlement
  imports Cluster Node_Refine
begin

text \<open>
  Where the money of a network is (debug build, honest nodes). What is held, what is published but not yet
  delivered and what was sent to addresses outside add up, at every moment, to what the nodes were started with, and more than that
  only by what was credited for direct requests; and everything that is still open can be delivered, except what the gossip layer
  refused to take. The one thing assumed of the digest is that no two of the published transactions have the same.
\<close>

section \<open>What is known in the network\<close>

definition hash_of :: "crates \<Rightarrow> bytes \<Rightarrow> string" where
  "hash_of L d = ''0x'' @ hex_encode L (keccak256_digest L d)"

definition distinct_digests :: "crates \<Rightarrow> cluster \<Rightarrow> bool" where
  "distinct_digests L C \<longleftrightarrow> inj_on (keccak256_digest L) (set (cl_gossip C))"

text \<open>What was sent to addresses that belong to no node.\<close>

definition addresses :: "cluster \<Rightarrow> address set" where
  "addresses C = (\<lambda>p. own_address (snd p)) ` set (cl_nodes C)"

definition sent_to_others :: "crates \<Rightarrow> address set \<Rightarrow> bytes \<Rightarrow> nat" where
  "sent_to_others L A d =
     (case from_rlp_bytes L d of Inl _ \<Rightarrow> 0 | Inr tx \<Rightarrow> if tx_to tx \<in> A then 0 else unat (tx_amount tx))"

definition sent_outside :: "crates \<Rightarrow> cluster \<Rightarrow> nat" where
  "sent_outside L C = (\<Sum>d \<in> set (cl_gossip C). sent_to_others L (addresses C) d)"

text \<open>
  What is published is what some node published; caches hold nothing but hashes of that, and requests nothing
  but published bytes; no nonce has come round.
\<close>

definition known_inv :: "crates \<Rightarrow> cluster \<Rightarrow> bool" where
  "known_inv L C \<longleftrightarrow>
     set (cl_gossip C) = (\<Union>p \<in> set (cl_nodes C). set (published (n_effects (snd p)))) \<and>
     (\<forall>p \<in> set (cl_nodes C). n_cache (snd p) \<subseteq> hash_of L ` set (cl_gossip C)) \<and>
     (\<forall>r \<in> set (cl_requests C). tx_rlp (snd r) \<in> set (cl_gossip C)) \<and>
     (\<forall>p \<in> set (cl_nodes C). length (published (n_effects (snd p))) < 2 ^ 64)"

definition settle_inv :: "crates \<Rightarrow> nat \<Rightarrow> cluster \<Rightarrow> bool" where
  "settle_inv L m C \<longleftrightarrow>
     cluster_inv L m C \<and> known_inv L C \<and>
     (distinct_digests L C \<longrightarrow>
        m \<le> held C + gossip_open L C + sent_outside L C \<and> held C + gossip_open L C + sent_outside L C \<le> m + cl_direct C)"

lemma known_invD:
  assumes "known_inv L C"
  shows "set (cl_gossip C) = (\<Union>p \<in> set (cl_nodes C). set (published (n_effects (snd p))))"
    "p \<in> set (cl_nodes C) \<Longrightarrow> n_cache (snd p) \<subseteq> hash_of L ` set (cl_gossip C)"
    "r \<in> set (cl_requests C) \<Longrightarrow> tx_rlp (snd r) \<in> set (cl_gossip C)"
    "p \<in> set (cl_nodes C) \<Longrightarrow> length (published (n_effects (snd p))) < 2 ^ 64"
proof -
  note all = assms [unfolded known_inv_def]
  show "set (cl_gossip C) = (\<Union>p \<in> set (cl_nodes C). set (published (n_effects (snd p))))" using all by (elim conjE)
  show "n_cache (snd p) \<subseteq> hash_of L ` set (cl_gossip C)" if "p \<in> set (cl_nodes C)" using all that by blast
  show "tx_rlp (snd r) \<in> set (cl_gossip C)" if "r \<in> set (cl_requests C)" using all that by blast
  show "length (published (n_effects (snd p))) < 2 ^ 64" if "p \<in> set (cl_nodes C)" using all that by blast
qed

lemma hash_of_tx: "tx_hash L tx = hash_of L (to_rlp_bytes L tx)"
  by (simp add: tx_hash_def hash_of_def)

lemma hash_of_eq: "hex_ok L \<Longrightarrow> hash_of L d = hash_of L e \<longleftrightarrow> keccak256_digest L d = keccak256_digest L e"
  by (simp add: hash_of_def hex_encode_inj)

lemma published_tx:
  assumes "node_inv L nd" "d \<in> set (published (n_effects nd))"
  obtains tx i where "d = to_rlp_bytes L tx" "from_rlp_bytes L d = Inr tx" "tx_verify L tx = Inr ()"
    "tx_from tx = own_address nd" "i < length (published (n_effects nd))" "tx_nonce tx = of_nat i"
proof -
  obtain txs where ok: "crates_ok L" and sent: "sent_ok L nd txs" using assms(1) by (auto simp: node_inv_def)
  have pub: "published (n_effects nd) = map (to_rlp_bytes L) txs" and n: "map tx_nonce txs = map of_nat [0..<length txs]"
    and all: "\<forall>tx \<in> set txs. tx_wf tx \<and> tx_verify L tx = Inr () \<and> tx_from tx = own_address nd"
    using sent by (simp_all add: sent_ok_def)
  obtain i where i: "i < length txs" "d = to_rlp_bytes L (txs ! i)"
    using assms(2) unfolding pub by (auto simp: in_set_conv_nth)
  have "map tx_nonce txs ! i = of_nat i" unfolding n using i(1) by simp
  then have "tx_nonce (txs ! i) = of_nat i" using i(1) by simp
  moreover have "txs ! i \<in> set txs" using i(1) by simp
  ultimately show thesis
    using that [of "txs ! i" i] i all pub from_rlp_bytes_encode [OF crates_okD(4) [OF ok]] by simp
qed

lemma known_tx:
  assumes "settle_inv L m C" "d \<in> set (cl_gossip C)"
  obtains tx p i where "d = to_rlp_bytes L tx" "from_rlp_bytes L d = Inr tx" "tx_verify L tx = Inr ()" "tx_hash L tx = hash_of L d"
    "p \<in> set (cl_nodes C)" "tx_from tx = own_address (snd p)" "i < length (published (n_effects (snd p)))" "tx_nonce tx = of_nat i"
proof -
  obtain p where p: "p \<in> set (cl_nodes C)" "d \<in> set (published (n_effects (snd p)))"
    using assms by (auto simp: settle_inv_def known_inv_def)
  then have "node_inv L (snd p)" using assms(1) by (simp add: settle_inv_def cluster_inv_def)
  from published_tx [OF this p(2)] obtain tx i where tx: "d = to_rlp_bytes L tx" "from_rlp_bytes L d = Inr tx"
    "tx_verify L tx = Inr ()" "tx_from tx = own_address (snd p)" "i < length (published (n_effects (snd p)))" "tx_nonce tx = of_nat i" .
  show thesis by (rule that [OF tx(1-3) _ p(1) tx(4-6)]) (simp add: hash_of_tx tx(1))
qed

section \<open>What a turn does to the sums\<close>

lemma turn_addresses:
  assumes "cluster_inv L m C" "k < length (cl_nodes C)" "main_loop L bp W (node_at C k) i nd'"
  shows "addresses (node_turn k nd' C) = addresses C"
proof -
  have set: "addresses D = set (map (\<lambda>p. own_address (snd p)) (cl_nodes D))" for D by (simp add: addresses_def)
  show ?thesis unfolding set turn_nodes(4) [OF assms] ..
qed

text \<open>A cache that grows by one hash matters to the messages with that hash only.\<close>

lemma due_unchanged:
  assumes "n_wallet nd' = n_wallet nd" "n_cache nd \<subseteq> n_cache nd'" "n_cache nd' \<subseteq> insert h (n_cache nd)"
    and "\<And>tx. from_rlp_bytes L e = Inr tx \<Longrightarrow> tx_hash L tx \<noteq> h"
  shows "gossip_due L e nd' = gossip_due L e nd"
proof -
  have "tx_hash L tx \<in> n_cache nd' \<longleftrightarrow> tx_hash L tx \<in> n_cache nd" if "payable L nd e = Some tx" for tx
    using assms(2-4) payable_SomeD [OF that] by blast
  then show ?thesis unfolding gossip_due_def payable_cong [OF assms(1)] by (auto split: option.split)
qed

text \<open>A turn that publishes nothing and settles at most the message \<open>d\<close>, and what remains open of a message.\<close>

definition message_open :: "crates \<Rightarrow> bytes \<Rightarrow> cluster \<Rightarrow> nat" where
  "message_open L d C = (\<Sum>p \<leftarrow> cl_nodes C. gossip_due L d (snd p))"

lemma gossip_open_sum: "gossip_open L C = (\<Sum>d \<in> set (cl_gossip C). message_open L d C)"
  by (simp add: gossip_open_def message_open_def)

lemma turn_message_open:
  "k < length (cl_nodes C) \<Longrightarrow>
   message_open L d (node_turn k nd' C) + gossip_due L d (node_at C k) = message_open L d C + gossip_due L d nd'"
  unfolding message_open_def by (rule turn_gossip_due)

lemma settling_others:
  assumes "settle_inv L m C" "k < length (cl_nodes C)" "main_loop L bp W (node_at C k) i nd'"
    and "d \<in> set (cl_gossip C)" "n_cache nd' \<subseteq> insert (hash_of L d) (n_cache (node_at C k))"
    and "distinct_digests L C" "e \<in> set (cl_gossip C)" "e \<noteq> d"
  shows "message_open L e (node_turn k nd' C) = message_open L e C"
proof -
  have inv: "cluster_inv L m C" and hex: "hex_ok L"
    using assms(1,2) crates_okD(1) by (auto simp: settle_inv_def cluster_inv_def node_inv_def dest!: nth_mem)
  note mono = turn_mono [OF turn_nodes(1) [OF inv assms(2,3)] assms(3)]
  have "tx_hash L tx \<noteq> hash_of L d" if "from_rlp_bytes L e = Inr tx" for tx
  proof -
    obtain tx' where "from_rlp_bytes L e = Inr tx'" "tx_hash L tx' = hash_of L e" by (rule known_tx [OF assms(1,7)])
    then have "tx_hash L tx = hash_of L e" using that by simp
    then show ?thesis
      using assms(4,6-8) by (auto simp: hash_of_eq [OF hex] distinct_digests_def dest: inj_onD)
  qed
  then have "gossip_due L e nd' = gossip_due L e (node_at C k)" by (rule due_unchanged [OF mono assms(5)])
  then show ?thesis using turn_message_open [OF assms(2), of L e nd'] by simp
qed

lemma settling_turn:
  assumes "settle_inv L m C" "k < length (cl_nodes C)" "main_loop L bp W (node_at C k) i nd'"
    and "accepted_send L (node_at C k) i = None" "d \<in> set (cl_gossip C)" "n_cache nd' \<subseteq> insert (hash_of L d) (n_cache (node_at C k))"
    and "distinct_digests L C"
  shows "held (node_turn k nd' C) + gossip_open L (node_turn k nd' C) + (unat (own_balance (node_at C k)) + gossip_due L d (node_at C k)) =
    held C + gossip_open L C + (unat (own_balance nd') + gossip_due L d nd')"
proof -
  have inv: "cluster_inv L m C" using assms(1) by (simp add: settle_inv_def)
  let ?C = "node_turn k nd' C"
  have other: "message_open L e ?C = message_open L e C" if "e \<in> set (cl_gossip C) - {d}" for e
    using that settling_others [OF assms(1-3,5-7), of e] by simp
  have same: "cl_gossip ?C = cl_gossip C" using silent_turn(1) [OF inv assms(2-4)] .
  have split: "gossip_open L D = message_open L d D + (\<Sum>e \<in> set (cl_gossip C) - {d}. message_open L e D)"
    if "cl_gossip D = cl_gossip C" for D
    unfolding gossip_open_sum that using assms(5) by (simp add: sum.remove)
  have "gossip_open L ?C + gossip_due L d (node_at C k) = gossip_open L C + gossip_due L d nd'"
    using split [OF same] split [of C] other turn_message_open [OF assms(2), of L d nd'] by simp
  then show ?thesis using turn_held [OF assms(2), of nd'] by simp
qed

text \<open>A turn that leaves balance and cache alone.\<close>

lemma idle_turn:
  assumes "cluster_inv L m C" "k < length (cl_nodes C)" "main_loop L bp W (node_at C k) i nd'"
    and "accepted_send L (node_at C k) i = None" "quiet (node_at C k) nd'"
  shows "held (node_turn k nd' C) = held C" "gossip_open L (node_turn k nd' C) = gossip_open L C"
proof -
  show "held (node_turn k nd' C) = held C" using turn_held [OF assms(2), of nd'] quiet_own [OF assms(5)] by simp
  have "payable L nd' = payable L (node_at C k)" using assms(5) by (intro payable_cong) (simp add: quiet_def)
  then have "gossip_due L d nd' = gossip_due L d (node_at C k)" for d
    using assms(5) unfolding gossip_due_def quiet_def by (simp split: option.split)
  then have "(\<Sum>p \<leftarrow> cl_nodes (node_turn k nd' C). gossip_due L d (snd p)) = (\<Sum>p \<leftarrow> cl_nodes C. gossip_due L d (snd p))" for d
    using turn_gossip_due [OF assms(2), where d = d and L = L and nd' = nd'] by simp
  then show "gossip_open L (node_turn k nd' C) = gossip_open L C"
    using silent_turn(1) [OF assms(1-4)] by (simp add: gossip_open_def)
qed

lemma local_quiet:
  assumes "ed25519_ok L" "wallet_wf L (n_wallet nd)" "main_loop L bp W nd i nd'" "\<not> is_message i" "accepted_send L nd i = None"
  shows "quiet nd nd'"
proof -
  have turn: "input_enabled nd i" "main_turn L bp W nd i = (nd', Ret ())" using assms(3) by (simp_all add: main_loop_iff)
  have event: "quiet nd nd'" if "handle_behaviour_event L bp e nd = (nd', Ret ())" "i = SwarmEvent (Behaviour e)" for e
    using that assms(4) quiet_discovery quiet_response
    by (cases "(L, bp, e, nd)" rule: handle_behaviour_event.cases) auto
  show ?thesis
  proof (cases i)
    case (SwarmEvent ev)
    then show ?thesis using turn event quiet_connection by (cases ev) auto
  next
    case (Stdin now r)
    show ?thesis
    proof (cases r)
      case (Line line)
      then have "n_stdin_open nd" "handle_command L bp W now line nd = (nd', Ret ())" using turn Stdin by simp_all
      from command_outcome [OF assms(1,2) this] show ?thesis by cases (use assms(5) Stdin Line in auto)
    qed (use turn Stdin in \<open>auto simp: quiet_def\<close>)
  qed
qed

text \<open>In a debug build a credit that is survived adds exactly.\<close>

lemma credit_exact:
  assumes "\<not> credit_overflows Debug v nd"
  shows "unat (own_balance (credit_own v nd)) = unat (own_balance nd) + unat v"
  using arg_cong [OF purse_of_credit [OF assms], of pu_balance] by simp

lemma gossip_effect:
  assumes "main_loop L Debug W nd (gossip_input src mid d) nd'"
  shows "unat (own_balance nd') = unat (own_balance nd) + gossip_due L d nd"
    "n_cache nd' \<subseteq> (case valid_hash L d of None \<Rightarrow> {} | Some h \<Rightarrow> {h}) \<union> n_cache nd"
proof -
  have g: "on_gossip L Debug d nd = (nd', Ret ())" using assms by (simp add: main_loop_iff)
  show "n_cache nd' \<subseteq> (case valid_hash L d of None \<Rightarrow> {} | Some h \<Rightarrow> {h}) \<union> n_cache nd"
    using g by (auto simp: on_gossip_eq split: option.splits if_splits)
  show "unat (own_balance nd') = unat (own_balance nd) + gossip_due L d nd"
    using g credit_exact [of _ nd]
    by (auto simp: on_gossip_eq gossip_due_def dest: payable_SomeD split: option.splits if_splits)
qed

lemma request_effect:
  assumes "main_loop L Debug W nd (request_input src req ch) nd'"
  shows "unat (own_balance nd') = unat (own_balance nd) + unat (income L nd (request_input src req ch))"
    "n_cache nd' \<subseteq> (case valid_hash L (tx_rlp req) of None \<Rightarrow> {} | Some h \<Rightarrow> {h}) \<union> n_cache nd"
    "gossip_due L (tx_rlp req) nd' = 0" "gossip_due L (tx_rlp req) nd \<le> unat (income L nd (request_input src req ch))"
proof -
  have r: "on_transfer_request L Debug req ch nd = (nd', Ret ())" using assms by (simp add: main_loop_iff)
  show "n_cache nd' \<subseteq> (case valid_hash L (tx_rlp req) of None \<Rightarrow> {} | Some h \<Rightarrow> {h}) \<union> n_cache nd"
    using r by (auto simp: on_transfer_request_eq dest: payable_SomeD split: option.splits if_splits)
  show "unat (own_balance nd') = unat (own_balance nd) + unat (income L nd (request_input src req ch))"
    using r credit_exact [of _ nd] by (auto simp: on_transfer_request_eq split: option.splits if_splits)
  have "payable L nd' = payable L nd"
    using r by (intro payable_cong) (auto simp: on_transfer_request_eq split: option.splits if_splits)
  then show "gossip_due L (tx_rlp req) nd' = 0"
    using r by (auto simp: on_transfer_request_eq gossip_due_def split: option.splits if_splits)
  show "gossip_due L (tx_rlp req) nd \<le> unat (income L nd (request_input src req ch))"
    by (simp add: gossip_due_def split: option.split)
qed

section \<open>The knowledge is kept\<close>

lemma effects_grow:
  assumes "node_inv L nd" "main_loop L bp W nd i nd'"
  shows "n_effects nd' = n_effects nd @ new_effects nd nd'"
proof -
  have "ed25519_ok L" "wallet_wf L (n_wallet nd)" using assms(1) crates_okD by (auto simp: node_inv_def node_wf_def)
  from main_loop_cases [OF this assms(2)] have "\<exists>es. n_effects nd' = n_effects nd @ es"
    by cases (auto simp: quiet_def after_send_def Let_def)
  then show ?thesis by (auto simp: new_effects_append)
qed

lemma published_grows:
  "node_inv L nd \<Longrightarrow> main_loop L bp W nd i nd' \<Longrightarrow>
   published (n_effects nd') = published (n_effects nd) @ published (new_effects nd nd')"
  using effects_grow [of L nd bp W i nd'] by (metis published_append)

lemma turn_published:
  assumes "settle_inv L m C" "k < length (cl_nodes C)" "main_loop L bp W (node_at C k) i nd'"
  shows "set (cl_gossip (node_turn k nd' C)) =
    (\<Union>p \<in> set (cl_nodes (node_turn k nd' C)). set (published (n_effects (snd p))))"
proof -
  have inv: "cluster_inv L m C" using assms(1) by (simp add: settle_inv_def)
  let ?P = "\<lambda>p :: peer_id \<times> node. set (published (n_effects (snd p)))"
  have grows: "?P (x, nd') = ?P (cl_nodes C ! k) \<union> set (published (new_effects (node_at C k) nd'))" for x
    using published_grows [OF turn_nodes(1) [OF inv assms(2,3)] assms(3)] by (simp add: node_at_def)
  have "(\<Union>p \<in> set ((cl_nodes C)[k := (x, nd')]). ?P p) =
      (\<Union>p \<in> set (cl_nodes C). ?P p) \<union> set (published (new_effects (node_at C k) nd'))" for x
  proof -
    have "set (cl_nodes C) = insert (cl_nodes C ! k) (set (take k (cl_nodes C)) \<union> set (drop (Suc k) (cl_nodes C)))"
      using assms(2) by (metis id_take_nth_drop Un_insert_right list.simps(15) set_append)
    moreover have "set ((cl_nodes C)[k := (x, nd')]) = insert (x, nd') (set (take k (cl_nodes C)) \<union> set (drop (Suc k) (cl_nodes C)))"
      using assms(2) by (simp add: upd_conv_take_nth_drop)
    ultimately show ?thesis using grows by auto
  qed
  then show ?thesis using assms(1) by (simp add: node_turn_eq settle_inv_def known_inv_def)
qed

text \<open>A turn keeps the knowledge when its node remembers, asks for and has published nothing else.\<close>

lemma known_turn:
  assumes "settle_inv L m C" "k < length (cl_nodes C)" "main_loop L bp W (node_at C k) i nd'"
    and "n_cache nd' \<subseteq> n_cache (node_at C k) \<union> hash_of L ` set (cl_gossip (node_turn k nd' C))"
    and "\<forall>r \<in> set (requested (new_effects (node_at C k) nd')). tx_rlp (snd r) \<in> set (published (new_effects (node_at C k) nd'))"
    and "length (published (n_effects nd')) < 2 ^ 64"
  shows "known_inv L (node_turn k nd' C)"
proof -
  let ?C = "node_turn k nd' C"
  have known: "known_inv L C" using assms(1) by (simp add: settle_inv_def)
  have more: "set (cl_gossip C) \<subseteq> set (cl_gossip ?C)" "set (published (new_effects (node_at C k) nd')) \<subseteq> set (cl_gossip ?C)"
    by (auto simp: node_turn_eq)
  have nodes: "set (cl_nodes ?C) \<subseteq> insert (fst (cl_nodes C ! k), nd') (set (cl_nodes C))"
    by (auto simp: node_turn_eq dest: set_update_subset_insert [THEN subsetD])
  have at: "n_cache (node_at C k) \<subseteq> hash_of L ` set (cl_gossip C)"
    unfolding node_at_def by (rule known_invD(2) [OF known]) (use assms(2) in simp)
  have "n_cache (snd p) \<subseteq> hash_of L ` set (cl_gossip ?C) \<and> length (published (n_effects (snd p))) < 2 ^ 64"
    if "p \<in> set (cl_nodes ?C)" for p
  proof (cases "p \<in> set (cl_nodes C)")
    case True
    then have "n_cache (snd p) \<subseteq> hash_of L ` set (cl_gossip C)" "length (published (n_effects (snd p))) < 2 ^ 64"
      by (rule known_invD(2) [OF known], rule known_invD(4) [OF known])
    then show ?thesis using more(1) by blast
  next
    case False
    then have "snd p = nd'" using that nodes by auto
    then show ?thesis using assms(4,6) at more(1) by blast
  qed
  moreover have "tx_rlp (snd r) \<in> set (cl_gossip ?C)" if "r \<in> set (cl_requests ?C)" for r
  proof -
    have "r \<in> set (cl_requests C) \<or> r \<in> set (requested (new_effects (node_at C k) nd'))" using that by (auto simp: node_turn_eq)
    then show ?thesis using known_invD(3) [OF known] more assms(5) by blast
  qed
  ultimately show ?thesis using turn_published [OF assms(1-3)] by (simp add: known_inv_def)
qed

lemma known_frame [simp]:
  "known_inv L (C\<lparr>cl_sent := x\<rparr>) = known_inv L C" "known_inv L (C\<lparr>cl_direct := x\<rparr>) = known_inv L C"
  "distinct_digests L (C\<lparr>cl_sent := x\<rparr>) = distinct_digests L C" "distinct_digests L (C\<lparr>cl_direct := x\<rparr>) = distinct_digests L C"
  "sent_outside L (C\<lparr>cl_sent := x\<rparr>) = sent_outside L C" "sent_outside L (C\<lparr>cl_direct := x\<rparr>) = sent_outside L C"
  "addresses (C\<lparr>cl_sent := x\<rparr>) = addresses C" "addresses (C\<lparr>cl_direct := x\<rparr>) = addresses C"
  "distinct_digests L (take_request n C) = distinct_digests L C" "sent_outside L (take_request n C) = sent_outside L C"
  "addresses (take_request n C) = addresses C"
  by (simp_all add: known_inv_def distinct_digests_def sent_outside_def addresses_def)

lemma settle_take:
  assumes "settle_inv L m C" "n < length (cl_requests C)" shows "settle_inv L m (take_request n C)"
proof -
  have known: "known_inv L C" using assms(1) by (simp add: settle_inv_def)
  have "set (cl_requests (take_request n C)) \<subseteq> set (cl_requests C)"
    by (auto simp: take_request_def dest: in_set_takeD in_set_dropD)
  then have "known_inv L (take_request n C)" using known unfolding known_inv_def take_request_sel by blast
  then show ?thesis using assms cluster_inv_take [of L m C n] by (simp add: settle_inv_def)
qed

section \<open>Every turn keeps the account\<close>

lemma no_new_outside:
  assumes "cluster_inv L m C" "k < length (cl_nodes C)" "main_loop L bp W (node_at C k) i nd'"
    and "accepted_send L (node_at C k) i = None"
  shows "sent_outside L (node_turn k nd' C) = sent_outside L C" "distinct_digests L (node_turn k nd' C) = distinct_digests L C"
  using silent_turn(1) [OF assms] turn_addresses [OF assms(1-3)] by (simp_all add: sent_outside_def distinct_digests_def)

lemma known_silent:
  assumes "settle_inv L m C" "k < length (cl_nodes C)" "main_loop L bp W (node_at C k) i nd'"
    and "accepted_send L (node_at C k) i = None" "n_cache nd' \<subseteq> n_cache (node_at C k) \<union> hash_of L ` set (cl_gossip C)"
  shows "known_inv L (node_turn k nd' C)"
proof -
  have inv: "cluster_inv L m C" "known_inv L C" using assms(1) by (simp_all add: settle_inv_def)
  note nd = turn_nodes(1) [OF inv(1) assms(2,3)]
  note silent = turn_silent [OF nd assms(3,4)]
  have "length (published (n_effects (node_at C k))) < 2 ^ 64"
    unfolding node_at_def by (rule known_invD(4) [OF inv(2)]) (use assms(2) in simp)
  then show ?thesis
    using known_turn [OF assms(1-3)] assms(5) silent published_grows [OF nd assms(3)] silent_turn(1) [OF inv(1) assms(2-4)] by simp
qed

lemma message_hash:
  assumes "settle_inv L m C" "d \<in> set (cl_gossip C)"
  shows "(case valid_hash L d of None \<Rightarrow> {} | Some h \<Rightarrow> {h}) = {hash_of L d}"
proof -
  obtain tx where "from_rlp_bytes L d = Inr tx" "tx_verify L tx = Inr ()" "tx_hash L tx = hash_of L d"
    by (rule known_tx [OF assms])
  then show ?thesis by (simp add: valid_hash_def)
qed

lemma gossip_settles:
  assumes "settle_inv L m C" "k < length (cl_nodes C)" "d \<in> set (cl_gossip C)"
    and "main_loop L Debug W (node_at C k) (gossip_input src mid d) nd'"
  shows "settle_inv L m (node_turn k nd' C)"
proof -
  have inv: "cluster_inv L m C" using assms(1) by (simp add: settle_inv_def)
  note none = accepted_send_other(1) [of L "node_at C k"]
  note eff = gossip_effect [OF assms(4)]
  have cache: "n_cache nd' \<subseteq> insert (hash_of L d) (n_cache (node_at C k))" using eff(2) message_hash [OF assms(1,3)] by auto
  have "held (node_turn k nd' C) + gossip_open L (node_turn k nd' C) = held C + gossip_open L C" if "distinct_digests L C"
    using settling_turn [OF assms(1,2,4) none assms(3) cache that] eff(1) gossip_due_handled [OF assms(4)] by simp
  moreover have "known_inv L (node_turn k nd' C)"
    by (rule known_silent [OF assms(1,2,4) none]) (use cache assms(3) in auto)
  ultimately show ?thesis
    using assms(1) gossip_inv [OF inv assms(2-4)] no_new_outside [OF inv assms(2,4) none] by (simp add: settle_inv_def)
qed

lemma request_settles:
  assumes "settle_inv L m C" "k < length (cl_nodes C)" "n < length (cl_requests C)"
    and "cl_requests C ! n = (fst (cl_nodes C ! k), req)" "main_loop L Debug W (node_at C k) (request_input src req ch) nd'"
  shows "settle_inv L m ((node_turn k nd' (take_request n C))
    \<lparr>cl_direct := cl_direct C + unat (income L (node_at C k) (request_input src req ch))\<rparr>)"
    (is "settle_inv L m (?C\<lparr>cl_direct := ?x\<rparr>)")
proof -
  let ?T = "take_request n C"
  have inv: "cluster_inv L m C" "known_inv L C"
    and sums: "distinct_digests L C \<longrightarrow> m \<le> held C + gossip_open L C + sent_outside L C \<and>
      held C + gossip_open L C + sent_outside L C \<le> m + cl_direct C"
    using assms(1) by (simp_all add: settle_inv_def)
  note T = settle_take [OF assms(1,3)]
  then have T_inv: "cluster_inv L m ?T" by (simp add: settle_inv_def)
  have k: "k < length (cl_nodes ?T)" and loop: "main_loop L Debug W (node_at ?T k) (request_input src req ch) nd'"
    using assms(2,5) by simp_all
  note none = accepted_send_other(1) [of L "node_at ?T k"]
  have "cl_requests C ! n \<in> set (cl_requests C)" using assms(3) by simp
  from known_invD(3) [OF inv(2) this] have d: "tx_rlp req \<in> set (cl_gossip ?T)" by (simp add: assms(4))
  note eff = request_effect [OF loop]
  have cache: "n_cache nd' \<subseteq> insert (hash_of L (tx_rlp req)) (n_cache (node_at ?T k))"
    using eff(2) message_hash [OF T d] by auto
  have known: "known_inv L ?C" by (rule known_silent [OF T k loop none]) (use cache d in auto)
  have "held C + gossip_open L C \<le> held ?C + gossip_open L ?C \<and>
      held ?C + gossip_open L ?C \<le> held C + gossip_open L C + unat (income L (node_at C k) (request_input src req ch))"
    if "distinct_digests L C"
    using settling_turn [OF T k loop none d cache] that eff(1,3,4) by simp
  moreover have "sent_outside L ?C = sent_outside L C" "distinct_digests L ?C = distinct_digests L C"
    using no_new_outside [OF T_inv k loop none] by simp_all
  ultimately have "m \<le> held ?C + gossip_open L ?C + sent_outside L ?C \<and>
      held ?C + gossip_open L ?C + sent_outside L ?C \<le> m + ?x" if "distinct_digests L ?C"
    using that sums by (simp del: income.simps)
  then show ?thesis
    using request_inv [OF inv(1) assms(2-5)] known by (simp add: settle_inv_def del: income.simps)
qed

lemma idle_settles:
  assumes "settle_inv L m C" "k < length (cl_nodes C)" "\<not> is_message i" "main_loop L Debug W (node_at C k) i nd'"
    and "accepted_send L (node_at C k) i = None"
  shows "settle_inv L m ((node_turn k nd' C)\<lparr>cl_sent := cl_sent C + unat (spending L (node_at C k) i)\<rparr>)"
proof -
  have inv: "cluster_inv L m C" using assms(1) by (simp add: settle_inv_def)
  note nd = turn_nodes(1) [OF inv assms(2,4)]
  have "ed25519_ok L" "wallet_wf L (n_wallet (node_at C k))" using nd crates_okD by (auto simp: node_inv_def node_wf_def)
  from local_quiet [OF this assms(4,3,5)] have q: "quiet (node_at C k) nd'" .
  have "known_inv L (node_turn k nd' C)"
    by (rule known_silent [OF assms(1,2,4,5)]) (use q in \<open>auto simp: quiet_def\<close>)
  then show ?thesis
    using assms(1) local_inv [OF inv assms(2-4)] idle_turn [OF inv assms(2,4,5) q] no_new_outside [OF inv assms(2,4,5)]
    by (simp add: settle_inv_def)
qed

lemma sum_list_single:
  "distinct (map g xs) \<Longrightarrow> (\<Sum>x \<leftarrow> xs. if g x = a then v else 0) = (if a \<in> g ` set xs then v else (0 :: nat))"
  by (induction xs) auto

text \<open>What an accepted send of a debug build does, in full.\<close>

lemma accepted_turn:
  assumes "node_inv L nd" "main_loop L Debug W nd i nd'" "accepted_send L nd i = Some (to, v)" "length (published (n_effects nd)) < 2 ^ 64"
  obtains tx where "published (new_effects nd nd') = [to_rlp_bytes L tx]"
    "requested (new_effects nd nd') = map (\<lambda>pid. (pid, \<lparr>tx_rlp = to_rlp_bytes L tx\<rparr>)) (n_peers nd)"
    "from_rlp_bytes L (to_rlp_bytes L tx) = Inr tx" "tx_verify L tx = Inr ()"
    "tx_to tx = to" "tx_amount tx = v" "tx_from tx = own_address nd" "tx_nonce tx = of_nat (length (published (n_effects nd)))"
    "n_cache nd' = insert (tx_hash L tx) (n_cache nd)" "to \<noteq> own_address nd"
    "unat (own_balance nd') + unat v = unat (own_balance nd)" "length (published (n_effects nd)) + 1 < 2 ^ 64"
proof -
  obtain txs where crates: "crates_ok L" and w: "wallet_wf L (n_wallet nd)" and sent: "sent_ok L nd txs"
    using assms(1) by (auto simp: node_inv_def node_wf_def)
  note ok = crates_okD [OF crates]
  have "length (published (n_effects nd)) = length txs" using sent by (simp add: sent_ok_def)
  then have nonce: "own_nonce nd = of_nat (length (published (n_effects nd)))" using sent by (simp add: sent_ok_def)
  from assms(3) obtain now line where i: "i = Stdin now (Line line)"
    by (auto simp: accepted_send_def split: loop_input.splits stdin_result.splits)
  have "n_stdin_open nd" "handle_command L Debug W now line nd = (nd', Ret ())"
    using assms(2) by (simp_all add: i main_loop_iff)
  from command_outcome [OF ok(3) w this] show thesis
  proof cases
    case 1
    then show thesis using assms(3) i by simp
  next
    case (2 to' v')
    then have eq: "to' = to" "v' = v" using assms(3) i by simp_all
    let ?tx = "sent_tx L now nd to v"
    have wf: "tx_wf ?tx" unfolding sent_tx_def using 2(2) eq by (intro tx_create_wf [OF ok(3,2) w]) simp
    have "new_effects nd nd' =
        direct_requests L nd ?tx @ Publish TX_TOPIC (to_rlp_bytes L ?tx) # map Println (send_report L W nd ?tx)"
      by (rule new_effects_append) (simp add: 2(4) eq after_send_def Let_def)
    then have msgs: "published (new_effects nd nd') = [to_rlp_bytes L ?tx]"
      "requested (new_effects nd nd') = map (\<lambda>pid. (pid, \<lparr>tx_rlp = to_rlp_bytes L ?tx\<rparr>)) (n_peers nd)"
      by simp_all (simp add: direct_requests_def)
    have to: "to \<noteq> own_address nd" "v \<le> own_balance nd" using transfer_error_own [OF 2(3)] eq by simp_all
    have "unat (own_balance nd') + unat v = unat (own_balance nd)"
      using to after_send_own(2) [OF to(1), of L W now v] by (simp add: 2(4) eq unat_u64_sub_exact word_le_nat_alt)
    moreover have "n_cache nd' = insert (tx_hash L ?tx) (n_cache nd)" by (simp add: 2(4) eq after_send_def Let_def)
    moreover have "length (published (n_effects nd)) + 1 < 2 ^ 64"
      using 2(5) nonce assms(4) by (simp add: send_fits_def unat_of_nat)
    moreover have "tx_verify L ?tx = Inr ()" unfolding sent_tx_def by (rule tx_create_verifies [OF ok(3) w])
    ultimately show thesis
      using that [of ?tx] msgs from_rlp_bytes_encode [OF ok(4) wf] to(1) nonce by simp
  qed
qed

lemma new_message_fresh:
  assumes "settle_inv L m C" "k < length (cl_nodes C)" "from_rlp_bytes L d = Inr tx" "tx_from tx = own_address (node_at C k)"
    and "tx_nonce tx = of_nat (length (published (n_effects (node_at C k))))"
  shows "d \<notin> set (cl_gossip C)"
proof
  assume d: "d \<in> set (cl_gossip C)"
  have inv: "cluster_inv L m C" "known_inv L C" using assms(1) by (simp_all add: settle_inv_def)
  obtain tx' p i where tx: "from_rlp_bytes L d = Inr tx'" "p \<in> set (cl_nodes C)" "tx_from tx' = own_address (snd p)"
    "i < length (published (n_effects (snd p)))" "tx_nonce tx' = of_nat i" by (rule known_tx [OF assms(1) d])
  have "tx' = tx" using tx(1) assms(3) by simp
  then have own: "own_address (snd p) = own_address (snd (cl_nodes C ! k))" using tx(3) assms(4) by (simp add: node_at_def)
  have at: "cl_nodes C ! k \<in> set (cl_nodes C)" using assms(2) by simp
  have "inj_on (\<lambda>p. own_address (snd p)) (set (cl_nodes C))" using inv(1) by (simp add: cluster_inv_def distinct_map)
  then have p: "p = cl_nodes C ! k" using own tx(2) at by (rule inj_onD)
  let ?n = "length (published (n_effects (node_at C k)))"
  have "?n < 2 ^ 64" unfolding node_at_def by (rule known_invD(4) [OF inv(2) at])
  moreover have "i < ?n" using tx(4) by (simp add: p node_at_def)
  moreover have "(of_nat i :: u64) = of_nat ?n" using tx(5) assms(5) \<open>tx' = tx\<close> by simp
  then have "unat (of_nat i :: u64) = unat (of_nat ?n :: u64)" by simp
  ultimately show False by (simp add: unat_of_nat)
qed

lemma send_account:
  assumes "settle_inv L m C" "k < length (cl_nodes C)" "main_loop L Debug W (node_at C k) i nd'"
    and "published (new_effects (node_at C k) nd') = [d]" "from_rlp_bytes L d = Inr tx" "d = to_rlp_bytes L tx"
    and "tx_verify L tx = Inr ()" "d \<notin> set (cl_gossip C)" "tx_to tx \<noteq> own_address (node_at C k)"
    and "n_cache nd' = insert (tx_hash L tx) (n_cache (node_at C k))" "distinct_digests L (node_turn k nd' C)"
  shows "gossip_open L (node_turn k nd' C) + sent_outside L (node_turn k nd' C) =
      gossip_open L C + sent_outside L C + unat (tx_amount tx)" "distinct_digests L C"
proof -
  let ?C = "node_turn k nd' C" and ?S = "\<lambda>C d. \<Sum>p \<leftarrow> cl_nodes C. gossip_due L d (snd p)"
  have inv: "cluster_inv L m C" "known_inv L C" using assms(1) by (simp_all add: settle_inv_def)
  have hex: "hex_ok L" using turn_nodes(1) [OF inv(1) assms(2,3)] crates_okD(1) by (auto simp: node_inv_def)
  note mono = turn_mono [OF turn_nodes(1) [OF inv(1) assms(2,3)] assms(3)]
  note addr = turn_addresses [OF inv(1) assms(2,3)]
  have gossip: "cl_gossip ?C = cl_gossip C @ [d]" by (simp add: node_turn_eq assms(4))
  show dist: "distinct_digests L C"
    using assms(11) unfolding distinct_digests_def gossip by (rule inj_on_subset) auto
  have hash: "hash_of L e \<noteq> hash_of L d" if "e \<in> set (cl_gossip C)" for e
  proof
    assume "hash_of L e = hash_of L d"
    then have "keccak256_digest L e = keccak256_digest L d" by (simp add: hash_of_eq [OF hex])
    with assms(11) have "e = d" unfolding distinct_digests_def gossip by (rule inj_onD) (use that in simp_all)
    then show False using that assms(8) by simp
  qed
  have h: "tx_hash L tx = hash_of L d" by (simp add: hash_of_tx assms(6))
  have old: "?S ?C e = ?S C e" if e: "e \<in> set (cl_gossip C)" for e
  proof -
    obtain tx' where tx': "from_rlp_bytes L e = Inr tx'" "tx_hash L tx' = hash_of L e" by (rule known_tx [OF assms(1) e])
    have "gossip_due L e nd' = gossip_due L e (node_at C k)"
      by (rule due_unchanged [OF mono, where h = "hash_of L d"]) (use tx' hash [OF e] assms(10) h in auto)
    then show ?thesis using turn_gossip_due [OF assms(2), where d = e and L = L and nd' = nd'] by simp
  qed
  have due: "gossip_due L d (snd p) = (if own_address (snd p) = tx_to tx then unat (tx_amount tx) else 0)"
    if p: "p \<in> set (cl_nodes ?C)" for p
  proof (cases "own_address (snd p) = tx_to tx")
    case True
    then have pay: "payable L (snd p) d = Some tx" using assms(5,7) by (simp add: payable_def own_address_def)
    have "p \<in> set (cl_nodes C)"
    proof (rule ccontr)
      assume "p \<notin> set (cl_nodes C)"
      then have "snd p = nd'" using p by (auto simp: node_turn_eq dest: set_update_subset_insert [THEN subsetD])
      then show False using True assms(9) mono(1) by (simp add: own_address_def)
    qed
    then have "n_cache (snd p) \<subseteq> hash_of L ` set (cl_gossip C)" by (rule known_invD(2) [OF inv(2)])
    moreover have "hash_of L d \<notin> hash_of L ` set (cl_gossip C)" using hash by (metis imageE)
    ultimately have "tx_hash L tx \<notin> n_cache (snd p)" using h by auto
    then show ?thesis using True pay by (simp add: gossip_due_def)
  next
    case False
    then have "payable L (snd p) d = None" using assms(5) by (simp add: payable_def own_address_def)
    then show ?thesis using False by (simp add: gossip_due_def)
  qed
  have "distinct (map (\<lambda>p. own_address (snd p)) (cl_nodes ?C))"
    unfolding turn_nodes(4) [OF inv(1) assms(2,3)] using inv(1) by (simp add: cluster_inv_def)
  then have "(\<Sum>p \<leftarrow> cl_nodes ?C. if own_address (snd p) = tx_to tx then unat (tx_amount tx) else 0) =
      (if tx_to tx \<in> addresses ?C then unat (tx_amount tx) else 0)"
    unfolding addresses_def by (rule sum_list_single)
  moreover have "?S ?C d = (\<Sum>p \<leftarrow> cl_nodes ?C. if own_address (snd p) = tx_to tx then unat (tx_amount tx) else 0)"
    by (intro arg_cong [where f = sum_list] map_cong refl due)
  ultimately have new: "?S ?C d = (if tx_to tx \<in> addresses C then unat (tx_amount tx) else 0)" by (simp add: addr)
  have "gossip_open L ?C = ?S ?C d + gossip_open L C"
    unfolding gossip_open_def gossip using assms(8) old by (simp add: sum.insert)
  moreover have "sent_outside L ?C = sent_to_others L (addresses C) d + sent_outside L C"
    unfolding sent_outside_def gossip addr using assms(8) by (simp add: sum.insert)
  ultimately show "gossip_open L ?C + sent_outside L ?C = gossip_open L C + sent_outside L C + unat (tx_amount tx)"
    unfolding new by (simp add: sent_to_others_def assms(5))
qed

lemma send_settles:
  assumes "settle_inv L m C" "k < length (cl_nodes C)" "\<not> is_message i" "main_loop L Debug W (node_at C k) i nd'"
    and "accepted_send L (node_at C k) i = Some (to, v)"
  shows "settle_inv L m ((node_turn k nd' C)\<lparr>cl_sent := cl_sent C + unat (spending L (node_at C k) i)\<rparr>)"
proof -
  have inv: "cluster_inv L m C" "known_inv L C" using assms(1) by (simp_all add: settle_inv_def)
  note nd = turn_nodes(1) [OF inv(1) assms(2,4)]
  have "length (published (n_effects (node_at C k))) < 2 ^ 64"
    unfolding node_at_def by (rule known_invD(4) [OF inv(2)]) (use assms(2) in simp)
  from accepted_turn [OF nd assms(4,5) this] obtain tx where
    msgs: "published (new_effects (node_at C k) nd') = [to_rlp_bytes L tx]"
    "requested (new_effects (node_at C k) nd') = map (\<lambda>pid. (pid, \<lparr>tx_rlp = to_rlp_bytes L tx\<rparr>)) (n_peers (node_at C k))"
    and dec: "from_rlp_bytes L (to_rlp_bytes L tx) = Inr tx" "tx_verify L tx = Inr ()"
    and tx: "tx_to tx = to" "tx_amount tx = v" "tx_from tx = own_address (node_at C k)"
    "tx_nonce tx = of_nat (length (published (n_effects (node_at C k))))"
    and cache: "n_cache nd' = insert (tx_hash L tx) (n_cache (node_at C k))" and to: "to \<noteq> own_address (node_at C k)"
    and bal: "unat (own_balance nd') + unat v = unat (own_balance (node_at C k))"
    and len: "length (published (n_effects (node_at C k))) + 1 < 2 ^ 64" .
  let ?C = "node_turn k nd' C"
  have "known_inv L ?C"
  proof (rule known_turn [OF assms(1,2,4)])
    show "n_cache nd' \<subseteq> n_cache (node_at C k) \<union> hash_of L ` set (cl_gossip ?C)"
      by (auto simp: cache node_turn_eq msgs hash_of_tx)
    show "length (published (n_effects nd')) < 2 ^ 64" using published_grows [OF nd assms(4)] len by (simp add: msgs)
  qed (simp add: msgs)
  moreover have fresh: "to_rlp_bytes L tx \<notin> set (cl_gossip C)"
    by (rule new_message_fresh [OF assms(1,2) dec(1) tx(3,4)])
  have "held ?C + gossip_open L ?C + sent_outside L ?C = held C + gossip_open L C + sent_outside L C \<and> distinct_digests L C"
    if "distinct_digests L ?C"
    using send_account [OF assms(1,2,4) msgs(1) dec(1) refl dec(2) fresh _ cache that] turn_held [OF assms(2), of nd'] bal to tx(1,2)
    by simp
  ultimately show ?thesis using assms(1) local_inv [OF inv(1) assms(2-4)] by (simp add: settle_inv_def)
qed

section \<open>The invariant\<close>

lemma settle_step:
  assumes "settle_inv L m C" "cluster_step L Debug W C e C'" shows "settle_inv L m C'"
  using assms(2)
proof cases
  case (local_turn k i nd')
  show ?thesis
  proof (cases "accepted_send L (node_at C k) i")
    case None
    then show ?thesis unfolding local_turn(2) by (rule idle_settles [OF assms(1) local_turn(3-5)])
  next
    case (Some p)
    then obtain to v where "accepted_send L (node_at C k) i = Some (to, v)" by (cases p) simp
    then show ?thesis unfolding local_turn(2) by (rule send_settles [OF assms(1) local_turn(3-5)])
  qed
next
  case (gossip_turn k d src mid nd')
  then show ?thesis using gossip_settles [OF assms(1)] by blast
next
  case (request_turn k n req src ch nd')
  show ?thesis unfolding request_turn(2) by (rule request_settles [OF assms(1) request_turn(3-6)])
next
  case (lose_request n)
  then show ?thesis using settle_take [OF assms(1)] by blast
qed

lemma settle_start:
  assumes "cluster_start L hs C" shows "settle_inv L (minted hs) C"
proof -
  have "list_all2 (\<lambda>(H, c) (pid, nd). node_start L H c nd \<and> pid = host_peer_id H (host_identity H)) hs (cl_nodes C)"
    using assms by (simp add: cluster_start_def)
  then have nodes: "\<forall>p \<in> set (cl_nodes C). n_cache (snd p) = {} \<and> published (n_effects (snd p)) = []"
    by (induction rule: list_all2_induct)
      (auto simp: node_start_def main_init_Inr first_node_def no_tx_def intro!: published_no_tx)
  with assms show ?thesis
    using cluster_start_inv [OF assms] cluster_start_held [OF assms]
    by (simp add: settle_inv_def known_inv_def cluster_start_def gossip_open_def sent_outside_def)
qed

interpretation settling: invariant_system "cluster_start L hs" "cluster_step L Debug W" "settle_inv L (minted hs)" for L hs W
  by unfold_locales (rule settle_start, assumption, rule settle_step)

section \<open>Everything open can be delivered\<close>

text \<open>
  What the gossip layer took: the node hands it every payment it sends, but it answers with an error when, for
  example, nobody has subscribed, and then no peer will ever get the message from it.
\<close>

fun taken_from :: "swarm \<Rightarrow> effect list \<Rightarrow> effect list \<Rightarrow> bytes list" where
  "taken_from W before [] = []"
| "taken_from W before (Publish t d # es) =
     (if swarm_publish W before t d = Inr () then [d] else []) @ taken_from W (before @ [Publish t d]) es"
| "taken_from W before (e # es) = taken_from W (before @ [e]) es"

lemma taken_from_append: "taken_from W before (es @ ds) = taken_from W before es @ taken_from W (before @ es) ds"
  by (induction W before es rule: taken_from.induct) simp_all

lemma taken_from_none: "published es = [] \<Longrightarrow> taken_from W before es = []"
  by (induction W before es rule: taken_from.induct) simp_all

definition taken :: "(nat \<Rightarrow> swarm) \<Rightarrow> cluster \<Rightarrow> bytes \<Rightarrow> bool" where
  "taken W C d \<longleftrightarrow> (\<exists>k < length (cl_nodes C). d \<in> set (taken_from (W k) [] (n_effects (node_at C k))))"

text \<open>The open payments that were taken, and those that were refused.\<close>

definition open_taken :: "crates \<Rightarrow> (nat \<Rightarrow> swarm) \<Rightarrow> cluster \<Rightarrow> nat" where
  "open_taken L W C = (\<Sum>d \<in> set (cl_gossip C). if taken W C d then message_open L d C else 0)"

definition open_refused :: "crates \<Rightarrow> (nat \<Rightarrow> swarm) \<Rightarrow> cluster \<Rightarrow> nat" where
  "open_refused L W C = (\<Sum>d \<in> set (cl_gossip C). if taken W C d then 0 else message_open L d C)"

lemma gossip_open_split: "gossip_open L C = open_taken L W C + open_refused L W C"
  unfolding gossip_open_sum open_taken_def open_refused_def sum.distrib [symmetric] by (rule sum.cong) simp_all

text \<open>Some deliveries of messages that were taken, one after the other, and nothing else.\<close>

definition delivered :: "crates \<Rightarrow> (nat \<Rightarrow> swarm) \<Rightarrow> cluster \<Rightarrow> cluster \<Rightarrow> bool" where
  "delivered L W =
     (\<lambda>C C'. \<exists>k src mid d. taken W C d \<and> cluster_step L Debug W C (GossipTo k (gossip_input src mid d)) C')\<^sup>*\<^sup>*"

lemma taken_kept:
  assumes "cluster_inv L m C" "k < length (cl_nodes C)" "main_loop L bp (W k) (node_at C k) i nd'"
    and "accepted_send L (node_at C k) i = None"
  shows "taken W (node_turn k nd' C) = taken W C"
proof -
  note nd = turn_nodes(1) [OF assms(1-3)]
  have "taken_from (W k) [] (n_effects nd') = taken_from (W k) [] (n_effects (node_at C k))"
    using taken_from_none [OF turn_silent(1) [OF nd assms(3,4)]] effects_grow [OF nd assms(3)]
    by (metis append_Nil2 taken_from_append)
  then have "taken_from (W j) [] (n_effects (node_at (node_turn k nd' C) j)) = taken_from (W j) [] (n_effects (node_at C j))"
    if "j < length (cl_nodes C)" for j
    using that assms(2) by (cases "j = k") (simp_all add: node_turn_eq node_at_def)
  moreover have "length (cl_nodes (node_turn k nd' C)) = length (cl_nodes C)" by (simp add: node_turn_eq)
  ultimately show ?thesis by (intro ext) (auto simp: taken_def)
qed

lemma sum_list_zero: "\<forall>x \<in> set xs. f x = 0 \<Longrightarrow> (\<Sum>x \<leftarrow> xs. f x) = (0 :: nat)"
  by (induction xs) simp_all

lemma open_at_node:
  assumes "0 < open_taken L W C"
  obtains d k where "d \<in> set (cl_gossip C)" "taken W C d" "k < length (cl_nodes C)" "0 < gossip_due L d (node_at C k)"
proof -
  obtain d where d: "d \<in> set (cl_gossip C)" "0 < (if taken W C d then message_open L d C else 0)"
    using assms unfolding open_taken_def by (metis (no_types, lifting) not_gr_zero sum.neutral)
  then have t: "taken W C d" and pos: "0 < message_open L d C" by (auto split: if_splits)
  have "\<exists>p \<in> set (cl_nodes C). 0 < gossip_due L d (snd p)"
    using pos sum_list_zero [of "cl_nodes C" "\<lambda>p. gossip_due L d (snd p)"] by (metis message_open_def neq0_conv)
  then obtain k where "k < length (cl_nodes C)" "0 < gossip_due L d (snd (cl_nodes C ! k))" by (auto simp: in_set_conv_nth)
  then show thesis using that [OF d(1) t] by (simp add: node_at_def)
qed

text \<open>A payment that is due does not overflow the balance of its addressee, as all the money fits into 64 bits.\<close>

lemma due_credit_survives:
  assumes "settle_inv L m C" "distinct_digests L C" "m + cl_direct C < 2 ^ 64"
    and "d \<in> set (cl_gossip C)" "k < length (cl_nodes C)" "0 < gossip_due L d (node_at C k)"
  obtains nd' where "main_loop L Debug W (node_at C k) (gossip_input src mid d) nd'"
proof -
  have at: "cl_nodes C ! k \<in> set (cl_nodes C)" "node_at C k = snd (cl_nodes C ! k)" using assms(5) by (simp_all add: node_at_def)
  from assms(6) obtain tx where tx: "payable L (node_at C k) d = Some tx" "tx_hash L tx \<notin> n_cache (node_at C k)"
    "gossip_due L d (node_at C k) = unat (tx_amount tx)"
    by (auto simp: gossip_due_def split: option.splits if_splits)
  have "held C + gossip_open L C \<le> m + cl_direct C" using assms(1,2) by (simp add: settle_inv_def)
  moreover have "unat (own_balance (node_at C k)) \<le> held C"
    using sum_list_member_le [OF at(1), of "\<lambda>(pid, nd). unat (own_balance nd)"] by (simp add: held_def case_prod_unfold at(2))
  moreover have "gossip_due L d (node_at C k) \<le> message_open L d C"
    using sum_list_member_le [OF at(1), of "\<lambda>p. gossip_due L d (snd p)"] by (simp add: message_open_def at(2))
  moreover have "message_open L d C \<le> gossip_open L C"
    unfolding gossip_open_sum by (rule member_le_sum [OF assms(4)]) simp_all
  ultimately have "\<not> credit_overflows Debug (tx_amount tx) (node_at C k)"
    using assms(3) tx(3) by (simp add: credit_overflows_def funds_own_balance)
  then have "\<exists>nd'. on_gossip L Debug d (node_at C k) = (nd', Ret ())"
    using tx payable_SomeD [OF tx(1)] by (simp add: on_gossip_eq)
  then show thesis using that by (auto simp: main_loop_iff)
qed

lemma open_delivery:
  assumes "settle_inv L m C" "distinct_digests L C" "m + cl_direct C < 2 ^ 64" "0 < open_taken L W C"
  obtains k src mid d C' where "taken W C d" "cluster_step L Debug W C (GossipTo k (gossip_input src mid d)) C'"
    "open_taken L W C' < open_taken L W C" "open_refused L W C' = open_refused L W C" "cl_direct C' = cl_direct C"
    "distinct_digests L C'"
proof -
  have inv: "cluster_inv L m C" using assms(1) by (simp add: settle_inv_def)
  from open_at_node [OF assms(4)] obtain d k where d: "d \<in> set (cl_gossip C)" "taken W C d"
    and k: "k < length (cl_nodes C)" "0 < gossip_due L d (node_at C k)" .
  from due_credit_survives [OF assms(1-3) d(1) k] obtain nd' where
    loop: "main_loop L Debug (W k) (node_at C k) (gossip_input [] [] d) nd'" .
  let ?C = "node_turn k nd' C"
  have step: "cluster_step L Debug W C (GossipTo k (gossip_input [] [] d)) ?C" using k(1) d(1) loop by (rule gossip_turn)
  note none = accepted_send_other(1) [of L "node_at C k"]
  have "n_cache nd' \<subseteq> insert (hash_of L d) (n_cache (node_at C k))"
    using gossip_effect(2) [OF loop] message_hash [OF assms(1) d(1)] by auto
  note other = settling_others [OF assms(1) k(1) loop d(1) this assms(2)]
  have less: "message_open L d ?C < message_open L d C"
    using turn_message_open [OF k(1), of L d nd'] gossip_due_handled [OF loop] k(2) by simp
  have same: "cl_gossip ?C = cl_gossip C" "taken W ?C = taken W C"
    using silent_turn(1) [OF inv k(1) loop none] taken_kept [where W = W, OF inv k(1) loop none] by simp_all
  have "open_taken L W ?C < open_taken L W C"
    unfolding open_taken_def same
  proof (rule sum_strict_mono_ex1)
    show "\<forall>e \<in> set (cl_gossip C). (if taken W C e then message_open L e ?C else 0) \<le> (if taken W C e then message_open L e C else 0)"
      using other less by (metis le_refl less_imp_le)
    show "\<exists>e \<in> set (cl_gossip C). (if taken W C e then message_open L e ?C else 0) < (if taken W C e then message_open L e C else 0)"
      using d less by (intro bexI [of _ d]) simp_all
  qed simp
  moreover have "open_refused L W ?C = open_refused L W C"
    unfolding open_refused_def same using other d(2) by (intro sum.cong) auto
  ultimately show thesis
    using that [OF d(2) step] no_new_outside(2) [OF inv k(1) loop none] assms(2) by (simp add: node_turn_eq)
qed

lemma all_delivered:
  assumes "settle_inv L m C" "distinct_digests L C" "m + cl_direct C < 2 ^ 64"
  shows "\<exists>C'. delivered L W C C' \<and> settle_inv L m C' \<and> distinct_digests L C' \<and> cl_direct C' = cl_direct C \<and>
    gossip_open L C' = open_refused L W C"
  using assms
proof (induction "open_taken L W C" arbitrary: C rule: less_induct)
  case less
  show ?case
  proof (cases "open_taken L W C = 0")
    case True
    then show ?thesis using less.prems by (intro exI [of _ C]) (simp add: delivered_def gossip_open_split [of L C W])
  next
    case False
    then have "0 < open_taken L W C" by simp
    from open_delivery [OF less.prems this] obtain k src mid d C1 where
      one: "taken W C d" "cluster_step L Debug W C (GossipTo k (gossip_input src mid d)) C1" "open_taken L W C1 < open_taken L W C"
      "open_refused L W C1 = open_refused L W C" "cl_direct C1 = cl_direct C" "distinct_digests L C1" .
    have "m + cl_direct C1 < 2 ^ 64" using less.prems(3) one(5) by simp
    from less.hyps [OF one(3) settle_step [OF less.prems(1) one(2)] one(6) this] obtain C' where
      C': "delivered L W C1 C'" "settle_inv L m C'" "distinct_digests L C'" "cl_direct C' = cl_direct C1"
      "gossip_open L C' = open_refused L W C1"
      by blast
    have "delivered L W C C'"
      using C'(1) one(1,2) unfolding delivered_def by (blast intro: converse_rtranclp_into_rtranclp)
    then show ?thesis using C' one(4,5) by auto
  qed
qed

text \<open>
  C5: The payments that stay open are those that gossip refuses. In a network of debug builds, as long as no two published transactions have the
  same Keccak-256 digest, the balances the nodes hold, the published payments that have not reached their addressees, and those to
  addresses of nobody add up, in every reachable state, to at least what the nodes were started with, and to at most that and what was
  credited for direct requests. If that fits into 64 bits, no node ever fails to credit a payment that is open: from every such
  state, deliveries of messages that the gossip layer took lead to one in which exactly what it refused (for example because nobody was
  connected) is still open, which no such delivery settles, and all the other money is in the balances except what was sent to strangers.
\<close>

theorem network_settles:
  assumes "reach (cluster_start L hs) (cluster_step L Debug W) C" "distinct_digests L C" "minted hs + cl_direct C < 2 ^ 64"
  shows "minted hs \<le> held C + gossip_open L C + sent_outside L C \<and>
    held C + gossip_open L C + sent_outside L C \<le> minted hs + cl_direct C \<and>
    (\<exists>C'. delivered L W C C' \<and> cl_direct C' = cl_direct C \<and> gossip_open L C' = open_refused L W C \<and>
       minted hs \<le> held C' + open_refused L W C + sent_outside L C' \<and>
       held C' + open_refused L W C + sent_outside L C' \<le> minted hs + cl_direct C)"
proof -
  note inv = settling.reach_inv [OF assms(1)]
  from all_delivered [OF inv assms(2,3)] obtain C' where C': "delivered L W C C'" "settle_inv L (minted hs) C'"
    "distinct_digests L C'" "cl_direct C' = cl_direct C" "gossip_open L C' = open_refused L W C" by blast
  have "minted hs \<le> held C' + open_refused L W C + sent_outside L C' \<and>
      held C' + open_refused L W C + sent_outside L C' \<le> minted hs + cl_direct C"
    using C'(2-5) by (simp add: settle_inv_def)
  then show ?thesis using inv assms(2) C'(1,4,5) by (auto simp: settle_inv_def)
qed

text \<open>In the instance gossip takes everything: the five units on their way arrive, and nothing is missing.\<close>

definition open_swarm :: swarm where
  "open_swarm = example_swarm\<lparr>swarm_publish := \<lambda>_ _ _. Inr ()\<rparr>"

theorem network_settles_witness:
  "\<exists>C C'. cl_gossip C \<noteq> [] \<and> gossip_open ref_crates C \<le> 2000 \<and> delivered ref_crates (\<lambda>_. open_swarm) C C' \<and>
     gossip_open ref_crates C' = 0 \<and> held C' + sent_outside ref_crates C' = 2000"
proof -
  let ?i = "Stdin 1 (Line example_line)"
  let ?nd = "after_send ref_crates open_swarm 1 (own_address (example_node 8)) 5 example_start"
  let ?C = "(node_turn 0 ?nd example_cluster)\<lparr>cl_sent := cl_sent example_cluster +
      unat (spending ref_crates (node_at example_cluster 0) ?i)\<rparr>"
  let ?d = "to_rlp_bytes ref_crates (sent_tx ref_crates 1 example_start (own_address (example_node 8)) 5)"
  have at: "node_at example_cluster 0 = example_start" "0 < length (cl_nodes example_cluster)"
    by (simp_all add: node_at_def example_cluster_def)
  have "cluster_step ref_crates Debug (\<lambda>_. open_swarm) example_cluster (Local 0 ?i) ?C"
    using example_start_send [of Debug open_swarm] at by (intro local_turn) simp_all
  then have r: "reach (cluster_start ref_crates example_hosts) (cluster_step ref_crates Debug (\<lambda>_. open_swarm)) ?C"
    using reach_step [OF reach_init] example_cluster_start by metis
  have one: "cl_gossip ?C = [?d]"
    by (simp add: node_turn_eq at after_send_def Let_def new_effects_def) (simp add: example_cluster_def)
  have "n_effects (node_at ?C 0) = n_effects example_start @ direct_requests ref_crates example_start
      (sent_tx ref_crates 1 example_start (own_address (example_node 8)) 5) @ Publish TX_TOPIC ?d #
      map Println (send_report ref_crates open_swarm example_start
        (sent_tx ref_crates 1 example_start (own_address (example_node 8)) 5))"
    using at by (simp add: node_turn_eq node_at_def after_send_def Let_def)
  then have "taken (\<lambda>_. open_swarm) ?C ?d"
    using at(2) by (auto simp: taken_def taken_from_append open_swarm_def node_turn_eq intro!: exI [of _ 0])
  then have none: "open_refused ref_crates (\<lambda>_. open_swarm) ?C = 0" by (simp only: open_refused_def one) simp
  have zero: "cl_direct ?C = 0" by (simp add: example_cluster_def)
  have dist: "distinct_digests ref_crates ?C" unfolding distinct_digests_def one by simp
  have m: "minted example_hosts = 2000" by (simp add: minted_def example_hosts_def cli_default_def)
  then have "minted example_hosts + cl_direct ?C < 2 ^ 64" using zero by simp
  from network_settles [OF r dist this, unfolded zero m none] obtain C' where "gossip_open ref_crates ?C \<le> 2000"
    "delivered ref_crates (\<lambda>_. open_swarm) ?C C'" "gossip_open ref_crates C' = 0" "held C' + sent_outside ref_crates C' = 2000"
    by (elim conjE exE) simp
  then show ?thesis using one by (intro exI [of _ ?C] exI [of _ C'] conjI) simp_all
qed

end
