(* ===== verification/Adversary.thy ===== *)
theory Adversary
  imports Event_Loop
begin

text \<open>
  What somebody who runs other software can do to a node (\<^verbatim>\<open>src/zyphra/src/main.rs\<close>, the handlers of
  incoming messages): anybody who makes a key pair can write transactions of any amount and nonce to
  a node, and the handlers ask neither for the funds of the sender nor for its nonce. The node's
  own account can so be set to any value; what it signs, its nonce and the accounts of others cannot.
\<close>

section \<open>Messages a stranger can write\<close>

text \<open>The bytes of a transaction to \<open>B\<close> signed with the wallet \<open>w\<close>, with amount and nonce of choice.\<close>

definition forged :: "crates \<Rightarrow> u64 \<Rightarrow> wallet \<Rightarrow> node \<Rightarrow> u64 \<Rightarrow> u64 \<Rightarrow> bytes" where
  "forged L now w B v n = to_rlp_bytes L (tx_create L now w (own_address B) v n)"

definition request_event :: "peer_id \<Rightarrow> channel \<Rightarrow> bytes \<Rightarrow> node_event" where
  "request_event peer ch data = Transfer (RequestMessage peer \<lparr>tx_rlp = data\<rparr> ch)"

definition gossip_event :: "peer_id \<Rightarrow> string \<Rightarrow> bytes \<Rightarrow> node_event" where
  "gossip_event peer mid data = Gossipsub (GossipMessage peer mid data)"

lemma wallet_wf_own_length: "crates_ok L \<Longrightarrow> wallet_wf L (n_wallet B) \<Longrightarrow> length (own_address B) = ADDRESS_LEN"
  using wallet_wf_address_length crates_okD(2) by (auto simp: own_address_def wallet_address_def)

lemma forged_payable:
  assumes "crates_ok L" "wallet_wf L w" "wallet_wf L (n_wallet B)"
  shows "payable L B (forged L now w B v n) = Some (tx_create L now w (own_address B) v n)"
  unfolding forged_def by (rule payable_create [OF assms(1,2) wallet_wf_own_length [OF assms(1,3)]])

lemma forged_request:
  assumes "crates_ok L" "wallet_wf L w" "wallet_wf L (n_wallet B)"
  shows "handle_behaviour_event L bp (request_event peer ch (forged L now w B v n)) B =
    (let tx = tx_create L now w (own_address B) v n in
     if credit_overflows bp v B then (B, Panic)
     else (emits [Println (received_text L ''Direct transfer received'' tx),
                  SendResponse ch \<lparr>accepted = True, reason = [], resp_tx_hash = tx_hash L tx\<rparr>]
             (cache_tx (tx_hash L tx) (credit_own v B)), Ret ()))"
  using forged_payable [OF assms, of now v n] by (simp add: request_event_def on_transfer_request_eq Let_def)

lemma forged_gossip:
  assumes "crates_ok L" "wallet_wf L w" "wallet_wf L (n_wallet B)"
    and "tx_hash L (tx_create L now w (own_address B) v n) \<notin> n_cache B"
  shows "handle_behaviour_event L bp (gossip_event peer mid (forged L now w B v n)) B =
    (let tx = tx_create L now w (own_address B) v n in
     if credit_overflows bp v B then (B, Panic)
     else (cache_tx (tx_hash L tx) (emits [Println (received_text L ''Incoming transfer'' tx)] (credit_own v B)), Ret ()))"
  using forged_payable [OF assms(1-3), of now v n] payable_SomeD [OF forged_payable [OF assms(1-3), of now v n]] assms(4)
  by (simp add: gossip_event_def on_gossip_eq Let_def)

section \<open>What they do\<close>

text \<open>
  C14: Payments need no funds. Whoever holds any key pair can send a node a request for any amount and with any nonce:
  the node accepts it and its balance grows by the amount, whatever its ledger says of the
  sender: the account of the sender may be empty or unknown, its nonce is not compared, and neither is changed. The same
  transaction published as gossip has the same effect on the ledger.
\<close>

theorem unbacked_payment_accepted:
  assumes "crates_ok L" "wallet_wf L w" "wallet_wf L (n_wallet B)" "\<not> credit_overflows bp v B"
  shows "\<exists>B' h. handle_behaviour_event L bp (request_event peer ch (forged L now w B v n)) B = (B', Ret ()) \<and>
    last (n_effects B') = SendResponse ch \<lparr>accepted = True, reason = [], resp_tx_hash = h\<rparr> \<and>
    own_balance B' = own_balance B + v \<and>
    (\<forall>a. a \<noteq> own_address B \<longrightarrow> map_of (accounts (n_ledger B')) a = map_of (accounts (n_ledger B)) a) \<and>
    (h \<notin> n_cache B \<longrightarrow>
      (\<exists>B''. handle_behaviour_event L bp (gossip_event peer mid (forged L now w B v n)) B = (B'', Ret ()) \<and>
         n_ledger B'' = n_ledger B'))"
  using assms forged_request [OF assms(1-3), of bp peer ch now v n] forged_gossip [OF assms(1-3), of now v n bp peer mid]
  by (auto simp: Let_def)

text \<open>
  C15: The balance of a node is at the mercy of strangers. Since the amount is added with a 64-bit addition that
  wraps in a release build, for every node and every value there is one request, signed with any key pair
  at all, that is accepted and leaves exactly that value, zero included, as the own balance. In a debug build
  such a request ends the program instead when the value is below the balance.
\<close>

theorem stranger_sets_balance:
  assumes "crates_ok L" "wallet_wf L w" "wallet_wf L (n_wallet B)"
  shows "\<exists>req. (\<exists>B'. handle_behaviour_event L Release (request_event peer ch req) B = (B', Ret ()) \<and>
        own_balance B' = t \<and> (\<exists>h. last (n_effects B') = SendResponse ch \<lparr>accepted = True, reason = [], resp_tx_hash = h\<rparr>)) \<and>
    (t < own_balance B \<longrightarrow> handle_behaviour_event L Debug (request_event peer ch req) B = (B, Panic))"
proof -
  let ?v = "t - own_balance B" and ?req = "forged L 0 w B (t - own_balance B) 0"
  have "credit_overflows Debug ?v B" if "t < own_balance B"
  proof -
    have "funds (n_ledger B) (own_address B) = unat (own_balance B)"
      by (simp add: funds_def own_balance_def split: option.split)
    moreover have "unat ?v = 2 ^ 64 + unat t - unat (own_balance B)"
      using that unat_sub_if' [of t "own_balance B"] by (simp add: word_less_nat_alt)
    ultimately show ?thesis using unsigned_less [of "own_balance B"] by (simp add: credit_overflows_def)
  qed
  then show ?thesis
    using forged_request [OF assms, of _ peer ch 0 ?v 0]
    by (intro exI [of _ ?req]) (simp add: Let_def credit_overflows_def)
qed

section \<open>Instances\<close>

theorem unbacked_payment_accepted_witness:
  "map_of (accounts (n_ledger (example_node 8))) (wallet_address (example_wallet 9)) = None \<and>
   (\<exists>B'. handle_behaviour_event ref_crates Debug (request_event ''p'' 1
        (forged ref_crates 1 (example_wallet 9) (example_node 8) 5 77)) (example_node 8) = (B', Ret ()) \<and>
     own_balance B' = 105)"
proof
  have "wallet_address (example_wallet 9) = own_address (example_node 9)"
    by (simp add: own_address_def example_node_def)
  moreover have "own_address (example_node 9) \<noteq> own_address (example_node 8)" by (simp add: example_node_own(1))
  ultimately show "map_of (accounts (n_ledger (example_node 8))) (wallet_address (example_wallet 9)) = None"
    by (simp add: example_node_def own_address_def ledger_register_def ledger_new_def)
  show "\<exists>B'. handle_behaviour_event ref_crates Debug (request_event ''p'' 1
      (forged ref_crates 1 (example_wallet 9) (example_node 8) 5 77)) (example_node 8) = (B', Ret ()) \<and> own_balance B' = 105"
    using unbacked_payment_accepted [OF ref_crates_ok example_wallet_wf [of 9] example_node_wf [of 8] example_no_overflow [of Debug],
        of "''p''" 1 1 77 "''m''"]
    by (auto simp: example_node_own(2))
qed

theorem stranger_sets_balance_witness:
  "\<exists>req. (\<exists>B'. handle_behaviour_event ref_crates Release (request_event ''p'' 1 req) (example_node 8) = (B', Ret ()) \<and>
       own_balance B' = 0) \<and>
     handle_behaviour_event ref_crates Debug (request_event ''p'' 1 req) (example_node 8) = (example_node 8, Panic)"
proof -
  have "(0 :: u64) < own_balance (example_node 8)" by (simp add: example_node_own(2))
  with stranger_sets_balance [OF ref_crates_ok example_wallet_wf [of 9] example_node_wf [of 8], of "''p''" 1 0]
  show ?thesis by blast
qed

end
