(* ===== verification/Ledger_Conc.thy ===== *)
theory Ledger_Conc
  imports Ledger_Spec "HOL-Library.Multiset"
begin

text \<open>
  The ledger under concurrent use (\<^verbatim>\<open>src/zyphra/src/ledger.rs\<close>). A \<open>Ledger\<close> is cloned freely and its clones share
  the account map and \<open>transfer_lock\<close>. Here any number of threads run one operation each. What a
  \<open>DashMap\<close> guard protects is one step: \<open>register\<close> and \<open>credit\<close>, which take no other lock, and the two
  halves of \<open>transfer\<close>, the validation with the debit up to \<open>drop(sender)\<close> and the credit, which run
  under \<open>transfer_lock\<close>. A step of a thread that waits for the lock is not enabled while another holds
  it; returning and panicking release it. The log \<open>c_log\<close> is not part of the program: it records the
  operations in the order in which they take effect. \<open>snapshot\<close> is in \<^verbatim>\<open>Ledger_Snapshot\<close>.
\<close>

section \<open>The two halves of a transfer\<close>

definition transfer_precheck :: "address \<Rightarrow> address \<Rightarrow> u64 \<Rightarrow> ledger_error option" where
  "transfer_precheck from to amount =
     (if from = to then Some SelfTransfer else if amount = 0 then Some ZeroValue else None)"

definition transfer_debit ::
    "build \<Rightarrow> ledger \<Rightarrow> address \<Rightarrow> u64 \<Rightarrow> u64 \<Rightarrow> ledger \<times> (ledger_error + unit) run" where
  "transfer_debit bp l from amount n =
     (case map_of (accounts l) from of
        None \<Rightarrow> (l, Ret (Inl (AddressNotFound from)))
      | Some sender \<Rightarrow>
          if nonce sender \<noteq> n then (l, Ret (Inl (InvalidNonce (nonce sender) n)))
          else if balance sender < amount
            then (l, Ret (Inl (InsufficientBalance (balance sender) amount)))
          else
            (case u64_sub bp (balance sender) amount of
               Panic \<Rightarrow> (l, Panic)
             | Ret b \<Rightarrow>
                 (case u64_add bp (nonce sender) 1 of
                    Panic \<Rightarrow> (l\<lparr>accounts := AList.update from (sender\<lparr>balance := b\<rparr>) (accounts l)\<rparr>, Panic)
                  | Ret n' \<Rightarrow>
                      (l\<lparr>accounts := AList.update from (sender\<lparr>balance := b, nonce := n'\<rparr>) (accounts l)\<rparr>,
                       Ret (Inr ())))))"

definition transfer_credit :: "build \<Rightarrow> ledger \<Rightarrow> address \<Rightarrow> u64 \<Rightarrow> ledger \<times> unit run" where
  "transfer_credit bp l to amount =
     (case entry_add bp (accounts l) to amount \<lparr>balance = amount, nonce = 0\<rparr> of
        (m, r) \<Rightarrow> (l\<lparr>accounts := m\<rparr>, r))"

lemma ledger_transfer_halves:
  "ledger_transfer bp l from to amount n =
     (case transfer_precheck from to amount of
        Some e \<Rightarrow> (l, Ret (Inl e))
      | None \<Rightarrow>
          (case transfer_debit bp l from amount n of
             (l1, Panic) \<Rightarrow> (l1, Panic)
           | (l1, Ret (Inl e)) \<Rightarrow> (l1, Ret (Inl e))
           | (l1, Ret (Inr _)) \<Rightarrow>
               (case transfer_credit bp l1 to amount of
                  (l2, Panic) \<Rightarrow> (l2, Panic)
                | (l2, Ret _) \<Rightarrow> (l2, Ret (Inr ())))))"
  by (simp add: ledger_transfer_def transfer_precheck_def transfer_debit_def transfer_credit_def Let_def
      alist_update_twice split: option.split run.split prod.split)

section \<open>Threads\<close>

datatype outcome = Registered bool | Transferred "ledger_error + unit" | CreditDone | Crashed

datatype pc =
    Ready ledger_op
  | Waiting address address u64 u64
  | Holding address address u64 u64
  | Debited address address u64 u64
  | Finished outcome

record conc =
  c_ledger :: ledger
  c_lock :: "nat option"
  c_threads :: "pc list"
  c_log :: "(ledger_op \<times> outcome) list"

definition conc_init :: "ledger \<Rightarrow> ledger_op list \<Rightarrow> conc" where
  "conc_init l ops = \<lparr>c_ledger = l, c_lock = None, c_threads = map Ready ops, c_log = []\<rparr>"

text \<open>A thread moves on with a new ledger; an operation takes effect with its result; the lock is released.\<close>

definition goto :: "nat \<Rightarrow> pc \<Rightarrow> ledger \<Rightarrow> conc \<Rightarrow> conc" where
  "goto t p l c = c\<lparr>c_ledger := l, c_threads := (c_threads c)[t := p]\<rparr>"

definition log_op :: "ledger_op \<Rightarrow> outcome \<Rightarrow> conc \<Rightarrow> conc" where
  "log_op p r c = c\<lparr>c_log := c_log c @ [(p, r)]\<rparr>"

definition release :: "conc \<Rightarrow> conc" where
  "release c = c\<lparr>c_lock := None\<rparr>"

fun pc_step :: "build \<Rightarrow> nat \<Rightarrow> pc \<Rightarrow> conc \<Rightarrow> conc option" where
  "pc_step bp t (Ready (OpRegister a b)) c =
     (case ledger_register (c_ledger c) a b of
        (l, r) \<Rightarrow> Some (log_op (OpRegister a b) (Registered r) (goto t (Finished (Registered r)) l c)))"
| "pc_step bp t (Ready (OpCredit a v)) c =
     (case ledger_credit bp (c_ledger c) a v of
        (l, Panic) \<Rightarrow> Some (goto t (Finished Crashed) l c)
      | (l, Ret _) \<Rightarrow> Some (log_op (OpCredit a v) CreditDone (goto t (Finished CreditDone) l c)))"
| "pc_step bp t (Ready (OpTransfer from to v n)) c =
     (case transfer_precheck from to v of
        Some e \<Rightarrow>
          Some (log_op (OpTransfer from to v n) (Transferred (Inl e))
            (goto t (Finished (Transferred (Inl e))) (c_ledger c) c))
      | None \<Rightarrow> Some (goto t (Waiting from to v n) (c_ledger c) c))"
| "pc_step bp t (Waiting from to v n) c =
     (if c_lock c = None then Some (goto t (Holding from to v n) (c_ledger c) (c\<lparr>c_lock := Some t\<rparr>)) else None)"
| "pc_step bp t (Holding from to v n) c =
     (case transfer_debit bp (c_ledger c) from v n of
        (l, Panic) \<Rightarrow> Some (release (goto t (Finished Crashed) l c))
      | (l, Ret (Inl e)) \<Rightarrow>
          Some (log_op (OpTransfer from to v n) (Transferred (Inl e))
            (release (goto t (Finished (Transferred (Inl e))) l c)))
      | (l, Ret (Inr _)) \<Rightarrow> Some (goto t (Debited from to v n) l c))"
| "pc_step bp t (Debited from to v n) c =
     (case transfer_credit bp (c_ledger c) to v of
        (l, Panic) \<Rightarrow> Some (release (goto t (Finished Crashed) l c))
      | (l, Ret _) \<Rightarrow>
          Some (log_op (OpTransfer from to v n) (Transferred (Inr ()))
            (release (goto t (Finished (Transferred (Inr ()))) l c))))"
| "pc_step bp t (Finished r) c = None"

definition conc_step :: "build \<Rightarrow> conc \<Rightarrow> nat \<Rightarrow> conc \<Rightarrow> bool" where
  "conc_step bp c t c' \<longleftrightarrow> t < length (c_threads c) \<and> pc_step bp t (c_threads c ! t) c = Some c'"

lemma goto_sel [simp]:
  "c_ledger (goto t p l c) = l" "c_lock (goto t p l c) = c_lock c"
  "c_threads (goto t p l c) = (c_threads c)[t := p]" "c_log (goto t p l c) = c_log c"
  by (simp_all add: goto_def)

lemma log_op_sel [simp]:
  "c_ledger (log_op p r c) = c_ledger c" "c_lock (log_op p r c) = c_lock c"
  "c_threads (log_op p r c) = c_threads c" "c_log (log_op p r c) = c_log c @ [(p, r)]"
  by (simp_all add: log_op_def)

lemma release_sel [simp]:
  "c_ledger (release c) = c_ledger c" "c_lock (release c) = None"
  "c_threads (release c) = c_threads c" "c_log (release c) = c_log c"
  by (simp_all add: release_def)

section \<open>The lock and the pending operations\<close>

fun holds_lock :: "pc \<Rightarrow> bool" where
  "holds_lock (Holding from to v n) = True"
| "holds_lock (Debited from to v n) = True"
| "holds_lock _ = False"

fun pending :: "pc \<Rightarrow> ledger_op list" where
  "pending (Ready p) = [p]"
| "pending (Waiting from to v n) = [OpTransfer from to v n]"
| "pending (Holding from to v n) = [OpTransfer from to v n]"
| "pending (Debited from to v n) = [OpTransfer from to v n]"
| "pending (Finished r) = []"

fun checked :: "pc \<Rightarrow> bool" where
  "checked (Waiting from to v n) = (from \<noteq> to \<and> v \<noteq> 0)"
| "checked (Holding from to v n) = (from \<noteq> to \<and> v \<noteq> 0)"
| "checked (Debited from to v n) = (from \<noteq> to \<and> v \<noteq> 0)"
| "checked _ = True"

definition lock_ok :: "conc \<Rightarrow> bool" where
  "lock_ok c \<longleftrightarrow>
     (\<forall>t < length (c_threads c). holds_lock (c_threads c ! t) \<longleftrightarrow> c_lock c = Some t) \<and>
     (\<forall>t. c_lock c = Some t \<longrightarrow> t < length (c_threads c)) \<and> list_all checked (c_threads c)"

lemma list_all_update: "list_all P xs \<Longrightarrow> P x \<Longrightarrow> list_all P (xs[t := x])"
  by (cases "t < length xs") (auto simp: list_all_length nth_list_update)

lemma lock_ok_step:
  assumes "lock_ok c" "conc_step bp c t c'" shows "lock_ok c'"
proof -
  from assms(2) have t: "t < length (c_threads c)" and st: "pc_step bp t (c_threads c ! t) c = Some c'"
    by (auto simp: conc_step_def)
  have ch: "checked (c_threads c ! t)" using assms(1) t by (simp add: lock_ok_def list_all_length)
  have own: "holds_lock (c_threads c ! t) \<longleftrightarrow> c_lock c = Some t" using assms(1) t by (simp add: lock_ok_def)
  obtain p where c': "c_threads c' = (c_threads c)[t := p]" "checked p"
      "c_lock c' = (if holds_lock p then Some t else if holds_lock (c_threads c ! t) then None else c_lock c)"
      "holds_lock p \<longrightarrow> c_lock c = None \<or> c_lock c = Some t"
    using st ch own
    by (cases "(bp, t, c_threads c ! t, c)" rule: pc_step.cases)
      (auto simp: transfer_precheck_def split: prod.splits option.splits run.splits sum.splits if_splits)
  show ?thesis
    unfolding lock_ok_def
    using assms(1) c' t own list_all_update [of checked "c_threads c" p t]
    by (auto simp: lock_ok_def nth_list_update split: if_splits)
qed

lemma bag_update:
  "t < length xs \<Longrightarrow>
   mset (concat (map f (xs[t := x]))) + mset (f (xs ! t)) = mset (concat (map f xs)) + mset (f x)"
proof (induction xs arbitrary: t)
  case (Cons y xs)
  then show ?case by (cases t) (auto simp: ac_simps)
qed simp

section \<open>Order of effect\<close>

abbreviation acc :: "ledger \<Rightarrow> address \<Rightarrow> account_state option" where
  "acc l \<equiv> map_of (accounts l)"

text \<open>The transfer that has debited its sender and not yet credited its recipient.\<close>

definition in_flight :: "conc \<Rightarrow> (address \<times> address \<times> u64 \<times> u64) option" where
  "in_flight c =
     (case c_lock c of
        None \<Rightarrow> None
      | Some t \<Rightarrow> (case c_threads c ! t of Debited from to v n \<Rightarrow> Some (from, to, v, n) | _ \<Rightarrow> None))"

text \<open>The shared ledger is the one of the log, less the debit of the transfer in flight.\<close>

definition lin_view :: "(address \<times> address \<times> u64 \<times> u64) option \<Rightarrow> ledger \<Rightarrow> ledger \<Rightarrow> bool" where
  "lin_view fl k l \<longleftrightarrow>
     (case fl of
        None \<Rightarrow> acc k = acc l
      | Some (from, to, v, n) \<Rightarrow>
          (\<exists>s. acc l from = Some s \<and> nonce s = n \<and> v \<le> balance s \<and> acc k = (acc l)(from \<mapsto> debited s v)))"

lemma acc_put [simp]: "acc (put_account a s l) = (acc l)(a \<mapsto> s)"
  by (simp add: fun_eq_iff)

lemma credited_acc: "acc k a = acc l a \<Longrightarrow> credited k a v = credited l a v"
  by (simp add: credited_def)

lemma lin_credit:
  assumes "lin_view fl k l" "total_supply l + unat x < 2 ^ 64"
  shows "lin_view fl (put_account a (credited k a x) k) (put_account a (credited l a x) l)"
proof (cases fl)
  case None
  with assms(1) show ?thesis using credited_acc [of k a l x] by (simp add: lin_view_def)
next
  case (Some p)
  obtain "from" to v n where p: "p = (from, to, v, n)" by (cases p)
  obtain s where s: "acc l from = Some s" "nonce s = n" "v \<le> balance s" "acc k = (acc l)(from \<mapsto> debited s v)"
    using assms(1) Some p by (auto simp: lin_view_def)
  show ?thesis
  proof (cases "a = from")
    case True
    have "funds l from + unat x < 2 ^ 64" using funds_supply [of l "from"] assms(2) by linarith
    then have "unat (balance s + x) = unat (balance s) + unat x"
      by (intro unat_u64_add_exact) (simp add: funds_lookup [OF s(1)])
    then have "v \<le> balance s + x" using s(3) by (simp add: word_le_nat_alt)
    then show ?thesis
      using Some p s True by (auto simp: lin_view_def credited_def debited_def fun_eq_iff algebra_simps)
  next
    case False
    then have "credited k a x = credited l a x" using s(4) by (intro credited_acc) simp
    then show ?thesis using Some p s False by (auto simp: lin_view_def fun_upd_twist)
  qed
qed

lemma lin_register:
  assumes "lin_view fl k l"
  shows "lin_view fl (fst (ledger_register k a b)) (fst (ledger_register l a b))"
proof -
  have reg: "fst (ledger_register m a b) = (if acc m a = None then put_account a (account_new b) m else m)" for m
    by (auto simp: ledger_register_def put_account_def split: option.split)
  show ?thesis
    using assms unfolding reg
    by (auto simp: lin_view_def fun_upd_twist split: option.splits)
qed

lemma transfer_debit_eq:
  "transfer_debit Release l from v n =
     (case acc l from of
        None \<Rightarrow> (l, Ret (Inl (AddressNotFound from)))
      | Some s \<Rightarrow>
          if nonce s \<noteq> n then (l, Ret (Inl (InvalidNonce (nonce s) n)))
          else if balance s < v then (l, Ret (Inl (InsufficientBalance (balance s) v)))
          else (put_account from (debited s v) l, Ret (Inr ())))"
  by (simp add: transfer_debit_def rust_defs put_account_def debited_def split: option.split)

lemma transfer_debit_returns: "\<exists>k r. transfer_debit Release l from v n = (k, Ret r)"
  by (auto simp: transfer_debit_eq split: option.split)

lemma transfer_credit_eq: "transfer_credit Release l to v = (put_account to (credited l to v) l, Ret ())"
  by (simp add: transfer_credit_def entry_add_eq put_account_def)

lemma lin_debit:
  assumes "lin_view None k l" "from \<noteq> to" "v \<noteq> 0" "transfer_debit Release k from v n = (k', Ret r)"
  shows "case r of
      Inl e \<Rightarrow> k' = k \<and> ledger_transfer Release l from to v n = (l, Ret (Inl e))
    | Inr _ \<Rightarrow> lin_view (Some (from, to, v, n)) k' l"
proof -
  have same: "acc k = acc l" using assms(1) by (simp add: lin_view_def)
  then have deb: "transfer_debit Release l from v n = (l, Ret (Inl e))" if "r = Inl e" for e
    using assms(4) that by (auto simp: transfer_debit_eq split: option.splits if_splits)
  show ?thesis
    using assms same deb
    by (auto simp: ledger_transfer_halves transfer_precheck_def transfer_debit_eq [of k] lin_view_def not_less
        split: option.splits if_splits sum.split)
qed

lemma lin_transfer:
  assumes "lin_view (Some (from, to, v, n)) k l" "from \<noteq> to" "v \<noteq> 0"
  shows "\<exists>l'. ledger_transfer Release l from to v n = (l', Ret (Inr ())) \<and>
    lin_view None (put_account to (credited k to v) k) l'"
proof -
  obtain s where s: "acc l from = Some s" "nonce s = n" "v \<le> balance s" "acc k = (acc l)(from \<mapsto> debited s v)"
    using assms(1) by (auto simp: lin_view_def)
  have "credited k to v = credited l to v" using s(4) assms(2) by (intro credited_acc) auto
  then show ?thesis
    using s assms(2,3) ledger_transfer_valid [of "from" to v l s n Release] by (simp add: lin_view_def)
qed

text \<open>The result a caller sees when nothing else runs, and a sequential run that gives the logged results.\<close>

definition ledger_outcome :: "build \<Rightarrow> ledger \<Rightarrow> ledger_op \<Rightarrow> outcome" where
  "ledger_outcome bp l p =
     (case p of
        OpRegister a b \<Rightarrow> Registered (snd (ledger_register l a b))
      | OpTransfer from to v n \<Rightarrow>
          (case snd (ledger_transfer bp l from to v n) of Panic \<Rightarrow> Crashed | Ret r \<Rightarrow> Transferred r)
      | OpCredit a v \<Rightarrow> (case snd (ledger_credit bp l a v) of Panic \<Rightarrow> Crashed | Ret _ \<Rightarrow> CreditDone))"

definition exec_logged :: "build \<Rightarrow> ledger \<Rightarrow> ledger_op \<times> outcome \<Rightarrow> ledger run" where
  "exec_logged bp l e = (if ledger_outcome bp l (fst e) = snd e then ledger_exec bp l (fst e) else Panic)"

lemma run_logged: "run_ops (exec_logged bp) l es = Ret l' \<Longrightarrow> run_ops (ledger_exec bp) l (map fst es) = Ret l'"
  by (induction es arbitrary: l) (auto simp: exec_logged_def split: run.splits if_splits)

lemma run_ops_snoc:
  "run_ops exec s (ps @ [p]) = (case run_ops exec s ps of Panic \<Rightarrow> Panic | Ret t \<Rightarrow> exec t p)"
  by (induction ps arbitrary: s) (auto split: run.split)

fun finished :: "ledger_op \<times> pc \<Rightarrow> (ledger_op \<times> outcome) list" where
  "finished (p, Finished r) = [(p, r)]"
| "finished (p, _) = []"

text \<open>
  Every thread is still to take effect with its own operation or has its result in the log, and the
  sequential run of the log leads to the ledger of \<open>lin_view\<close>.
\<close>

definition logged :: "ledger_op list \<Rightarrow> conc \<Rightarrow> bool" where
  "logged ops c \<longleftrightarrow>
     length (c_threads c) = length ops \<and>
     (\<forall>t < length ops. pending (c_threads c ! t) \<noteq> [] \<longrightarrow> pending (c_threads c ! t) = [ops ! t]) \<and>
     mset (c_log c) = mset (concat (map finished (zip ops (c_threads c)))) \<and>
     mset (map fst (c_log c)) + mset (concat (map pending (c_threads c))) = mset ops"

definition conc_inv :: "ledger \<Rightarrow> ledger_op list \<Rightarrow> conc \<Rightarrow> bool" where
  "conc_inv l0 ops c \<longleftrightarrow>
     total_supply l0 + sum_list (map op_mint ops) < 2 ^ 64 \<and> lock_ok c \<and> logged ops c \<and>
     (\<exists>l. run_ops (exec_logged Release) l0 (c_log c) = Ret l \<and> lin_view (in_flight c) (c_ledger c) l)"

lemma mint_mset: "mset ps \<subseteq># mset ops \<Longrightarrow> sum_list (map op_mint ps) \<le> sum_list (map op_mint ops)"
proof -
  assume "mset ps \<subseteq># mset ops"
  then obtain M where "mset ops = mset ps + M" using mset_subset_eq_exists_conv by blast
  then have "sum_mset (image_mset op_mint (mset ops)) = sum_mset (image_mset op_mint (mset ps)) + sum_mset (image_mset op_mint M)"
    by simp
  then show ?thesis by (simp flip: sum_mset_sum_list mset_map)
qed

lemma conc_fits:
  assumes "conc_inv l0 ops c" "run_ops (exec_logged Release) l0 (c_log c) = Ret l"
    and "t < length (c_threads c)" "p \<in> set (pending (c_threads c ! t))"
  shows "total_supply l + op_mint p < 2 ^ 64"
proof -
  let ?log = "map fst (c_log c)"
  have "p \<in> set (concat (map pending (c_threads c)))" using assms(3,4) by force
  then have "{#p#} \<subseteq># mset (concat (map pending (c_threads c)))" by (simp only: mset_subset_eq_single set_mset_mset)
  moreover have bag: "mset ?log + mset (concat (map pending (c_threads c))) = mset ops"
    using assms(1) unfolding conc_inv_def logged_def by blast
  ultimately have "mset (?log @ [p]) \<subseteq># mset ops"
    unfolding bag [symmetric] mset_append by (intro subset_mset.add_mono) simp_all
  from mint_mset [OF this] have le: "sum_list (map op_mint ?log) + op_mint p \<le> sum_list (map op_mint ops)" by simp
  have bound: "total_supply l0 + sum_list (map op_mint ops) < 2 ^ 64" using assms(1) by (simp add: conc_inv_def)
  have "total_supply l \<le> total_supply l0 + sum_list (map op_mint ?log)"
    using run_supply [OF run_logged [OF assms(2)]] le bound by linarith
  with le bound show ?thesis by linarith
qed

lemma in_flight_other:
  assumes "lock_ok c" "t < length (c_threads c)" "\<not> holds_lock (c_threads c ! t)"
    and "c_lock c' = c_lock c" "c_threads c' = (c_threads c)[t := p]"
  shows "in_flight c' = in_flight c"
proof -
  have "c_lock c \<noteq> Some t" using assms(1-3) by (simp add: lock_ok_def)
  then show ?thesis using assms(4,5) by (auto simp: in_flight_def split: option.split)
qed

lemma zip_update: "t < length xs \<Longrightarrow> length xs = length ys \<Longrightarrow> zip xs (ys[t := y]) = (zip xs ys)[t := (xs ! t, y)]"
  by (simp add: update_zip)

lemma logged_effect:
  assumes "logged ops c" "t < length (c_threads c)" "c_threads c' = (c_threads c)[t := Finished r]"
    and "pending (c_threads c ! t) = [p]" "c_log c' = c_log c @ [(p, r)]"
  shows "logged ops c'"
proof -
  have len: "length (c_threads c) = length ops" and p: "ops ! t = p" and t: "t < length ops"
    using assms(1,2,4) by (auto simp: logged_def)
  have nf: "finished (ops ! t, c_threads c ! t) = []" using assms(4) by (cases "c_threads c ! t") auto
  have "mset (concat (map pending (c_threads c))) = mset (concat (map pending (c_threads c'))) + {#p#}"
    using assms(2-4) bag_update [of t "c_threads c" pending "Finished r"] by simp
  moreover have "mset (concat (map finished (zip ops (c_threads c')))) =
      mset (concat (map finished (zip ops (c_threads c)))) + {#(p, r)#}"
    using bag_update [of t "zip ops (c_threads c)" finished "(p, Finished r)"] nf p t len
    by (simp add: assms(3) zip_update)
  ultimately show ?thesis using assms(1,2,3,5) len by (auto simp: logged_def nth_list_update)
qed

lemma logged_silent:
  assumes "logged ops c" "t < length (c_threads c)" "c_threads c' = (c_threads c)[t := q]"
    and "pending q = pending (c_threads c ! t)" "pending q \<noteq> []" "c_log c' = c_log c"
  shows "logged ops c'"
proof -
  have len: "length (c_threads c) = length ops" using assms(1) by (simp add: logged_def)
  have nf: "finished (ops ! t, c_threads c ! t) = []" "finished (ops ! t, q) = []"
    using assms(4,5) by (cases "c_threads c ! t"; cases q; simp)+
  have "mset (concat (map pending (c_threads c))) = mset (concat (map pending (c_threads c')))"
    using assms(2-4) bag_update [of t "c_threads c" pending q] by simp
  moreover have "mset (concat (map finished (zip ops (c_threads c')))) =
      mset (concat (map finished (zip ops (c_threads c))))"
    using bag_update [of t "zip ops (c_threads c)" finished "(ops ! t, q)"] nf assms(2) len
    by (simp add: assms(3) zip_update)
  ultimately show ?thesis using assms len by (auto simp: logged_def nth_list_update)
qed

lemma conc_inv_effect:
  assumes "conc_inv l0 ops c" "conc_step Release c t c'" "c_threads c' = (c_threads c)[t := Finished r]"
    and "pending (c_threads c ! t) = [p]" "c_log c' = c_log c @ [(p, r)]"
    and "run_ops (exec_logged Release) l0 (c_log c) = Ret l"
    and "ledger_outcome Release l p = r" "ledger_exec Release l p = Ret l'" "lin_view (in_flight c') (c_ledger c') l'"
  shows "conc_inv l0 ops c'"
proof -
  have "lock_ok c'" using assms(1,2) lock_ok_step by (auto simp: conc_inv_def)
  moreover have "logged ops c'"
    using assms(1-5) logged_effect by (auto simp: conc_inv_def conc_step_def)
  ultimately show ?thesis using assms(1,5-9) by (auto simp: conc_inv_def run_ops_snoc exec_logged_def)
qed

lemma conc_inv_silent:
  assumes "conc_inv l0 ops c" "conc_step Release c t c'" "c_threads c' = (c_threads c)[t := q]"
    and "pending q = pending (c_threads c ! t)" "pending q \<noteq> []" "c_log c' = c_log c"
    and "run_ops (exec_logged Release) l0 (c_log c) = Ret l" "lin_view (in_flight c') (c_ledger c') l"
  shows "conc_inv l0 ops c'"
proof -
  have "lock_ok c'" using assms(1,2) lock_ok_step by (auto simp: conc_inv_def)
  moreover have "logged ops c'"
    using assms(1-6) logged_silent by (auto simp: conc_inv_def conc_step_def)
  ultimately show ?thesis using assms(1,6-8) by (auto simp: conc_inv_def)
qed

lemma lin_register_outcome:
  "lin_view fl k l \<Longrightarrow> snd (ledger_register k a b) = snd (ledger_register l a b)"
  by (auto simp: lin_view_def ledger_register_def split: option.splits if_splits)

lemma conc_inv_ready:
  assumes inv: "conc_inv l0 ops c" and step: "conc_step Release c t c'" and pc: "c_threads c ! t = Ready p"
  shows "conc_inv l0 ops c'"
proof -
  from step have t: "t < length (c_threads c)" and st: "pc_step Release t (Ready p) c = Some c'"
    by (auto simp: conc_step_def pc)
  obtain l where l: "run_ops (exec_logged Release) l0 (c_log c) = Ret l" "lin_view (in_flight c) (c_ledger c) l"
    and lock: "lock_ok c"
    using inv by (auto simp: conc_inv_def)
  note other = in_flight_other [OF lock t, of c']
  show ?thesis
  proof (cases p)
    case (OpRegister a b)
    let ?k = "ledger_register (c_ledger c) a b"
    have "c' = log_op p (Registered (snd ?k)) (goto t (Finished (Registered (snd ?k))) (fst ?k) c)"
      using st OpRegister by (simp split: prod.splits)
    then show ?thesis
      using OpRegister pc lin_register [OF l(2), of a b] lin_register_outcome [OF l(2), of a b] other
      by (intro conc_inv_effect [OF inv step _ _ _ l(1)]) (auto simp: ledger_outcome_def)
  next
    case (OpTransfer "from" to v n)
    show ?thesis
    proof (cases "transfer_precheck from to v")
      case None
      with st OpTransfer have "c' = goto t (Waiting from to v n) (c_ledger c) c" by simp
      then show ?thesis
        using OpTransfer pc l(2) other by (intro conc_inv_silent [OF inv step _ _ _ _ l(1)]) auto
    next
      case (Some e)
      with st OpTransfer have "c' = log_op p (Transferred (Inl e)) (goto t (Finished (Transferred (Inl e))) (c_ledger c) c)"
        by simp
      then show ?thesis
        using OpTransfer pc Some l(2) other
        by (intro conc_inv_effect [OF inv step _ _ _ l(1)]) (auto simp: ledger_transfer_halves ledger_outcome_def)
    qed
  next
    case (OpCredit a v)
    have fits: "total_supply l + unat v < 2 ^ 64" using conc_fits [OF inv l(1) t, of p] pc OpCredit by simp
    have "c' = log_op p CreditDone (goto t (Finished CreditDone) (put_account a (credited (c_ledger c) a v) (c_ledger c)) c)"
      using st OpCredit by (simp add: ledger_credit_eq)
    then show ?thesis
      using OpCredit pc lin_credit [OF l(2) fits, of a] other
      by (intro conc_inv_effect [OF inv step _ _ _ l(1)]) (auto simp: ledger_credit_eq ledger_outcome_def)
  qed
qed

lemma holder:
  assumes "conc_inv l0 ops c" "conc_step bp c t c'" "holds_lock (c_threads c ! t)"
  shows "c_lock c = Some t" "t < length (c_threads c)" "checked (c_threads c ! t)"
  using assms by (auto simp: conc_inv_def lock_ok_def conc_step_def list_all_length)

lemma conc_inv_holding:
  assumes inv: "conc_inv l0 ops c" and step: "conc_step Release c t c'" and pc: "c_threads c ! t = Holding from to v n"
  shows "conc_inv l0 ops c'"
proof -
  from step have st: "pc_step Release t (Holding from to v n) c = Some c'" by (simp add: conc_step_def pc)
  have lk: "c_lock c = Some t" "t < length (c_threads c)" and ch: "from \<noteq> to" "v \<noteq> 0"
    using holder [OF inv step] pc by simp_all
  obtain l where l: "run_ops (exec_logged Release) l0 (c_log c) = Ret l" "lin_view None (c_ledger c) l"
    using inv lk pc by (auto simp: conc_inv_def in_flight_def)
  obtain k r where kr: "transfer_debit Release (c_ledger c) from v n = (k, Ret r)"
    using transfer_debit_returns by blast
  note lin = lin_debit [OF l(2) ch kr]
  show ?thesis
  proof (cases r)
    case (Inl e)
    with st kr have "c' = log_op (OpTransfer from to v n) (Transferred (Inl e))
        (release (goto t (Finished (Transferred (Inl e))) k c))" by simp
    then show ?thesis
      using Inl pc lin l(2)
      by (intro conc_inv_effect [OF inv step _ _ _ l(1)]) (auto simp: in_flight_def ledger_outcome_def)
  next
    case (Inr u)
    with st kr have "c' = goto t (Debited from to v n) k c" by simp
    then show ?thesis
      using Inr pc lin lk by (intro conc_inv_silent [OF inv step _ _ _ _ l(1)]) (auto simp: in_flight_def)
  qed
qed

lemma conc_inv_debited:
  assumes inv: "conc_inv l0 ops c" and step: "conc_step Release c t c'" and pc: "c_threads c ! t = Debited from to v n"
  shows "conc_inv l0 ops c'"
proof -
  have lk: "c_lock c = Some t" and ch: "from \<noteq> to" "v \<noteq> 0" using holder [OF inv step] pc by simp_all
  obtain l where l: "run_ops (exec_logged Release) l0 (c_log c) = Ret l" "lin_view (Some (from, to, v, n)) (c_ledger c) l"
    using inv lk pc by (auto simp: conc_inv_def in_flight_def)
  obtain l' where l': "ledger_transfer Release l from to v n = (l', Ret (Inr ()))"
      "lin_view None (put_account to (credited (c_ledger c) to v) (c_ledger c)) l'"
    using lin_transfer [OF l(2) ch] by blast
  have "c' = log_op (OpTransfer from to v n) (Transferred (Inr ())) (release (goto t (Finished (Transferred (Inr ())))
      (put_account to (credited (c_ledger c) to v) (c_ledger c)) c))"
    using step pc by (simp add: conc_step_def transfer_credit_eq)
  then show ?thesis
    using pc l' by (intro conc_inv_effect [OF inv step _ _ _ l(1)]) (auto simp: in_flight_def ledger_outcome_def)
qed

lemma conc_inv_waiting:
  assumes inv: "conc_inv l0 ops c" and step: "conc_step Release c t c'" and pc: "c_threads c ! t = Waiting from to v n"
  shows "conc_inv l0 ops c'"
proof -
  have c': "c_lock c = None" "t < length (c_threads c)"
      "c' = goto t (Holding from to v n) (c_ledger c) (c\<lparr>c_lock := Some t\<rparr>)"
    using step pc by (auto simp: conc_step_def split: if_splits)
  obtain l where l: "run_ops (exec_logged Release) l0 (c_log c) = Ret l" "lin_view None (c_ledger c) l"
    using inv c'(1) by (auto simp: conc_inv_def in_flight_def)
  then show ?thesis
    using pc c' by (intro conc_inv_silent [OF inv step _ _ _ _ l(1)]) (auto simp: in_flight_def)
qed

lemma conc_inv_step:
  assumes "conc_inv l0 ops c" "conc_step Release c t c'" shows "conc_inv l0 ops c'"
proof (cases "c_threads c ! t")
  case (Ready p)
  with assms show ?thesis by (rule conc_inv_ready)
next
  case (Waiting "from" to v n)
  with assms show ?thesis by (rule conc_inv_waiting)
next
  case (Holding "from" to v n)
  with assms show ?thesis by (rule conc_inv_holding)
next
  case (Debited "from" to v n)
  with assms show ?thesis by (rule conc_inv_debited)
next
  case (Finished r)
  with assms show ?thesis by (simp add: conc_step_def)
qed

section \<open>Properties\<close>

lemma pending_init: "concat (map (pending \<circ> Ready) ops) = ops"
  by (induction ops) simp_all

lemma finished_init: "concat (map finished (zip xs (map Ready ops))) = []"
  by (induction xs ops rule: list_induct2') simp_all

lemma lock_ok_init: "lock_ok (conc_init l ops)"
  by (simp add: lock_ok_def conc_init_def list_all_length)

definition conc_start :: "ledger \<Rightarrow> ledger_op list \<Rightarrow> conc \<Rightarrow> bool" where
  "conc_start l0 ops c \<longleftrightarrow> c = conc_init l0 ops"

definition mint_fits :: "ledger \<Rightarrow> ledger_op list \<Rightarrow> bool" where
  "mint_fits l0 ops \<longleftrightarrow> total_supply l0 + sum_list (map op_mint ops) < 2 ^ 64"

interpretation serial: invariant_system "conc_start l0 ops" "conc_step Release" "\<lambda>c. mint_fits l0 ops \<longrightarrow> conc_inv l0 ops c"
  for l0 ops
proof unfold_locales
  show "mint_fits l0 ops \<longrightarrow> conc_inv l0 ops c" if "conc_start l0 ops c" for c
    using that lock_ok_init [of l0 ops]
    by (auto simp: conc_start_def mint_fits_def conc_inv_def logged_def conc_init_def pending_init finished_init in_flight_def lin_view_def)
qed (use conc_inv_step in blast)

definition thread_outcomes :: "conc \<Rightarrow> outcome option list" where
  "thread_outcomes c = map (\<lambda>p. case p of Finished r \<Rightarrow> Some r | _ \<Rightarrow> None) (c_threads c)"

lemma finished_all:
  "length ps = length rs \<Longrightarrow> map (\<lambda>p. case p of Finished r \<Rightarrow> Some r | _ \<Rightarrow> None) qs = map Some rs \<Longrightarrow>
   concat (map finished (zip ps qs)) = zip ps rs \<and> concat (map pending qs) = []"
proof (induction ps rs arbitrary: qs rule: list_induct2)
  case (Cons p ps r rs)
  then obtain q qs' where "qs = q # qs'" "q = Finished r" by (cases qs) (auto split: pc.splits)
  with Cons show ?case by auto
qed simp

text \<open>
  C10: The ledger is linearizable in its updates. However the steps of any number of threads interleave, once all
  have returned there is an order of their operations whose execution one after the other, from the
  same initial ledger, gives every caller the result it got and every account the state it
  has. (In a release build, when the supply and all that is minted fit in 64 bits.)
\<close>

theorem transfers_linearizable:
  assumes "reach (conc_start l0 ops) (conc_step Release) c" "mint_fits l0 ops"
    and "thread_outcomes c = map Some rs"
  shows "\<exists>es l. mset es = mset (zip ops rs) \<and> run_ops (exec_logged Release) l0 es = Ret l \<and>
    (\<forall>a. map_of (accounts (c_ledger c)) a = map_of (accounts l) a)"
proof -
  have inv: "conc_inv l0 ops c" using serial.reach_inv [OF assms(1)] assms(2) by blast
  obtain l where l: "run_ops (exec_logged Release) l0 (c_log c) = Ret l" "lin_view (in_flight c) (c_ledger c) l"
    using inv by (auto simp: conc_inv_def)
  have len: "length ops = length rs"
    using inv arg_cong [OF assms(3), of length] by (simp add: conc_inv_def logged_def thread_outcomes_def)
  have fin: "concat (map finished (zip ops (c_threads c))) = zip ops rs"
    using finished_all [OF len] assms(3) by (auto simp: thread_outcomes_def)
  have "in_flight c = None"
  proof (cases "c_lock c")
    case (Some t)
    then have "t < length (c_threads c)" using inv by (simp add: conc_inv_def lock_ok_def)
    moreover from this have "thread_outcomes c ! t \<noteq> None" using assms(3) len inv
      by (simp add: conc_inv_def logged_def)
    ultimately show ?thesis using Some by (auto simp: in_flight_def thread_outcomes_def split: pc.splits)
  qed (simp add: in_flight_def)
  then show ?thesis
    using inv fin l by (intro exI [of _ "c_log c"] exI [of _ l]) (auto simp: conc_inv_def logged_def lin_view_def)
qed

section \<open>Progress\<close>

fun rank :: "pc \<Rightarrow> nat" where
  "rank (Ready p) = 4"
| "rank (Waiting from to v n) = 3"
| "rank (Holding from to v n) = 2"
| "rank (Debited from to v n) = 1"
| "rank (Finished r) = 0"

definition work :: "conc \<Rightarrow> nat" where
  "work c = sum_list (map rank (c_threads c))"

lemma sum_rank_update: "t < length ps \<Longrightarrow> sum_list (map rank (ps[t := q])) + rank (ps ! t) = sum_list (map rank ps) + rank q"
proof (induction ps arbitrary: t)
  case (Cons p ps)
  then show ?case by (cases t) auto
qed simp

lemma work_decreases:
  assumes "conc_step bp c t c'" shows "work c' < work c"
proof -
  have t: "t < length (c_threads c)" and st: "pc_step bp t (c_threads c ! t) c = Some c'"
    using assms by (auto simp: conc_step_def)
  obtain q where "c_threads c' = (c_threads c)[t := q]" "rank q < rank (c_threads c ! t)"
    using st by (cases "(bp, t, c_threads c ! t, c)" rule: pc_step.cases)
      (auto split: prod.splits option.splits run.splits sum.splits if_splits)
  then show ?thesis using sum_rank_update [OF t, of q] by (simp add: work_def)
qed

lemma step_enabled:
  assumes "lock_ok c" "t < length (c_threads c)" "\<forall>r. c_threads c ! t \<noteq> Finished r"
  shows "\<exists>u c'. conc_step bp c u c'"
proof -
  have free: "\<exists>c'. conc_step bp c u c'"
    if "u < length (c_threads c)" "\<forall>r. c_threads c ! u \<noteq> Finished r" "c_lock c = None \<or> c_lock c = Some u \<and> holds_lock (c_threads c ! u)" for u
    using that by (cases "(bp, u, c_threads c ! u, c)" rule: pc_step.cases)
      (auto simp: conc_step_def split: prod.split option.split run.split sum.split)
  show ?thesis
  proof (cases "c_lock c")
    case None
    then show ?thesis using free assms(2,3) by blast
  next
    case (Some u)
    then have "u < length (c_threads c)" "holds_lock (c_threads c ! u)" using assms(1) by (auto simp: lock_ok_def)
    then show ?thesis using free [of u] Some by (cases "c_threads c ! u") auto
  qed
qed

interpretation locking: invariant_system "conc_start l0 ops" "conc_step bp"
    "\<lambda>c. lock_ok c \<and> length (c_threads c) = length ops \<and> work c \<le> 4 * length ops" for l0 ops bp
proof unfold_locales
  show "lock_ok c \<and> length (c_threads c) = length ops \<and> work c \<le> 4 * length ops" if "conc_start l0 ops c" for c
    using that lock_ok_init [of l0 ops]
    by (auto simp: conc_start_def conc_init_def work_def comp_def sum_list_triv)
  show "lock_ok c' \<and> length (c_threads c') = length ops \<and> work c' \<le> 4 * length ops"
    if "lock_ok c \<and> length (c_threads c) = length ops \<and> work c \<le> 4 * length ops" "conc_step bp c t c'" for c t c'
  proof -
    have "length (c_threads c') = length (c_threads c)"
      using that(2) by (cases "(bp, t, c_threads c ! t, c)" rule: pc_step.cases)
        (auto simp: conc_step_def split: prod.splits option.splits run.splits sum.splits if_splits)
    then show ?thesis using that lock_ok_step work_decreases [OF that(2)] by auto
  qed
qed

text \<open>
  C11: There is no deadlock and every operation returns. In every state the threads can reach, in either build, at
  most one thread is inside the locked region; unless all threads have returned (or panicked) some thread can go on; and every step
  uses up one of at most four per operation, so every schedule ends.
\<close>

theorem threads_progress:
  assumes "reach (conc_start l0 ops) (conc_step bp) c"
  shows "(\<forall>t u. t < length ops \<and> u < length ops \<and> holds_lock (c_threads c ! t) \<and> holds_lock (c_threads c ! u) \<longrightarrow> t = u) \<and>
    ((\<exists>rs. thread_outcomes c = map Some rs) \<or> (\<exists>t c'. conc_step bp c t c')) \<and>
    (\<forall>t c'. conc_step bp c t c' \<longrightarrow> work c' < work c) \<and> work c \<le> 4 * length ops"
proof -
  have inv: "lock_ok c" "length (c_threads c) = length ops" "work c \<le> 4 * length ops"
    using locking.reach_inv [OF assms] by blast+
  have "(\<exists>rs. thread_outcomes c = map Some rs) \<or> (\<exists>t c'. conc_step bp c t c')"
  proof (cases "\<forall>t < length (c_threads c). \<exists>r. c_threads c ! t = Finished r")
    case True
    then have "thread_outcomes c = map Some (map (\<lambda>p. case p of Finished r \<Rightarrow> r | _ \<Rightarrow> Crashed) (c_threads c))"
      by (auto simp: thread_outcomes_def list_eq_iff_nth_eq)
    then show ?thesis by blast
  next
    case False
    then show ?thesis using step_enabled [OF inv(1)] by blast
  qed
  moreover have "t = u" if "t < length ops" "u < length ops" "holds_lock (c_threads c ! t)" "holds_lock (c_threads c ! u)" for t u
    using that inv(1,2) by (auto simp: lock_ok_def)
  ultimately show ?thesis using work_decreases inv(3) by blast
qed

text \<open>
  What a reader can see. \<open>balance\<close> and \<open>nonce\<close> do not take the lock: at every moment they see the accounts as some
  order of the completed operations left them, except that the sender of the one transfer in
  flight is already debited while its recipient is not yet credited.
\<close>

theorem readers_see_transfer_in_flight:
  assumes "reach (conc_start l0 ops) (conc_step Release) c" "mint_fits l0 ops"
  shows "\<exists>l. run_ops (exec_logged Release) l0 (c_log c) = Ret l \<and>
    (case in_flight c of
       None \<Rightarrow> (\<forall>a. map_of (accounts (c_ledger c)) a = map_of (accounts l) a)
     | Some (from, to, v, n) \<Rightarrow>
         funds (c_ledger c) from + unat v = funds l from \<and> ledger_nonce (c_ledger c) from = Some (n + 1) \<and>
         ledger_nonce l from = Some n \<and>
         (\<forall>a. a \<noteq> from \<longrightarrow> map_of (accounts (c_ledger c)) a = map_of (accounts l) a))"
proof -
  obtain l where l: "run_ops (exec_logged Release) l0 (c_log c) = Ret l" "lin_view (in_flight c) (c_ledger c) l"
    using serial.reach_inv [OF assms(1)] assms(2) by (auto simp: conc_inv_def)
  show ?thesis
  proof (cases "in_flight c")
    case None
    with l show ?thesis by (auto simp: lin_view_def)
  next
    case (Some p)
    obtain "from" to v n where p: "p = (from, to, v, n)" by (cases p)
    with l(2) Some obtain s where s: "acc l from = Some s" "nonce s = n" "v \<le> balance s"
        "acc (c_ledger c) = (acc l)(from \<mapsto> debited s v)"
      by (auto simp: lin_view_def)
    have "acc (c_ledger c) from = Some (debited s v)" using s(4) by simp
    then have "funds (c_ledger c) from + unat v = funds l from \<and> ledger_nonce (c_ledger c) from = Some (n + 1) \<and>
        ledger_nonce l from = Some n"
      using balance_debited [OF s(3)] s(1,2) by (simp add: funds_lookup ledger_nonce_def debited_def)
    then show ?thesis using l(1) Some p s(4) by (intro exI [of _ l]) simp
  qed
qed

section \<open>Schedules\<close>

fun schedule :: "build \<Rightarrow> conc \<Rightarrow> nat list \<Rightarrow> conc option" where
  "schedule bp c [] = Some c"
| "schedule bp c (t # ts) =
     (if t < length (c_threads c)
      then (case pc_step bp t (c_threads c ! t) c of None \<Rightarrow> None | Some c' \<Rightarrow> schedule bp c' ts)
      else None)"

lemma schedule_reach:
  "reach init (conc_step bp) c \<Longrightarrow> schedule bp c ts = Some c' \<Longrightarrow> reach init (conc_step bp) c'"
proof (induction ts arbitrary: c)
  case (Cons t ts)
  then obtain d where d: "conc_step bp c t d" "schedule bp d ts = Some c'"
    by (auto simp: conc_step_def split: if_splits option.splits)
  show ?case by (rule Cons.IH [OF reach_step [OF Cons.prems(1) d(1)] d(2)])
qed simp

section \<open>A thread that runs alone\<close>

definition ledger_after :: "build \<Rightarrow> ledger \<Rightarrow> ledger_op \<Rightarrow> ledger" where
  "ledger_after bp l p =
     (case p of
        OpRegister a b \<Rightarrow> fst (ledger_register l a b)
      | OpTransfer from to v n \<Rightarrow> fst (ledger_transfer bp l from to v n)
      | OpCredit a v \<Rightarrow> fst (ledger_credit bp l a v))"

lemma lone_transfer:
  "\<exists>k \<le> 4. \<exists>c. schedule bp (conc_init l [OpTransfer from to v n]) (replicate k 0) = Some c \<and>
     c_threads c = [Finished (ledger_outcome bp l (OpTransfer from to v n))] \<and> c_lock c = None \<and>
     c_ledger c = ledger_after bp l (OpTransfer from to v n)"
proof -
  let ?c = "conc_init l [OpTransfer from to v n]"
  let ?done = "\<lambda>k. \<exists>c. schedule bp ?c (replicate k 0) = Some c \<and>
     c_threads c = [Finished (ledger_outcome bp l (OpTransfer from to v n))] \<and> c_lock c = None \<and>
     c_ledger c = ledger_after bp l (OpTransfer from to v n)"
  note defs = conc_init_def ledger_outcome_def ledger_after_def ledger_transfer_halves
  show ?thesis
  proof (cases "transfer_precheck from to v")
    case (Some e)
    then have "?done 1" by (simp add: defs)
    then show ?thesis by (intro exI [of _ 1]) simp
  next
    case None
    obtain l1 r where d: "transfer_debit bp l from v n = (l1, r)" by force
    consider "r = Panic" | e where "r = Ret (Inl e)" | "r = Ret (Inr ())"
      by (metis old.unit.exhaust run.exhaust sum.exhaust)
    then show ?thesis
    proof cases
      case 3
      obtain l2 s where "transfer_credit bp l1 to v = (l2, s)" by force
      with None d 3 have "?done 4" by (cases s) (simp_all add: defs numeral_eq_Suc)
      then show ?thesis by blast
    next
      case 1
      with None d have "?done 3" by (simp add: defs numeral_eq_Suc)
      then show ?thesis by (intro exI [of _ 3]) simp
    next
      case 2
      with None d have "?done 3" by (simp add: defs numeral_eq_Suc)
      then show ?thesis by (intro exI [of _ 3]) simp
    qed
  qed
qed

text \<open>
  The stepwise operations agree with the sequential ones: a thread that runs alone needs at most four
  steps and then has the result and leaves the ledger that the operation has when it is called as
  one piece, in either build and also when it panics, and the lock is free again.
\<close>

theorem lone_thread_sequential:
  "\<exists>k \<le> 4. \<exists>c. schedule bp (conc_init l [p]) (replicate k 0) = Some c \<and>
     c_threads c = [Finished (ledger_outcome bp l p)] \<and> c_lock c = None \<and> c_ledger c = ledger_after bp l p"
proof (cases p)
  case (OpTransfer "from" to v n)
  then show ?thesis using lone_transfer by simp
next
  case (OpRegister a b)
  then show ?thesis
    by (intro exI [of _ 1]) (simp add: conc_init_def ledger_outcome_def ledger_after_def split: prod.split)
next
  case (OpCredit a v)
  then show ?thesis
    by (intro exI [of _ 1]) (simp add: conc_init_def ledger_outcome_def ledger_after_def split: prod.split run.split)
qed

section \<open>Instances\<close>

definition example_ops :: "ledger_op list" where
  "example_ops = [OpTransfer (example_addr 1) (example_addr 2) 100 0, OpCredit (example_addr 2) 7]"

lemma example_mint_fits: "mint_fits example_ledger example_ops"
  by (simp add: mint_fits_def example_ops_def example_ledger_def example_addr_def ledger_register_def ledger_new_def
      account_new_def total_supply_def entry_total_def)

lemma example_reach:
  "schedule Release (conc_init example_ledger example_ops) ts = Some c \<Longrightarrow>
   reach (conc_start example_ledger example_ops) (conc_step Release) c"
  by (rule schedule_reach [OF reach_init]) (simp_all add: conc_start_def)

lemmas example_conc_defs = conc_init_def example_ops_def example_ledger_def example_addr_def ledger_register_def
  ledger_new_def account_new_def transfer_precheck_def transfer_debit_eq transfer_credit_eq ledger_credit_eq

lemma example_middle:
  "\<exists>c. schedule Release (conc_init example_ledger example_ops) [0, 0, 0, 1] = Some c \<and>
     in_flight c = Some (example_addr 1, example_addr 2, 100, 0) \<and> ledger_nonce (c_ledger c) (example_addr 1) = Some 1 \<and>
     thread_outcomes c = [None, Some CreditDone]"
  by (simp add: example_conc_defs in_flight_def thread_outcomes_def ledger_nonce_def debited_def)

lemma example_end:
  "\<exists>c. schedule Release (conc_init example_ledger example_ops) [0, 0, 0, 1, 0] = Some c \<and>
     thread_outcomes c = map Some [Transferred (Inr ()), CreditDone]"
  by (simp add: example_conc_defs thread_outcomes_def)

theorem transfers_linearizable_witness:
  "\<exists>c es l. schedule Release (conc_init example_ledger example_ops) [0, 0, 0, 1, 0] = Some c \<and>
     mset es = mset (zip example_ops [Transferred (Inr ()), CreditDone]) \<and>
     run_ops (exec_logged Release) example_ledger es = Ret l \<and>
     (\<forall>a. map_of (accounts (c_ledger c)) a = map_of (accounts l) a)"
proof -
  obtain c where c: "schedule Release (conc_init example_ledger example_ops) [0, 0, 0, 1, 0] = Some c"
      "thread_outcomes c = map Some [Transferred (Inr ()), CreditDone]"
    using example_end by blast
  from transfers_linearizable [OF example_reach [OF c(1)] example_mint_fits c(2)] c(1) show ?thesis by blast
qed

theorem threads_progress_witness:
  "\<exists>c t c'. schedule Release (conc_init example_ledger example_ops) [0, 0, 0, 1] = Some c \<and>
     conc_step Release c t c' \<and> work c' < work c"
proof -
  obtain c where c: "schedule Release (conc_init example_ledger example_ops) [0, 0, 0, 1] = Some c"
      "thread_outcomes c = [None, Some CreditDone]"
    using example_middle by blast
  have "thread_outcomes c \<noteq> map Some rs" for rs using c(2) by (cases rs) auto
  with threads_progress [OF example_reach [OF c(1)]] c(1) show ?thesis by blast
qed

theorem readers_see_transfer_in_flight_witness:
  "\<exists>c l. schedule Release (conc_init example_ledger example_ops) [0, 0, 0, 1] = Some c \<and>
     run_ops (exec_logged Release) example_ledger (c_log c) = Ret l \<and>
     funds (c_ledger c) (example_addr 1) + unat (100 :: u64) = funds l (example_addr 1)"
proof -
  obtain c where c: "schedule Release (conc_init example_ledger example_ops) [0, 0, 0, 1] = Some c"
      "in_flight c = Some (example_addr 1, example_addr 2, 100, 0)"
    using example_middle by blast
  from readers_see_transfer_in_flight [OF example_reach [OF c(1)] example_mint_fits] c show ?thesis by auto
qed

end
