(* ===== verification/Ledger_Snapshot.thy ===== *)
theory Ledger_Snapshot
  imports Ledger_Conc
begin

text \<open>
  \<open>Ledger::snapshot\<close> while other threads work (\<^verbatim>\<open>src/zyphra/src/ledger.rs\<close>). Iterating a \<open>DashMap\<close> goes through its shards one after
  the other, holding the read guard of the current shard only, so one step copies the entries of one
  shard; between the steps the threads of \<^verbatim>\<open>Ledger_Conc\<close> go on. How addresses are spread over the shards is a parameter.
  The ledgers met at the steps are recorded for the statements only. Shown: every entry of a finished
  snapshot is what the account was when its shard was read, undisturbed snapshots are the sequential
  ones, and a disturbed one can show money that never existed.
\<close>

section \<open>The reader\<close>

record snap =
  s_conc :: conc
  s_next :: nat
  s_out :: "(string \<times> account_state) list"
  s_seen :: "ledger list"

definition read_shard :: "crates \<Rightarrow> (address \<Rightarrow> nat) \<Rightarrow> snap \<Rightarrow> snap" where
  "read_shard L shard s =
     (let l = c_ledger (s_conc s) in
      s\<lparr>s_next := Suc (s_next s),
        s_out := fold (\<lambda>(k, v) m. AList.update (''0x'' @ hex_encode L k) v m)
                   (filter (\<lambda>(k, v). shard k = s_next s) (accounts l)) (s_out s),
        s_seen := s_seen s @ [l]\<rparr>)"

text \<open>The event is \<open>Some t\<close> for a step of thread \<open>t\<close> and \<open>None\<close> for one of the reader.\<close>

inductive snap_step :: "crates \<Rightarrow> (address \<Rightarrow> nat) \<Rightarrow> nat \<Rightarrow> build \<Rightarrow> snap \<Rightarrow> nat option \<Rightarrow> snap \<Rightarrow> bool"
  for L :: crates and shard :: "address \<Rightarrow> nat" and shards :: nat and bp :: build where
  writer: "conc_step bp (s_conc s) t c' \<Longrightarrow> snap_step L shard shards bp s (Some t) (s\<lparr>s_conc := c'\<rparr>)"
| reader: "s_next s < shards \<Longrightarrow> snap_step L shard shards bp s None (read_shard L shard s)"

inductive_cases writer_cases: "snap_step L shard shards bp s (Some t) s'"
inductive_cases reader_cases: "snap_step L shard shards bp s None s'"

definition snap_start :: "ledger \<Rightarrow> ledger_op list \<Rightarrow> snap \<Rightarrow> bool" where
  "snap_start l0 ops s \<longleftrightarrow>
     conc_start l0 ops (s_conc s) \<and> map_wf (accounts l0) \<and> s_next s = 0 \<and> s_out s = [] \<and> s_seen s = []"

section \<open>What it sees\<close>

lemma conc_step_map_wf:
  assumes "conc_step bp c t c'" "map_wf (accounts (c_ledger c))"
  shows "map_wf (accounts (c_ledger c'))"
proof -
  have st: "pc_step bp t (c_threads c ! t) c = Some c'" using assms(1) by (simp add: conc_step_def)
  show ?thesis
    using st assms(2)
    by (cases "(bp, t, c_threads c ! t, c)" rule: pc_step.cases)
      (auto simp: ledger_register_def ledger_credit_def transfer_debit_def transfer_credit_def entry_add_def hmap.wf_put
        split: prod.splits option.splits run.splits sum.splits if_splits)
qed

lemma map_of_filter_key: "map_of (filter (\<lambda>(k, v). P k) xs) a = (if P a then map_of xs a else None)"
  by (induction xs) auto

definition snap_inv :: "crates \<Rightarrow> (address \<Rightarrow> nat) \<Rightarrow> snap \<Rightarrow> bool" where
  "snap_inv L shard s \<longleftrightarrow>
     map_wf (accounts (c_ledger (s_conc s))) \<and> length (s_seen s) = s_next s \<and>
     (\<forall>a. map_of (s_out s) (''0x'' @ hex_encode L a) =
        (if shard a < s_next s then map_of (accounts (s_seen s ! shard a)) a else None))"

lemma read_shard_lookup:
  assumes "hex_ok L" "snap_inv L shard s"
  shows "map_of (s_out (read_shard L shard s)) (''0x'' @ hex_encode L a) =
    (if shard a = s_next s then map_of (accounts (c_ledger (s_conc s))) a
     else map_of (s_out s) (''0x'' @ hex_encode L a))"
proof -
  let ?m = "accounts (c_ledger (s_conc s))" and ?P = "\<lambda>(k, v). shard k = s_next s"
  have "distinct (map fst ?m)" using assms(2) by (simp add: snap_inv_def map_wf_def)
  then have dist: "distinct (map fst (filter ?P ?m))" by (rule distinct_map_filter)
  have look: "map_of (filter ?P ?m) a = (if shard a = s_next s then map_of ?m a else None)"
    by (rule map_of_filter_key)
  have out: "map_of (s_out s) (''0x'' @ hex_encode L a) = None" if "shard a = s_next s"
    using assms(2) that by (simp add: snap_inv_def)
  have "a \<in> fst ` set (filter ?P ?m) \<longleftrightarrow> map_of (filter ?P ?m) a \<noteq> None" by (simp only: map_of_eq_None_iff not_not)
  then show ?thesis
    using fold_update_lookup [OF dist snapshot_key_inj [OF assms(1)], of "s_out s" a] look out
    by (simp add: read_shard_def Let_def del: append_Cons split: if_splits)
qed

interpretation snapshots: invariant_system "snap_start l0 ops" "snap_step L shard shards bp"
    "\<lambda>s. hex_ok L \<longrightarrow> snap_inv L shard s" for l0 ops L shard shards bp
proof unfold_locales
  show "hex_ok L \<longrightarrow> snap_inv L shard s" if "snap_start l0 ops s" for s
    using that by (simp add: snap_start_def snap_inv_def conc_start_def conc_init_def)
  show "hex_ok L \<longrightarrow> snap_inv L shard s'" if inv: "hex_ok L \<longrightarrow> snap_inv L shard s" and "snap_step L shard shards bp s e s'" for s e s'
    using that(2)
  proof cases
    case (writer t c')
    then show ?thesis using inv conc_step_map_wf by (auto simp: snap_inv_def)
  next
    case reader
    then show ?thesis
      using inv read_shard_lookup [of L shard s]
      by (auto simp: snap_inv_def read_shard_def Let_def nth_append less_Suc_eq simp del: append_Cons)
  qed
qed

text \<open>
  C23: A finished snapshot shows every account as it was at the moment its shard was read, whatever other
  threads did in between. If the ledger was the same at all these moments, the
  snapshot agrees with the sequential one of that ledger; in general the entries come from different moments.
\<close>

theorem snapshot_shows_moments:
  assumes "hex_ok L" "\<forall>a. shard a < shards"
    and "reach (snap_start l0 ops) (snap_step L shard shards bp) s" "s_next s = shards"
  shows "length (s_seen s) = shards \<and>
    (\<forall>a. map_of (s_out s) (''0x'' @ hex_encode L a) = map_of (accounts (s_seen s ! shard a)) a) \<and>
    (\<forall>l a. s_seen s = replicate shards l \<and> ledger_wf l \<longrightarrow>
       map_of (s_out s) (''0x'' @ hex_encode L a) = map_of (ledger_snapshot L l) (''0x'' @ hex_encode L a))"
proof -
  have inv: "snap_inv L shard s" using snapshots.reach_inv [OF assms(3)] assms(1) by blast
  then have out: "map_of (s_out s) (''0x'' @ hex_encode L a) = map_of (accounts (s_seen s ! shard a)) a" for a
    using assms(2,4) by (simp add: snap_inv_def del: append_Cons)
  moreover have "map_of (accounts (s_seen s ! shard a)) a = map_of (ledger_snapshot L l) (''0x'' @ hex_encode L a)"
    if "s_seen s = replicate shards l" "ledger_wf l" for l a
    using snapshot_lookup [OF assms(1) that(2)] assms(2) that(1) by simp
  ultimately show ?thesis using inv assms(4) by (auto simp: snap_inv_def simp del: append_Cons)
qed

section \<open>Torn snapshots\<close>

lemma read_shards:
  "reach (snap_start l0 ops) (snap_step L shard shards bp) s \<Longrightarrow> s_next s + k \<le> shards \<Longrightarrow>
   \<exists>s'. reach (snap_start l0 ops) (snap_step L shard shards bp) s' \<and> s_next s' = s_next s + k \<and>
     s_conc s' = s_conc s \<and> s_seen s' = s_seen s @ replicate k (c_ledger (s_conc s))"
proof (induction k arbitrary: s)
  case (Suc k)
  let ?s = "read_shard L shard s"
  have "snap_step L shard shards bp s None ?s" using Suc.prems(2) by (intro reader) simp
  then have "reach (snap_start l0 ops) (snap_step L shard shards bp) ?s" by (rule reach_step [OF Suc.prems(1)])
  moreover have s: "s_next ?s = Suc (s_next s)" "s_conc ?s = s_conc s" "s_seen ?s = s_seen s @ [c_ledger (s_conc s)]"
    by (simp_all add: read_shard_def Let_def)
  ultimately show ?case using Suc.IH [of ?s] Suc.prems(2) by (simp add: s)
qed (use le_refl in auto)

lemma run_writers:
  "reach (snap_start l0 ops) (snap_step L shard shards bp) s \<Longrightarrow> schedule bp (s_conc s) ts = Some c \<Longrightarrow>
   reach (snap_start l0 ops) (snap_step L shard shards bp) (s\<lparr>s_conc := c\<rparr>)"
proof (induction ts arbitrary: s)
  case (Cons t ts)
  then obtain d where d: "conc_step bp (s_conc s) t d" "schedule bp d ts = Some c"
    by (auto simp: conc_step_def split: if_splits option.splits)
  then show ?case using Cons.IH [OF reach_step [OF Cons.prems(1) writer [OF d(1)]]] by simp
qed auto

text \<open>
  C24: A snapshot can show money that never existed. For every acceptable transfer whose sender lies in an earlier
  shard than its recipient there is an execution in which the transfer runs between the two reads, and
  the finished snapshot shows the sender's balance from before the transfer beside the recipient's from after it.
\<close>

theorem snapshot_can_double_count:
  assumes "hex_ok L" "\<forall>a. shard a < shards" "map_wf (accounts l0)"
    and "transfer_error l0 from to v n = None" "shard from < shard to"
  shows "\<exists>s. reach (snap_start l0 [OpTransfer from to v n]) (snap_step L shard shards Release) s \<and> s_next s = shards \<and>
    c_threads (s_conc s) = [Finished (Transferred (Inr ()))] \<and>
    map_of (s_out s) (''0x'' @ hex_encode L from) = map_of (accounts l0) from \<and>
    map_of (s_out s) (''0x'' @ hex_encode L to) = Some (credited l0 to v)"
proof -
  let ?p = "OpTransfer from to v n"
  let ?R = "reach (snap_start l0 [?p]) (snap_step L shard shards Release)"
  let ?s0 = "\<lparr>s_conc = conc_init l0 [?p], s_next = 0, s_out = [], s_seen = []\<rparr>"
  have less: "shard from < shards" "shard to < shards" using assms(2) by blast+
  have "?R ?s0" using assms(3) by (intro reach_init) (simp add: snap_start_def conc_start_def)
  from read_shards [OF this, of "Suc (shard from)"] less obtain s1 where s1: "?R s1" "s_next s1 = Suc (shard from)"
      "s_conc s1 = conc_init l0 [?p]" "s_seen s1 = replicate (Suc (shard from)) l0"
    by (auto simp: conc_init_def)
  obtain k c where c: "schedule Release (conc_init l0 [?p]) (replicate k 0) = Some c"
      "c_threads c = [Finished (ledger_outcome Release l0 ?p)]" "c_ledger c = ledger_after Release l0 ?p"
    using lone_transfer by blast
  have s2: "?R (s1\<lparr>s_conc := c\<rparr>)" using run_writers [OF s1(1)] c(1) by (simp add: s1(3))
  from read_shards [OF this, of "shards - Suc (shard from)"] less obtain s where s: "?R s" "s_next s = shards" "s_conc s = c"
      "s_seen s = replicate (Suc (shard from)) l0 @ replicate (shards - Suc (shard from)) (c_ledger c)"
    by (auto simp: s1)
  obtain st where st: "from \<noteq> to" "v \<noteq> 0" "map_of (accounts l0) from = Some st" "nonce st = n" "v \<le> balance st"
    using assms(4) by (auto simp: transfer_error_None)
  have tr: "ledger_transfer Release l0 from to v n =
      (put_account to (credited l0 to v) (put_account from (debited st v) l0), Ret (Inr ()))"
    using ledger_transfer_valid [OF st, of Release] by simp
  have inv: "snap_inv L shard s" using snapshots.reach_inv [OF s(1)] assms(1) by blast
  then have out: "map_of (s_out s) (''0x'' @ hex_encode L a) = map_of (accounts (s_seen s ! shard a)) a" for a
    using assms(2) s(2) by (simp add: snap_inv_def del: append_Cons)
  have seen: "s_seen s ! shard from = l0" "s_seen s ! shard to = c_ledger c"
    using assms(5) less by (simp_all add: s(4) nth_append del: replicate_Suc)
  have "map_of (accounts (c_ledger c)) to = Some (credited l0 to v)" by (simp add: c(3) ledger_after_def tr)
  moreover have "c_threads (s_conc s) = [Finished (Transferred (Inr ()))]" by (simp add: s(3) c(2) ledger_outcome_def tr)
  ultimately show ?thesis using s(1,2) out [of "from"] out [of to] by (intro exI [of _ s]) (simp add: seen del: append_Cons)
qed

section \<open>Instances\<close>

definition example_shard :: "address \<Rightarrow> nat" where
  "example_shard a = (if a = example_addr 1 then 0 else 1)"

lemma example_torn:
  "transfer_error example_ledger (example_addr 1) (example_addr 2) 100 0 = None" "map_wf (accounts example_ledger)"
  "map_of (accounts example_ledger) (example_addr 1) = Some \<lparr>balance = 1000, nonce = 0\<rparr>"
  "credited example_ledger (example_addr 2) 100 = \<lparr>balance = 600, nonce = 0\<rparr>"
  by (simp_all add: transfer_error_None example_ledger_def example_addr_def ledger_register_def ledger_new_def
      account_new_def map_wf_def credited_def word_le_nat_alt)

lemma example_shard_less: "\<forall>a. example_shard a < 2" "example_shard (example_addr 1) < example_shard (example_addr 2)"
  by (simp_all add: example_shard_def example_addr_def)

theorem snapshot_can_double_count_witness:
  "\<exists>s :: snap. s_next s = 2 \<and>
     map_of (s_out s) (''0x'' @ hex_encode ref_crates (example_addr 1)) = Some \<lparr>balance = 1000, nonce = 0\<rparr> \<and>
     map_of (s_out s) (''0x'' @ hex_encode ref_crates (example_addr 2)) = Some \<lparr>balance = 600, nonce = 0\<rparr>"
  using snapshot_can_double_count [OF ref_laws(1) example_shard_less(1) example_torn(2,1) example_shard_less(2)]
  unfolding example_torn(3,4) by blast

theorem snapshot_shows_moments_witness:
  "\<exists>s :: snap. length (s_seen s) = 2 \<and>
     map_of (s_out s) (''0x'' @ hex_encode ref_crates (example_addr 1)) = Some \<lparr>balance = 1000, nonce = 0\<rparr>"
proof -
  let ?s0 = "\<lparr>s_conc = conc_init example_ledger [], s_next = 0, s_out = [], s_seen = []\<rparr>"
  let ?R = "reach (snap_start example_ledger []) (snap_step ref_crates example_shard 2 Release)"
  have "?R ?s0" using example_torn(2) by (intro reach_init) (simp add: snap_start_def conc_start_def)
  from read_shards [OF this, of 2] obtain s where s: "?R s" "s_next s = 2" "s_seen s = replicate 2 example_ledger"
    by (auto simp: conc_init_def)
  have "example_shard (example_addr 1) = 0" by (simp add: example_shard_def)
  then show ?thesis
    using snapshot_shows_moments [OF ref_laws(1) example_shard_less(1) s(1,2)] example_torn(3) s(3)
    by (intro exI [of _ s]) (auto simp: numeral_2_eq_2 simp del: append_Cons)
qed

end
