(* ===== verification/Ledger_Tests.thy ===== *)
theory Ledger_Tests
  imports Ledger_Spec
begin

text \<open>
  The unit tests of the ledger, from \<^verbatim>\<open>ledger.rs\<close> and \<^verbatim>\<open>main.rs\<close>, as scripts of calls and assertions that
  \<open>passes\<close> runs on the model; a panic fails the test. Where a test generates wallets, the script
  takes their addresses, which only have to differ, so that each test becomes a statement about all
  wallets. The scripts are decided over a reference version of the ledger on finite maps
  (\<open>map_transfer\<close> and its companions), to which the operations on the association list are equal.
\<close>

section \<open>Scripts\<close>

datatype check =
    DoRegister address u64
  | AssertRegister address u64 bool
  | DoTransfer address address u64 u64
  | AssertOk address address u64 u64
  | AssertErr address address u64 u64 "ledger_error \<Rightarrow> bool"
  | DoCredit address u64
  | AssertBalance address "u64 option"
  | AssertNonce address "u64 option"

fun passes :: "build \<Rightarrow> ledger \<Rightarrow> check list \<Rightarrow> bool" where
  "passes bp l [] = True"
| "passes bp l (DoRegister a b # cs) = passes bp (fst (ledger_register l a b)) cs"
| "passes bp l (AssertRegister a b r # cs) =
     (snd (ledger_register l a b) = r \<and> passes bp (fst (ledger_register l a b)) cs)"
| "passes bp l (DoTransfer from to v n # cs) =
     (case ledger_transfer bp l from to v n of (l', Ret r) \<Rightarrow> passes bp l' cs | (l', Panic) \<Rightarrow> False)"
| "passes bp l (AssertOk from to v n # cs) =
     (case ledger_transfer bp l from to v n of (l', Ret (Inr _)) \<Rightarrow> passes bp l' cs | _ \<Rightarrow> False)"
| "passes bp l (AssertErr from to v n P # cs) =
     (case ledger_transfer bp l from to v n of (l', Ret (Inl e)) \<Rightarrow> P e \<and> passes bp l' cs | _ \<Rightarrow> False)"
| "passes bp l (DoCredit a v # cs) =
     (case ledger_credit bp l a v of (l', Ret _) \<Rightarrow> passes bp l' cs | (l', Panic) \<Rightarrow> False)"
| "passes bp l (AssertBalance a b # cs) = (ledger_balance l a = b \<and> passes bp l cs)"
| "passes bp l (AssertNonce a n # cs) = (ledger_nonce l a = n \<and> passes bp l cs)"

section \<open>The reference on maps\<close>

type_synonym account_map = "address \<Rightarrow> account_state option"

definition map_credited :: "account_map \<Rightarrow> address \<Rightarrow> u64 \<Rightarrow> account_state" where
  "map_credited m a v =
     (case m a of None \<Rightarrow> \<lparr>balance = v, nonce = 0\<rparr> | Some s \<Rightarrow> s\<lparr>balance := balance s + v\<rparr>)"

definition map_funds :: "account_map \<Rightarrow> address \<Rightarrow> nat" where
  "map_funds m a = (case m a of None \<Rightarrow> 0 | Some s \<Rightarrow> unat (balance s))"

definition map_register :: "account_map \<Rightarrow> address \<Rightarrow> u64 \<Rightarrow> account_map \<times> bool" where
  "map_register m a b = (if m a = None then (m(a \<mapsto> \<lparr>balance = b, nonce = 0\<rparr>), True) else (m, False))"

definition map_credit :: "build \<Rightarrow> account_map \<Rightarrow> address \<Rightarrow> u64 \<Rightarrow> account_map run" where
  "map_credit bp m a v =
     (if bp = Debug \<and> 2 ^ 64 \<le> map_funds m a + unat v then Panic else Ret (m(a \<mapsto> map_credited m a v)))"

definition map_transfer ::
    "build \<Rightarrow> account_map \<Rightarrow> address \<Rightarrow> address \<Rightarrow> u64 \<Rightarrow> u64 \<Rightarrow> (account_map \<times> (ledger_error + unit)) run" where
  "map_transfer bp m from to v n =
     (if from = to then Ret (m, Inl SelfTransfer)
      else if v = 0 then Ret (m, Inl ZeroValue)
      else
        (case m from of
           None \<Rightarrow> Ret (m, Inl (AddressNotFound from))
         | Some s \<Rightarrow>
             if nonce s \<noteq> n then Ret (m, Inl (InvalidNonce (nonce s) n))
             else if balance s < v then Ret (m, Inl (InsufficientBalance (balance s) v))
             else if bp = Debug \<and> (2 ^ 64 \<le> unat n + 1 \<or> 2 ^ 64 \<le> map_funds m to + unat v) then Panic
             else
               Ret (m(from \<mapsto> \<lparr>balance = balance s - v, nonce = nonce s + 1\<rparr>, to \<mapsto> map_credited m to v), Inr ())))"

lemma map_views:
  "map_credited (map_of (accounts l)) a v = credited l a v" "map_funds (map_of (accounts l)) a = funds l a"
  by (auto simp: map_credited_def credited_def map_funds_def funds_def ledger_balance_def split: option.split)

lemma map_of_put: "map_of (accounts (put_account a s l)) = (map_of (accounts l))(a \<mapsto> s)"
  by (simp add: fun_eq_iff)

lemma register_map:
  "map_register (map_of (accounts l)) a b =
     (map_of (accounts (fst (ledger_register l a b))), snd (ledger_register l a b))"
  by (auto simp: map_register_def ledger_register_def account_new_def hmap.lookup_put fun_eq_iff split: option.split)

lemma credit_map:
  "map_credit bp (map_of (accounts l)) a v =
     (case ledger_credit bp l a v of (l', Ret _) \<Rightarrow> Ret (map_of (accounts l')) | (l', Panic) \<Rightarrow> Panic)"
  by (simp add: map_credit_def ledger_credit_eq map_views map_of_put)

lemma transfer_map:
  "map_transfer bp (map_of (accounts l)) from to v n =
     (case ledger_transfer bp l from to v n of (l', Ret r) \<Rightarrow> Ret (map_of (accounts l'), r) | (l', Panic) \<Rightarrow> Panic)"
proof (cases rule: ledger_transfer_cases [of l "from" to v n bp])
  case (rejected e)
  then show ?thesis
    by (auto simp: map_transfer_def transfer_error_def ledger_nonce_def ledger_balance_def split: option.splits if_splits)
next
  case (nonce_panic s)
  then show ?thesis by (auto simp: map_transfer_def transfer_error_None map_views not_less)
next
  case (credit_panic s)
  then show ?thesis by (auto simp: map_transfer_def transfer_error_None map_views not_less)
next
  case (done_ s)
  have "map_transfer bp (map_of (accounts l)) from to v n =
      Ret ((map_of (accounts l))(from \<mapsto> debited s v, to \<mapsto> credited l to v), Inr ())"
    using done_ by (auto simp: map_transfer_def transfer_error_None map_views not_less debited_def not_le)
  with done_ show ?thesis by (simp add: map_of_put)
qed

text \<open>Sequences of operations.\<close>

fun map_exec :: "build \<Rightarrow> account_map \<Rightarrow> ledger_op \<Rightarrow> account_map run" where
  "map_exec bp m (OpRegister a b) = Ret (fst (map_register m a b))"
| "map_exec bp m (OpTransfer from to v n) =
     (case map_transfer bp m from to v n of Ret (m', r) \<Rightarrow> Ret m' | Panic \<Rightarrow> Panic)"
| "map_exec bp m (OpCredit a v) = map_credit bp m a v"

definition map_view :: "ledger run \<Rightarrow> account_map run" where
  "map_view r = (case r of Ret l \<Rightarrow> Ret (map_of (accounts l)) | Panic \<Rightarrow> Panic)"

lemma map_view_simps [simp]: "map_view (Ret l) = Ret (map_of (accounts l))" "map_view Panic = Panic"
  by (simp_all add: map_view_def)

lemma map_exec_view: "map_exec bp (map_of (accounts l)) p = map_view (ledger_exec bp l p)"
  by (cases p) (auto simp: register_map transfer_map credit_map split: prod.split run.split)

text \<open>
  C22: The ledger is the map it stands for: running any operations on the association list and looking at the accounts gives
  the same map, or the same panic, as running the reference operations on maps, which say in one expression
  each what registering, crediting and transferring do to the accounts, in either build.
\<close>

theorem ledger_run_is_map_run:
  "map_view (run_ops (ledger_exec bp) l ops) = run_ops (map_exec bp) (map_of (accounts l)) ops"
proof (induction ops arbitrary: l)
  case (Cons p ops)
  show ?case
    using Cons.IH map_exec_view [of bp l p] by (cases "ledger_exec bp l p") simp_all
qed simp

fun map_passes :: "build \<Rightarrow> account_map \<Rightarrow> check list \<Rightarrow> bool" where
  "map_passes bp m [] = True"
| "map_passes bp m (DoRegister a b # cs) = map_passes bp (fst (map_register m a b)) cs"
| "map_passes bp m (AssertRegister a b r # cs) =
     (snd (map_register m a b) = r \<and> map_passes bp (fst (map_register m a b)) cs)"
| "map_passes bp m (DoTransfer from to v n # cs) =
     (case map_transfer bp m from to v n of Ret (m', r) \<Rightarrow> map_passes bp m' cs | Panic \<Rightarrow> False)"
| "map_passes bp m (AssertOk from to v n # cs) =
     (case map_transfer bp m from to v n of Ret (m', Inr _) \<Rightarrow> map_passes bp m' cs | _ \<Rightarrow> False)"
| "map_passes bp m (AssertErr from to v n P # cs) =
     (case map_transfer bp m from to v n of Ret (m', Inl e) \<Rightarrow> P e \<and> map_passes bp m' cs | _ \<Rightarrow> False)"
| "map_passes bp m (DoCredit a v # cs) =
     (case map_credit bp m a v of Ret m' \<Rightarrow> map_passes bp m' cs | Panic \<Rightarrow> False)"
| "map_passes bp m (AssertBalance a b # cs) = (map_option balance (m a) = b \<and> map_passes bp m cs)"
| "map_passes bp m (AssertNonce a n # cs) = (map_option nonce (m a) = n \<and> map_passes bp m cs)"

lemma passes_map: "passes bp l cs = map_passes bp (map_of (accounts l)) cs"
  by (induction bp l cs rule: passes.induct)
    (auto simp: register_map transfer_map credit_map ledger_balance_def ledger_nonce_def split: prod.split run.split sum.split)

section \<open>The tests of the ledger module\<close>

fun is_insufficient :: "ledger_error \<Rightarrow> bool" where
  "is_insufficient (InsufficientBalance have need) = True"
| "is_insufficient _ = False"

fun is_invalid_nonce :: "ledger_error \<Rightarrow> bool" where
  "is_invalid_nonce (InvalidNonce expected got) = True"
| "is_invalid_nonce _ = False"

definition any_error :: "ledger_error \<Rightarrow> bool" where
  "any_error e = True"

definition addr :: "u8 \<Rightarrow> address" where
  "addr b = (replicate ADDRESS_LEN 0)[0 := b]"

definition register_and_balance :: "check list" where
  "register_and_balance =
     [DoRegister (addr 1) 1000, AssertBalance (addr 1) (Some 1000), AssertNonce (addr 1) (Some 0)]"

definition basic_transfer :: "check list" where
  "basic_transfer =
     [DoRegister (addr 1) 1000, DoRegister (addr 2) 500, AssertOk (addr 1) (addr 2) 300 0,
      AssertBalance (addr 1) (Some 700), AssertBalance (addr 2) (Some 800), AssertNonce (addr 1) (Some 1)]"

definition insufficient_balance :: "check list" where
  "insufficient_balance =
     [DoRegister (addr 1) 100, DoRegister (addr 2) 0, AssertErr (addr 1) (addr 2) 200 0 is_insufficient]"

definition replay_attack_rejected :: "check list" where
  "replay_attack_rejected =
     [DoRegister (addr 1) 1000, DoRegister (addr 2) 0, AssertOk (addr 1) (addr 2) 100 0,
      AssertErr (addr 1) (addr 2) 100 0 is_invalid_nonce]"

definition nonce_must_match :: "check list" where
  "nonce_must_match =
     [DoRegister (addr 1) 1000, DoRegister (addr 2) 0, AssertErr (addr 1) (addr 2) 100 1 is_invalid_nonce]"

definition self_transfer_rejected :: "check list" where
  "self_transfer_rejected =
     [DoRegister (addr 1) 1000, AssertErr (addr 1) (addr 1) 100 0 (\<lambda>e. e = SelfTransfer)]"

definition zero_value_rejected :: "check list" where
  "zero_value_rejected =
     [DoRegister (addr 1) 1000, DoRegister (addr 2) 0, AssertErr (addr 1) (addr 2) 0 0 (\<lambda>e. e = ZeroValue)]"

definition credit_auto_creates_account :: "check list" where
  "credit_auto_creates_account = [DoCredit (addr 9) 500, AssertBalance (addr 9) (Some 500)]"

lemma addr_eq [simp]: "addr a = addr b \<longleftrightarrow> a = b"
proof -
  have "addr c ! 0 = c" for c by (simp add: addr_def ADDRESS_LEN_def)
  then show ?thesis by metis
qed

named_theorems map_eval \<open>the operations on maps, for deciding a script\<close>

declare map_register_def [map_eval] map_transfer_def [map_eval] map_credit_def [map_eval] map_credited_def [map_eval]
  map_funds_def [map_eval] any_error_def [map_eval]

text \<open>A fresh ledger as a map.\<close>

lemma passes_new: "passes bp ledger_new cs = map_passes bp (\<lambda>_. None) cs"
  by (simp add: passes_map ledger_new_def)

lemma ledger_rs_tests:
  "passes bp ledger_new register_and_balance" "passes bp ledger_new basic_transfer"
  "passes bp ledger_new insufficient_balance" "passes bp ledger_new replay_attack_rejected"
  "passes bp ledger_new nonce_must_match" "passes bp ledger_new self_transfer_rejected"
  "passes bp ledger_new zero_value_rejected" "passes bp ledger_new credit_auto_creates_account"
  unfolding passes_new
  by (simp_all add: register_and_balance_def basic_transfer_def insufficient_balance_def replay_attack_rejected_def
      nonce_must_match_def self_transfer_rejected_def zero_value_rejected_def credit_auto_creates_account_def map_eval)

section \<open>The tests of the main module on the ledger\<close>

text \<open>Accounts, balances and nonces.\<close>

definition test_ledger_initialization :: "address \<Rightarrow> check list" where
  "test_ledger_initialization w = [AssertBalance w None, DoRegister w 1000, AssertBalance w (Some 1000)]"

definition test_ledger_nonce_tracking :: "address \<Rightarrow> check list" where
  "test_ledger_nonce_tracking w = [DoRegister w 1000, AssertNonce w (Some 0)]"

definition test_multiple_commands_sequence :: "address \<Rightarrow> check list" where
  "test_multiple_commands_sequence w =
     [DoRegister w 5000, AssertBalance w (Some 5000), AssertNonce w (Some 0)]"

definition test_ledger_concurrent_account_creation :: "address \<Rightarrow> address \<Rightarrow> address \<Rightarrow> check list" where
  "test_ledger_concurrent_account_creation w1 w2 w3 =
     [DoRegister w1 1000, DoRegister w2 2000, DoRegister w3 3000,
      AssertBalance w1 (Some 1000), AssertBalance w2 (Some 2000), AssertBalance w3 (Some 3000)]"

definition test_ledger_balance_edge_cases :: "address \<Rightarrow> address \<Rightarrow> check list" where
  "test_ledger_balance_edge_cases w w2 =
     [AssertBalance w None, DoRegister w 0, AssertBalance w (Some 0),
      DoRegister w2 (2 ^ 64 - 1), AssertBalance w2 (Some (2 ^ 64 - 1))]"

definition test_ledger_multiple_registrations :: "address \<Rightarrow> check list" where
  "test_ledger_multiple_registrations w =
     [AssertRegister w 1000 True, AssertRegister w 2000 False, AssertBalance w (Some 1000)]"

definition test_ledger_account_registration :: "address list \<Rightarrow> check list" where
  "test_ledger_account_registration ws =
     map (\<lambda>(i, w). DoRegister w (of_nat i * 100)) (enumerate 0 ws) @
     map (\<lambda>(i, w). AssertBalance w (Some (of_nat i * 100))) (enumerate 0 ws)"

definition test_multiple_peers_registration :: "address list \<Rightarrow> check list" where
  "test_multiple_peers_registration ws =
     map (\<lambda>(i, w). DoRegister w ((of_nat i + 1) * 1000)) (enumerate 0 ws) @
     map (\<lambda>(i, w). AssertBalance w (Some ((of_nat i + 1) * 1000))) (enumerate 0 ws)"

definition test_ledger_with_varying_balances :: "address list \<Rightarrow> check list" where
  "test_ledger_with_varying_balances ws =
     concat (map (\<lambda>(w, b). [DoRegister w b, AssertBalance w (Some b)])
       (zip ws [0, 1, 100, 1000, 1000000, (2 ^ 64 - 1) div 2]))"

text \<open>Transfers and their rejection.\<close>

definition test_ledger_transfer_validation :: "address \<Rightarrow> address \<Rightarrow> check list" where
  "test_ledger_transfer_validation w1 w2 =
     [DoRegister w1 1000, DoRegister w2 500, AssertOk w1 w2 100 0,
      AssertBalance w1 (Some 900), AssertBalance w2 (Some 600)]"

definition test_ledger_invalid_transfer :: "address \<Rightarrow> address \<Rightarrow> check list" where
  "test_ledger_invalid_transfer w1 w2 =
     [DoRegister w1 100, DoRegister w2 0, AssertErr w1 w2 200 0 any_error]"

definition test_ledger_multiple_transfers :: "address \<Rightarrow> address \<Rightarrow> address \<Rightarrow> check list" where
  "test_ledger_multiple_transfers w1 w2 w3 =
     [DoRegister w1 1000, DoRegister w2 500, DoRegister w3 300,
      DoTransfer w1 w2 100 0, DoTransfer w2 w3 50 0,
      AssertBalance w1 (Some 900), AssertBalance w2 (Some 550), AssertBalance w3 (Some 350)]"

definition test_nonce_increment_on_transfer :: "address \<Rightarrow> address \<Rightarrow> check list" where
  "test_nonce_increment_on_transfer w1 w2 =
     [DoRegister w1 1000, DoRegister w2 0, AssertNonce w1 (Some 0),
      DoTransfer w1 w2 100 0, AssertNonce w1 (Some 1), DoTransfer w1 w2 100 1, AssertNonce w1 (Some 2)]"

definition test_invalid_nonce_rejected :: "address \<Rightarrow> address \<Rightarrow> check list" where
  "test_invalid_nonce_rejected w1 w2 =
     [DoRegister w1 1000, DoRegister w2 0, DoTransfer w1 w2 100 0,
      AssertErr w1 w2 50 0 any_error, AssertOk w1 w2 50 1]"

definition test_self_transfer_not_allowed :: "address \<Rightarrow> check list" where
  "test_self_transfer_not_allowed w = [DoRegister w 1000, AssertErr w w 100 0 any_error]"

definition test_zero_transfer_not_allowed :: "address \<Rightarrow> address \<Rightarrow> check list" where
  "test_zero_transfer_not_allowed w1 w2 = [DoRegister w1 1000, DoRegister w2 0, AssertErr w1 w2 0 0 any_error]"

definition test_ledger_insufficient_balance :: "address \<Rightarrow> address \<Rightarrow> check list" where
  "test_ledger_insufficient_balance s r = [DoRegister s 100, DoRegister r 0, AssertErr s r 200 0 any_error]"

definition test_ledger_invalid_nonce :: "address \<Rightarrow> address \<Rightarrow> check list" where
  "test_ledger_invalid_nonce s r =
     [DoRegister s 1000, DoRegister r 0, AssertOk s r 100 0, AssertErr s r 100 0 any_error, AssertOk s r 100 1]"

definition test_ledger_self_transfer :: "address \<Rightarrow> check list" where
  "test_ledger_self_transfer w = [DoRegister w 1000, AssertErr w w 100 0 any_error]"

definition test_ledger_zero_transfer :: "address \<Rightarrow> address \<Rightarrow> check list" where
  "test_ledger_zero_transfer s r = [DoRegister s 1000, DoRegister r 0, AssertErr s r 0 0 any_error]"

definition test_ledger_unregistered_sender :: "address \<Rightarrow> address \<Rightarrow> check list" where
  "test_ledger_unregistered_sender s r = [DoRegister r 1000, AssertErr s r 100 0 any_error]"

definition test_double_spend_prevention :: "address \<Rightarrow> address \<Rightarrow> address \<Rightarrow> check list" where
  "test_double_spend_prevention s r1 r2 =
     [DoRegister s 500, DoRegister r1 0, DoRegister r2 0,
      AssertOk s r1 250 0, AssertErr s r2 250 0 any_error, AssertOk s r2 250 1]"

definition test_balance_after_multiple_operations :: "address \<Rightarrow> address \<Rightarrow> address \<Rightarrow> check list" where
  "test_balance_after_multiple_operations w1 w2 w3 =
     [DoRegister w1 10000, DoRegister w2 5000, DoRegister w3 1000,
      AssertOk w1 w2 2000 0, AssertBalance w1 (Some 8000), AssertBalance w2 (Some 7000),
      AssertOk w2 w3 3000 0, AssertBalance w2 (Some 4000), AssertBalance w3 (Some 4000),
      AssertOk w3 w1 1000 0, AssertBalance w3 (Some 3000), AssertBalance w1 (Some 9000)]"

definition test_large_balance_operations :: "address \<Rightarrow> address \<Rightarrow> check list" where
  "test_large_balance_operations s r =
     (let large_balance = 2 ^ 64 - 1 - 1000; transfer_amount = 2 ^ 64 - 1 - 2000
      in [DoRegister s large_balance, DoRegister r 0, AssertOk s r transfer_amount 0,
          AssertBalance s (Some (large_balance - transfer_amount)), AssertBalance r (Some transfer_amount)])"

text \<open>Sequences of transfers by one or several senders; the loops of the tests are maps over their ranges.\<close>

definition test_multiple_transactions_same_sender :: "address \<Rightarrow> address list \<Rightarrow> check list" where
  "test_multiple_transactions_same_sender s rs =
     [DoRegister s 10000] @ map (\<lambda>r. DoRegister r 0) rs @
     map (\<lambda>(i, r). AssertOk s r 100 (of_nat i)) (enumerate 0 rs) @ [AssertNonce s (Some 5)]"

definition test_multiple_sequential_transfers_same_sender :: "address \<Rightarrow> address list \<Rightarrow> check list" where
  "test_multiple_sequential_transfers_same_sender s rs =
     [DoRegister s 5000] @ map (\<lambda>r. DoRegister r 0) rs @
     map (\<lambda>(i, r). AssertOk s r 100 (of_nat i)) (enumerate 0 rs) @
     [AssertNonce s (Some 5), AssertBalance s (Some 4500)]"

definition test_comprehensive_ledger_operations :: "address list \<Rightarrow> check list" where
  "test_comprehensive_ledger_operations ws =
     map (\<lambda>i. DoRegister (ws ! i) (1000 * (of_nat i + 1))) [0..<5] @
     map (\<lambda>i. AssertOk (ws ! i) (ws ! (i + 1)) 50 0) [0..<4] @
     map (\<lambda>i. AssertNonce (ws ! i) (Some 1)) [0..<4]"

definition test_nonce_progression_across_multiple_wallets :: "address list \<Rightarrow> address \<Rightarrow> check list" where
  "test_nonce_progression_across_multiple_wallets ws r =
     map (\<lambda>w. DoRegister w 5000) ws @ [DoRegister r 0] @
     concat (map (\<lambda>s. map (\<lambda>i. AssertOk s r 100 (of_nat i)) [0..<3] @ [AssertNonce s (Some 3)]) ws)"

definition test_transaction_batch_operations :: "address list \<Rightarrow> address list \<Rightarrow> check list" where
  "test_transaction_batch_operations ss rs =
     concat (map (\<lambda>i. [DoRegister (ss ! i) (10000 + of_nat i * 1000), DoRegister (rs ! i) 0]) [0..<5]) @
     map (\<lambda>i. AssertOk (ss ! i) (rs ! i) (1000 + of_nat i * 100) 0) [0..<5] @
     map (\<lambda>i. AssertBalance (rs ! i) (Some (1000 + of_nat i * 100))) [0..<5]"

definition test_multiple_ledger_instances_independent :: "address \<Rightarrow> bool" where
  "test_multiple_ledger_instances_independent w =
     (let ledger1 = fst (ledger_register ledger_new w 1000); ledger2 = ledger_new
      in ledger_balance ledger2 w = None \<and> ledger_balance ledger1 w = Some 1000)"

section \<open>They pass\<close>

lemmas small_script_defs = test_ledger_initialization_def test_ledger_nonce_tracking_def test_multiple_commands_sequence_def
  test_ledger_concurrent_account_creation_def test_ledger_balance_edge_cases_def test_ledger_multiple_registrations_def
  test_ledger_transfer_validation_def test_ledger_invalid_transfer_def test_ledger_multiple_transfers_def
  test_nonce_increment_on_transfer_def test_invalid_nonce_rejected_def test_self_transfer_not_allowed_def
  test_zero_transfer_not_allowed_def test_ledger_insufficient_balance_def test_ledger_invalid_nonce_def
  test_ledger_self_transfer_def test_ledger_zero_transfer_def test_ledger_unregistered_sender_def
  test_double_spend_prevention_def test_balance_after_multiple_operations_def test_large_balance_operations_def

lemma account_tests:
  assumes "distinct [w1, w2, w3]"
  shows "passes bp ledger_new (test_ledger_initialization w1)" "passes bp ledger_new (test_ledger_nonce_tracking w1)"
    "passes bp ledger_new (test_multiple_commands_sequence w1)"
    "passes bp ledger_new (test_ledger_concurrent_account_creation w1 w2 w3)"
    "passes bp ledger_new (test_ledger_balance_edge_cases w1 w2)"
    "passes bp ledger_new (test_ledger_multiple_registrations w1)"
  using assms unfolding passes_new by (auto simp: small_script_defs map_eval)

lemma transfer_tests:
  assumes "distinct [w1, w2, w3]"
  shows "passes bp ledger_new (test_ledger_transfer_validation w1 w2)"
    "passes bp ledger_new (test_ledger_multiple_transfers w1 w2 w3)"
    "passes bp ledger_new (test_nonce_increment_on_transfer w1 w2)"
    "passes bp ledger_new (test_balance_after_multiple_operations w1 w2 w3)"
    "passes bp ledger_new (test_large_balance_operations w1 w2)"
  using assms unfolding passes_new by (auto simp: small_script_defs map_eval Let_def)

lemma rejection_tests:
  assumes "distinct [w1, w2, w3]"
  shows "passes bp ledger_new (test_ledger_invalid_transfer w1 w2)"
    "passes bp ledger_new (test_invalid_nonce_rejected w1 w2)" "passes bp ledger_new (test_self_transfer_not_allowed w1)"
    "passes bp ledger_new (test_zero_transfer_not_allowed w1 w2)"
    "passes bp ledger_new (test_ledger_insufficient_balance w1 w2)"
    "passes bp ledger_new (test_ledger_invalid_nonce w1 w2)" "passes bp ledger_new (test_ledger_self_transfer w1)"
    "passes bp ledger_new (test_ledger_zero_transfer w1 w2)" "passes bp ledger_new (test_ledger_unregistered_sender w1 w2)"
    "passes bp ledger_new (test_double_spend_prevention w1 w2 w3)"
  using assms unfolding passes_new by (auto simp: small_script_defs map_eval)

lemma register_many:
  "distinct (map a xs) \<Longrightarrow> \<forall>x \<in> set xs. m (a x) = None \<Longrightarrow>
   map_passes bp m (map (\<lambda>x. DoRegister (a x) (b x)) xs @ cs) =
     map_passes bp (m ++ map_of (map (\<lambda>x. (a x, \<lparr>balance = b x, nonce = 0\<rparr>)) xs)) cs"
proof (induction xs arbitrary: m)
  case (Cons x xs)
  let ?s = "\<lambda>x. \<lparr>balance = b x, nonce = 0\<rparr>"
  have "map_of (map (\<lambda>x. (a x, ?s x)) xs) (a x) = None"
    using Cons.prems(1) by (force simp: map_of_eq_None_iff)
  then have eq: "m(a x \<mapsto> ?s x) ++ map_of (map (\<lambda>x. (a x, ?s x)) xs) = m ++ map_of ((a x, ?s x) # map (\<lambda>x. (a x, ?s x)) xs)"
    by (simp add: map_add_def fun_eq_iff split: option.split)
  have "\<forall>y \<in> set xs. (m(a x \<mapsto> ?s x)) (a y) = None" using Cons.prems by (auto simp: image_iff)
  then have "map_passes bp (m(a x \<mapsto> ?s x)) (map (\<lambda>x. DoRegister (a x) (b x)) xs @ cs) =
      map_passes bp (m(a x \<mapsto> ?s x) ++ map_of (map (\<lambda>x. (a x, ?s x)) xs)) cs"
    using Cons.prems(1) by (intro Cons.IH) simp_all
  moreover have "fst (map_register m (a x) (b x)) = m(a x \<mapsto> ?s x)" using Cons.prems(2) by (simp add: map_register_def)
  ultimately show ?case by (simp only: list.map append_Cons map_passes.simps eq)
qed simp

lemma assert_many:
  "map_passes bp m (map (\<lambda>x. AssertBalance (a x) (b x)) xs @ cs) \<longleftrightarrow>
     (\<forall>x \<in> set xs. map_option balance (m (a x)) = b x) \<and> map_passes bp m cs"
  by (induction xs) auto

lemma register_assert_many:
  assumes "distinct (map a xs)"
  shows "map_passes bp (\<lambda>_. None)
    (map (\<lambda>x. DoRegister (a x) (b x)) xs @ map (\<lambda>x. AssertBalance (a x) (Some (b x))) xs)"
proof -
  have "map_of (map (\<lambda>x. (a x, \<lparr>balance = b x, nonce = 0\<rparr>)) xs) (a y) = Some \<lparr>balance = b y, nonce = 0\<rparr>"
    if "y \<in> set xs" for y
    using assms that by (intro map_of_is_SomeI) (auto simp: comp_def)
  then show ?thesis
    using register_many [OF assms, of "\<lambda>_. None" bp b] assert_many [of bp _ a "\<lambda>x. Some (b x)" xs "[]"]
    by (simp add: map_add_def)
qed

lemma enumerate_distinct: "distinct ws \<Longrightarrow> distinct (map snd (enumerate n ws))"
  by (simp add: enumerate_eq_zip)

lemma registration_tests:
  assumes "distinct ws"
  shows "passes bp ledger_new (test_ledger_account_registration ws)"
    "passes bp ledger_new (test_multiple_peers_registration ws)"
  unfolding passes_new test_ledger_account_registration_def test_multiple_peers_registration_def case_prod_unfold
  by (rule register_assert_many [OF enumerate_distinct [OF assms]])+

lemma varying_balance_test:
  assumes "distinct ws" "length ws = 6"
  shows "passes bp ledger_new (test_ledger_with_varying_balances ws)"
proof -
  obtain a b c d e f where ws: "ws = [a, b, c, d, e, f]"
    using assms(2) by (auto simp: numeral_eq_Suc length_Suc_conv)
  show ?thesis
    using assms(1) unfolding passes_new ws by (auto simp: test_ledger_with_varying_balances_def map_eval)
qed

lemma ok_step:
  assumes "m s = Some st" "s \<noteq> r" "v \<noteq> 0" "nonce st = n" "v \<le> balance st" "unat n + 1 < 2 ^ 64" "map_funds m r + unat v < 2 ^ 64"
  shows "map_passes bp m (AssertOk s r v n # cs) =
    map_passes bp (m(s \<mapsto> \<lparr>balance = balance st - v, nonce = n + 1\<rparr>, r \<mapsto> map_credited m r v)) cs"
  using assms leD [OF assms(5)] by (simp add: map_transfer_def not_le)

lemma send_many:
  assumes "m s = Some \<lparr>balance = b, nonce = of_nat n\<rparr>" "distinct (s # rs)" "v \<noteq> 0" "n + length rs < 2 ^ 64"
    and "length rs * unat v \<le> unat b" "\<forall>r \<in> set rs. map_funds m r + unat v < 2 ^ 64"
  shows "\<exists>m'. map_passes bp m (map (\<lambda>(i, r). AssertOk s r v (of_nat i)) (enumerate n rs) @ cs) = map_passes bp m' cs \<and>
    m' s = Some \<lparr>balance = b - of_nat (length rs) * v, nonce = of_nat (n + length rs)\<rparr>"
  using assms
proof (induction rs arbitrary: m b n)
  case (Cons r rs)
  let ?m = "m(s \<mapsto> \<lparr>balance = b - v, nonce = of_nat n + 1\<rparr>, r \<mapsto> map_credited m r v)"
  have le: "unat v \<le> unat b" using Cons.prems(5) by simp
  have nn: "unat (of_nat n :: u64) = n" using Cons.prems(4) by (simp add: unat_of_nat)
  have step: "map_passes bp m (AssertOk s r v (of_nat n) # ds) = map_passes bp ?m ds" for ds
    using Cons.prems le nn ok_step [of m s _ r v "of_nat n" bp ds] by (simp add: word_le_nat_alt)
  have "\<exists>m'. map_passes bp ?m (map (\<lambda>(i, r). AssertOk s r v (of_nat i)) (enumerate (Suc n) rs) @ cs) = map_passes bp m' cs \<and>
    m' s = Some \<lparr>balance = (b - v) - of_nat (length rs) * v, nonce = of_nat (Suc n + length rs)\<rparr>"
  proof (rule Cons.IH)
    show "length rs * unat v \<le> unat (b - v)"
      using Cons.prems(5) le by (simp add: unat_u64_sub_exact word_le_nat_alt)
    show "\<forall>q \<in> set rs. map_funds ?m q + unat v < 2 ^ 64"
      using Cons.prems(2,6) by (auto simp: map_funds_def)
  qed (use Cons.prems in auto)
  then obtain m' where m': "map_passes bp ?m (map (\<lambda>(i, r). AssertOk s r v (of_nat i)) (enumerate (Suc n) rs) @ cs) = map_passes bp m' cs"
    "m' s = Some \<lparr>balance = (b - v) - of_nat (length rs) * v, nonce = of_nat (Suc n + length rs)\<rparr>" by blast
  have "map (\<lambda>(i, r). AssertOk s r v (of_nat i)) (enumerate n (r # rs)) @ cs =
      AssertOk s r v (of_nat n) # map (\<lambda>(i, r). AssertOk s r v (of_nat i)) (enumerate (Suc n) rs) @ cs"
    by simp
  then show ?case unfolding step using m' by (intro exI [of _ m']) (simp add: step algebra_simps del: map_passes.simps)
qed auto

lemma five_receivers_tests:
  assumes "distinct (s # rs)" "length rs = 5"
  shows "passes bp ledger_new (test_multiple_transactions_same_sender s rs)"
    "passes bp ledger_new (test_multiple_sequential_transfers_same_sender s rs)"
proof -
  have reg: "map_passes bp (\<lambda>_. None) ([DoRegister s b] @ map (\<lambda>r. DoRegister r 0) rs @ cs) =
      map_passes bp ([s \<mapsto> \<lparr>balance = b, nonce = 0\<rparr>] ++ map_of (map (\<lambda>r. (r, \<lparr>balance = 0, nonce = 0\<rparr>)) rs)) cs" for b cs
  proof -
    have "\<forall>r \<in> set rs. [s \<mapsto> \<lparr>balance = b, nonce = 0\<rparr>] r = None" using assms(1) by auto
    then show ?thesis
      using register_many [of "\<lambda>r. r" rs "[s \<mapsto> \<lparr>balance = b, nonce = 0\<rparr>]" bp "\<lambda>_. 0" cs] assms(1)
      by (simp add: map_register_def)
  qed
  let ?m = "\<lambda>b. [s \<mapsto> \<lparr>balance = b, nonce = 0\<rparr>] ++ map_of (map (\<lambda>r. (r, \<lparr>balance = 0, nonce = 0\<rparr>)) rs)"
  have s: "?m b s = Some \<lparr>balance = b, nonce = of_nat 0\<rparr>" for b
    using assms(1) by (auto simp: map_add_def map_of_eq_None_iff image_iff split: option.split dest!: map_of_SomeD)
  have r: "\<forall>r \<in> set rs. map_funds (?m b) r + unat (100 :: u64) < 2 ^ 64" for b
    using assms(1) by (auto simp: map_add_def map_funds_def split: option.split dest!: map_of_SomeD)
  note send = send_many [OF s assms(1) _ _ _ r, where bp = bp]
  show "passes bp ledger_new (test_multiple_transactions_same_sender s rs)"
    using send [where b = 10000 and cs = "[AssertNonce s (Some 5)]"] assms(2)
    unfolding passes_new test_multiple_transactions_same_sender_def reg by force
  show "passes bp ledger_new (test_multiple_sequential_transfers_same_sender s rs)"
    using send [where b = 5000 and cs = "[AssertNonce s (Some 5), AssertBalance s (Some 4500)]"] assms(2)
    unfolding passes_new test_multiple_sequential_transfers_same_sender_def reg by force
qed

lemma nonce_progression_test:
  assumes "distinct (r # ws)" "length ws = 5"
  shows "passes bp ledger_new (test_nonce_progression_across_multiple_wallets ws r)"
proof -
  obtain a b c d e where ws: "ws = [a, b, c, d, e]"
    using assms(2) by (auto simp: numeral_eq_Suc length_Suc_conv)
  show ?thesis
    using assms(1) unfolding passes_new ws by (simp add: test_nonce_progression_across_multiple_wallets_def map_eval upt_rec) auto
qed

lemma chain_test:
  assumes "distinct ws" "length ws = 5"
  shows "passes bp ledger_new (test_comprehensive_ledger_operations ws)"
proof -
  obtain a b c d e where ws: "ws = [a, b, c, d, e]"
    using assms(2) by (auto simp: numeral_eq_Suc length_Suc_conv)
  show ?thesis
    using assms(1) unfolding passes_new ws by (auto simp: test_comprehensive_ledger_operations_def map_eval upt_rec)
qed

lemma pay_many:
  assumes "distinct (map s xs @ map r xs)"
    and "\<forall>x \<in> set xs. m (s x) = Some \<lparr>balance = b x, nonce = 0\<rparr> \<and> m (r x) = Some \<lparr>balance = 0, nonce = 0\<rparr> \<and>
      v x \<noteq> 0 \<and> v x \<le> b x"
  shows "\<exists>m'. map_passes bp m (map (\<lambda>x. AssertOk (s x) (r x) (v x) 0) xs @ cs) = map_passes bp m' cs \<and>
    (\<forall>x \<in> set xs. map_option balance (m' (r x)) = Some (v x)) \<and>
    (\<forall>a. a \<notin> set (map s xs @ map r xs) \<longrightarrow> m' a = m a)"
  using assms
proof (induction xs arbitrary: m)
  case (Cons x xs)
  let ?m = "m(s x \<mapsto> \<lparr>balance = b x - v x, nonce = 0 + 1\<rparr>, r x \<mapsto> map_credited m (r x) (v x))"
  have x: "m (s x) = Some \<lparr>balance = b x, nonce = 0\<rparr>" "m (r x) = Some \<lparr>balance = 0, nonce = 0\<rparr>" "v x \<noteq> 0" "v x \<le> b x" "s x \<noteq> r x"
    using Cons.prems by auto
  have cred: "map_credited m (r x) (v x) = \<lparr>balance = v x, nonce = 0\<rparr>" by (simp add: map_credited_def x(2))
  have step: "map_passes bp m (AssertOk (s x) (r x) (v x) 0 # ds) = map_passes bp ?m ds" for ds
    using ok_step [of m "s x" _ "r x" "v x" 0 bp ds] x by (simp add: map_funds_def del: map_passes.simps)
  have new: "\<forall>y \<in> set xs. s y \<noteq> s x \<and> s y \<noteq> r x \<and> r y \<noteq> s x \<and> r y \<noteq> r x"
    using Cons.prems(1) by (auto simp: image_iff)
  have dist: "distinct (map s xs @ map r xs)" using Cons.prems(1) by auto
  have "\<forall>y \<in> set xs. ?m (s y) = Some \<lparr>balance = b y, nonce = 0\<rparr> \<and> ?m (r y) = Some \<lparr>balance = 0, nonce = 0\<rparr> \<and>
      v y \<noteq> 0 \<and> v y \<le> b y"
    using Cons.prems(2) new by simp
  from Cons.IH [OF dist this] obtain m' where m': "map_passes bp ?m (map (\<lambda>x. AssertOk (s x) (r x) (v x) 0) xs @ cs) = map_passes bp m' cs"
    "\<forall>x \<in> set xs. map_option balance (m' (r x)) = Some (v x)" "\<forall>a. a \<notin> set (map s xs @ map r xs) \<longrightarrow> m' a = ?m a"
    by blast
  have "r x \<notin> set (map s xs @ map r xs)" using Cons.prems(1) by auto
  then have "m' (r x) = Some \<lparr>balance = v x, nonce = 0\<rparr>" using m'(3) cred by simp
  then show ?case using m' by (intro exI [of _ m']) (simp add: step del: map_passes.simps)
qed auto

lemma batch_test:
  assumes "distinct (ss @ rs)" "length ss = 5" "length rs = 5"
  shows "passes bp ledger_new (test_transaction_batch_operations ss rs)"
proof -
  let ?is = "[0..<5]" and ?b = "\<lambda>i. 10000 + of_nat i * 1000 :: u64" and ?v = "\<lambda>i. 1000 + of_nat i * 100 :: u64"
  let ?regs = "concat (map (\<lambda>i. [(ss ! i, ?b i), (rs ! i, 0)]) ?is)"
  have lists: "map ((!) ss) ?is = ss" "map ((!) rs) ?is = rs" using assms(2,3) map_nth by metis+
  have dist: "distinct (map ((!) ss) ?is @ map ((!) rs) ?is)" unfolding lists by (rule assms(1))
  have keys: "distinct (map fst ?regs)"
    using dist by (auto simp: upt_rec)
  have split: "test_transaction_batch_operations ss rs = map (\<lambda>p. DoRegister (fst p) (snd p)) ?regs @
      map (\<lambda>i. AssertOk (ss ! i) (rs ! i) (?v i) 0) ?is @ map (\<lambda>i. AssertBalance (rs ! i) (Some (?v i))) ?is @ []"
    by (simp add: test_transaction_batch_operations_def map_concat comp_def)
  let ?m = "(\<lambda>_. None) ++ map_of (map (\<lambda>p. (fst p, \<lparr>balance = snd p, nonce = 0\<rparr>)) ?regs)"
  have look: "?m (fst p) = Some \<lparr>balance = snd p, nonce = 0\<rparr>" if "p \<in> set ?regs" for p
  proof -
    have "map_of (map (\<lambda>p. (fst p, \<lparr>balance = snd p, nonce = 0\<rparr>)) ?regs) (fst p) = Some \<lparr>balance = snd p, nonce = 0\<rparr>"
      using keys that by (intro map_of_is_SomeI) (simp_all only: list.map_comp comp_def fst_conv set_map image_eqI)
    then show ?thesis by (simp only: map_add_def option.case)
  qed
  have "\<forall>i \<in> set ?is. ?m (ss ! i) = Some \<lparr>balance = ?b i, nonce = 0\<rparr> \<and> ?m (rs ! i) = Some \<lparr>balance = 0, nonce = 0\<rparr> \<and>
      ?v i \<noteq> 0 \<and> ?v i \<le> ?b i"
  proof
    fix i assume i: "i \<in> set ?is"
    then have "i \<in> {0, 1, 2, 3, 4}" by auto
    then have "?v i \<noteq> 0 \<and> ?v i \<le> ?b i" by (auto simp: word_le_nat_alt)
    moreover have "(ss ! i, ?b i) \<in> set ?regs" "(rs ! i, 0) \<in> set ?regs" using i by auto
    ultimately show "?m (ss ! i) = Some \<lparr>balance = ?b i, nonce = 0\<rparr> \<and> ?m (rs ! i) = Some \<lparr>balance = 0, nonce = 0\<rparr> \<and>
      ?v i \<noteq> 0 \<and> ?v i \<le> ?b i"
      using look [of "(ss ! i, ?b i)"] look [of "(rs ! i, 0)"] by simp
  qed
  from pay_many [OF dist this, of bp "map (\<lambda>i. AssertBalance (rs ! i) (Some (?v i))) ?is @ []"]
  show ?thesis
    unfolding passes_new split register_many [OF keys, of "\<lambda>_. None" bp snd, simplified]
    by (auto simp: assert_many simp del: append_Nil2)
qed

lemma independent_instances_test: "test_multiple_ledger_instances_independent w"
  by (simp add: test_multiple_ledger_instances_independent_def ledger_register_def ledger_balance_def ledger_new_def account_new_def)

text \<open>The suite, with the wallets of the tests taken from the front of a list of addresses.\<close>

definition ledger_suite :: "address list \<Rightarrow> check list list" where
  "ledger_suite ws =
     (let a = ws ! 0; b = ws ! 1; c = ws ! 2 in
      [register_and_balance, basic_transfer, insufficient_balance, replay_attack_rejected, nonce_must_match,
       self_transfer_rejected, zero_value_rejected, credit_auto_creates_account,
       test_ledger_initialization a, test_ledger_nonce_tracking a, test_multiple_commands_sequence a,
       test_ledger_concurrent_account_creation a b c, test_ledger_balance_edge_cases a b,
       test_ledger_multiple_registrations a, test_ledger_account_registration (take 20 ws),
       test_multiple_peers_registration (take 10 ws), test_ledger_with_varying_balances (take 6 ws),
       test_ledger_transfer_validation a b, test_ledger_invalid_transfer a b, test_ledger_multiple_transfers a b c,
       test_nonce_increment_on_transfer a b, test_invalid_nonce_rejected a b, test_self_transfer_not_allowed a,
       test_zero_transfer_not_allowed a b, test_ledger_insufficient_balance a b, test_ledger_invalid_nonce a b,
       test_ledger_self_transfer a, test_ledger_zero_transfer a b, test_ledger_unregistered_sender a b,
       test_double_spend_prevention a b c, test_balance_after_multiple_operations a b c,
       test_large_balance_operations a b, test_multiple_transactions_same_sender a (take 5 (drop 1 ws)),
       test_multiple_sequential_transfers_same_sender a (take 5 (drop 1 ws)),
       test_comprehensive_ledger_operations (take 5 ws),
       test_nonce_progression_across_multiple_wallets (take 5 (drop 1 ws)) a,
       test_transaction_batch_operations (take 5 ws) (take 5 (drop 5 ws))])"

text \<open>
  The tests the program ships for its ledger pass in both builds for all wallets with different
  addresses: registering, querying, transferring, every rejection, replay and double spending,
  chains of transfers and independent ledgers.
\<close>

theorem ledger_tests_pass:
  assumes "distinct ws" "length ws = 20"
  shows "list_all (passes bp ledger_new) (ledger_suite ws) \<and> test_multiple_ledger_instances_independent (ws ! 0)"
proof -
  have ws: "distinct [ws ! 0, ws ! 1, ws ! 2]" using assms by (simp add: nth_eq_iff_index_eq)
  have six: "distinct (ws ! 0 # take 5 (drop 1 ws))"
  proof -
    have "take 6 ws = ws ! 0 # take 5 (drop 1 ws)" using assms(2) by (cases ws) auto
    then show ?thesis using assms(1) distinct_take by metis
  qed
  have take: "distinct (take n ws)" for n using assms(1) by simp
  have ten: "distinct (take 5 ws @ take 5 (drop 5 ws))"
    using take [of "5 + 5"] by (simp only: take_add)
  show ?thesis
    using account_tests [OF ws] transfer_tests [OF ws] rejection_tests [OF ws] registration_tests [OF take] registration_tests [OF assms(1)]
      varying_balance_test [OF take] five_receivers_tests [OF six] nonce_progression_test [OF six] chain_test [OF take]
      batch_test [OF ten] assms(2) independent_instances_test ledger_rs_tests
    by (simp add: ledger_suite_def Let_def)
qed

theorem ledger_tests_pass_witness:
  "passes Debug ledger_new (test_double_spend_prevention [0] [1] [2])"
proof -
  let ?ws = "map (\<lambda>i. [of_nat i]) [0..<20] :: address list"
  have "inj_on (\<lambda>i. [of_nat i :: u8]) {0..<20}" by (auto simp: inj_on_def word_of_nat_eq_iff take_bit_eq_mod)
  then have "distinct ?ws" by (simp add: distinct_map)
  moreover have "length ?ws = 20" by simp
  ultimately have "list_all (passes Debug ledger_new) (ledger_suite ?ws)" using ledger_tests_pass by blast
  then show ?thesis by (simp add: ledger_suite_def Let_def)
qed

end
