(* ===== verification/Unit_Tests.thy ===== *)
theory Unit_Tests
  imports Ledger_Tests Transaction
begin

text \<open>
  The unit tests of wallets, signed transactions, ledger snapshots and the splitting of a command line, from
  \<^verbatim>\<open>wallet.rs\<close>, \<^verbatim>\<open>transaction.rs\<close> and \<^verbatim>\<open>main.rs\<close>. A test is the conjunction of its assertions, and false where
  an \<open>unwrap\<close> would panic; the random bytes of each \<open>Wallet::generate\<close> and the clock are its
  arguments. Left out are the tests that expect two digests or two signatures to differ, or a
  signature of one message or key to fail for another, which hold only with overwhelming
  probability.
\<close>

section \<open>Wallets\<close>

definition byte_string :: "string \<Rightarrow> bytes" where
  "byte_string s = map of_char s"

definition is_ascii_hexdigit :: "char \<Rightarrow> bool" where
  "is_ascii_hexdigit c =
     (let n = of_char c :: nat in 48 \<le> n \<and> n \<le> 57 \<or> 65 \<le> n \<and> n \<le> 70 \<or> 97 \<le> n \<and> n \<le> 102)"

definition address_derivation_is_deterministic :: "crates \<Rightarrow> bytes \<Rightarrow> bool" where
  "address_derivation_is_deterministic L rng =
     (let w = wallet_generate L rng; addr2 = derive_address L (public_key L w)
      in wallet_address w = addr2)"

definition sign_and_verify_roundtrip :: "crates \<Rightarrow> bytes \<Rightarrow> bool" where
  "sign_and_verify_roundtrip L rng =
     (let w = wallet_generate L rng; msg = byte_string ''transfer 100 to alice''; sig = wallet_sign L w msg
      in wallet_verify L (public_key L w) msg sig = Inr ())"

definition test_address_hex_roundtrip :: "crates \<Rightarrow> bytes \<Rightarrow> bool" where
  "test_address_hex_roundtrip L rng =
     (let w = wallet_generate L rng; hex_addr = address_hex L w
      in case address_from_hex L hex_addr of Inr parsed \<Rightarrow> wallet_address w = parsed | Inl _ \<Rightarrow> False)"

definition restore_from_secret_bytes :: "crates \<Rightarrow> bytes \<Rightarrow> bool" where
  "restore_from_secret_bytes L rng =
     (let w1 = wallet_generate L rng; secret = signing_key w1
      in case from_secret_bytes L secret of
           Inr w2 \<Rightarrow> wallet_address w1 = wallet_address w2
         | Inl _ \<Rightarrow> False)"

definition test_wallet_generation :: "crates \<Rightarrow> bytes \<Rightarrow> bool" where
  "test_wallet_generation L rng =
     (let addr_hex = address_hex L (wallet_generate L rng)
      in addr_hex \<noteq> [] \<and> take 2 addr_hex = ''0x'' \<and> length addr_hex = 42)"

definition test_wallet_address_consistency :: "crates \<Rightarrow> bytes \<Rightarrow> bytes \<Rightarrow> bool" where
  "test_wallet_address_consistency L rng1 rng2 =
     (address_hex L (wallet_generate L rng1) \<noteq> address_hex L (wallet_generate L rng2))"

text \<open>The other two tests of the textual form go over its characters in a loop instead of \<open>chars().all\<close>.\<close>

definition test_address_hex_formatting :: "crates \<Rightarrow> bytes \<Rightarrow> bool" where
  "test_address_hex_formatting L rng =
     (let addr_hex = address_hex L (wallet_generate L rng); hex_part = drop 2 addr_hex
      in take 2 addr_hex = ''0x'' \<and> length addr_hex = 42 \<and> list_all is_ascii_hexdigit hex_part)"

definition test_address_hex_format_validation :: "crates \<Rightarrow> bytes \<Rightarrow> bool" where
  "test_address_hex_format_validation L rng =
     (let hex = address_hex L (wallet_generate L rng)
      in take 2 hex = ''0x'' \<and> length hex = 42 \<and>
         list_all (\<lambda>(i, c). i < 2 \<or> is_ascii_hexdigit c) (enumerate 0 hex))"

definition test_public_key_extraction :: "crates \<Rightarrow> bytes \<Rightarrow> bool" where
  "test_public_key_extraction L rng =
     (let wallet = wallet_generate L rng; pubkey_bytes = public_key_bytes L wallet in length pubkey_bytes = 32)"

definition test_address_byte_representation :: "crates \<Rightarrow> bytes \<Rightarrow> bool" where
  "test_address_byte_representation L rng = (length (wallet_address (wallet_generate L rng)) = 20)"

definition test_address_derivation_consistency :: "crates \<Rightarrow> bool" where
  "test_address_derivation_consistency L =
     (let secret = (replicate 32 0)[0 := 42]
      in case (from_secret_bytes L secret, from_secret_bytes L secret) of
           (Inr w1, Inr w2) \<Rightarrow> address_hex L w1 = address_hex L w2
         | _ \<Rightarrow> False)"

definition test_hex_encoding_roundtrip :: "crates \<Rightarrow> bool" where
  "test_hex_encoding_roundtrip L =
     (let original = [0, 1, 2, 255, 254, 253]; encoded = hex_encode L original
      in case hex_decode L encoded of Some decoded \<Rightarrow> original = decoded | None \<Rightarrow> False)"

section \<open>Transactions\<close>

definition create_sign_verify :: "crates \<Rightarrow> u64 \<Rightarrow> bytes \<Rightarrow> bytes \<Rightarrow> bool" where
  "create_sign_verify L now rng1 rng2 =
     (let sender = wallet_generate L rng1; receiver = wallet_generate L rng2;
          tx = tx_create L now sender (wallet_address receiver) 500 0
      in tx_verify L tx = Inr ())"

definition wrong_pubkey_fails_verify :: "crates \<Rightarrow> u64 \<Rightarrow> bytes \<Rightarrow> bytes \<Rightarrow> bytes \<Rightarrow> bool" where
  "wrong_pubkey_fails_verify L now rng1 rng2 rng3 =
     (let sender = wallet_generate L rng1; receiver = wallet_generate L rng2; imposter = wallet_generate L rng3;
          tx = tx_create L now sender (wallet_address receiver) 500 0;
          tx = tx\<lparr>tx_pubkey := public_key_bytes L imposter\<rparr>
      in tx_verify L tx \<noteq> Inr ())"

definition rlp_roundtrip :: "crates \<Rightarrow> u64 \<Rightarrow> bytes \<Rightarrow> bytes \<Rightarrow> bool" where
  "rlp_roundtrip L now rng1 rng2 =
     (let sender = wallet_generate L rng1; receiver = wallet_generate L rng2;
          tx = tx_create L now sender (wallet_address receiver) 42 7;
          encoded = to_rlp_bytes L tx
      in case from_rlp_bytes L encoded of
           Inl _ \<Rightarrow> False
         | Inr decoded \<Rightarrow>
             tx_from tx = tx_from decoded \<and> tx_to tx = tx_to decoded \<and> tx_amount tx = tx_amount decoded \<and>
             tx_nonce tx = tx_nonce decoded \<and> tx_signature tx = tx_signature decoded \<and>
             tx_hash L tx = tx_hash L decoded)"

definition decoded_tx_still_verifies :: "crates \<Rightarrow> u64 \<Rightarrow> bytes \<Rightarrow> bytes \<Rightarrow> bool" where
  "decoded_tx_still_verifies L now rng1 rng2 =
     (let sender = wallet_generate L rng1; receiver = wallet_generate L rng2;
          tx = tx_create L now sender (wallet_address receiver) 100 0;
          bs = to_rlp_bytes L tx
      in case from_rlp_bytes L bs of Inl _ \<Rightarrow> False | Inr decoded \<Rightarrow> tx_verify L decoded = Inr ())"

definition test_transaction_amount_variations :: "crates \<Rightarrow> u64 list \<Rightarrow> bytes \<Rightarrow> bytes \<Rightarrow> bool" where
  "test_transaction_amount_variations L ts rng1 rng2 =
     (let wallet = wallet_generate L rng1; to_addr = wallet_address (wallet_generate L rng2);
          test_amounts = [0, 1, 1000, (2 ^ 64 - 1) div 2, 2 ^ 64 - 1]
      in list_all (\<lambda>(now, amount). tx_verify L (tx_create L now wallet to_addr amount 0) = Inr ())
           (zip ts test_amounts))"

definition test_transaction_nonce_large :: "crates \<Rightarrow> u64 \<Rightarrow> bytes \<Rightarrow> bytes \<Rightarrow> bool" where
  "test_transaction_nonce_large L now rng1 rng2 =
     (let wallet = wallet_generate L rng1; to_addr = wallet_address (wallet_generate L rng2);
          tx = tx_create L now wallet to_addr 100 (2 ^ 64 - 1)
      in tx_verify L tx = Inr ())"

definition test_transaction_serialization_consistency :: "crates \<Rightarrow> u64 \<Rightarrow> bytes \<Rightarrow> bytes \<Rightarrow> bool" where
  "test_transaction_serialization_consistency L now rng1 rng2 =
     (let wallet = wallet_generate L rng1; to_addr = wallet_address (wallet_generate L rng2);
          tx = tx_create L now wallet to_addr 100 0;
          rlp1 = to_rlp_bytes L tx
      in case from_rlp_bytes L rlp1 of
           Inl _ \<Rightarrow> False
         | Inr tx2 \<Rightarrow> (let rlp2 = to_rlp_bytes L tx2 in rlp1 = rlp2))"

text \<open>One round of the loop of the test.\<close>

definition test_transaction_creation_and_hash :: "crates \<Rightarrow> u64 \<Rightarrow> bytes \<Rightarrow> bytes \<Rightarrow> bool" where
  "test_transaction_creation_and_hash L now rng1 rng2 =
     (let wallet = wallet_generate L rng1; to_addr = wallet_address (wallet_generate L rng2);
          tx = tx_create L now wallet to_addr 100 0; hash = tx_hash L tx
      in hash \<noteq> [] \<and> take 2 hash = ''0x'' \<and> tx_verify L tx = Inr ())"

definition test_signed_transaction_decode :: "crates \<Rightarrow> u64 \<Rightarrow> bytes \<Rightarrow> bytes \<Rightarrow> bool" where
  "test_signed_transaction_decode L now rng1 rng2 =
     (let wallet = wallet_generate L rng1; to_addr = wallet_address (wallet_generate L rng2);
          tx = tx_create L now wallet to_addr 250 3; hash = tx_hash L tx; rlp = to_rlp_bytes L tx
      in case from_rlp_bytes L rlp of
           Inl _ \<Rightarrow> False
         | Inr decoded \<Rightarrow> tx_hash L decoded = hash \<and> tx_verify L decoded = Inr ())"

definition test_full_transaction_lifecycle :: "crates \<Rightarrow> build \<Rightarrow> u64 \<Rightarrow> bytes \<Rightarrow> bytes \<Rightarrow> bool" where
  "test_full_transaction_lifecycle L bp now rng1 rng2 =
     (let sender = wallet_generate L rng1; recipient = wallet_generate L rng2;
          ledger = fst (ledger_register ledger_new (wallet_address sender) 5000);
          ledger = fst (ledger_register ledger (wallet_address recipient) 1000);
          tx = tx_create L now sender (wallet_address recipient) 500 0;
          hash = tx_hash L tx; rlp = to_rlp_bytes L tx
      in tx_verify L tx = Inr () \<and> hash \<noteq> [] \<and>
         (case from_rlp_bytes L rlp of Inr decoded \<Rightarrow> True | Inl _ \<Rightarrow> False) \<and>
         (case ledger_transfer bp ledger (wallet_address sender) (wallet_address recipient) 500 0 of
            (ledger, Ret (Inr _)) \<Rightarrow>
              ledger_balance ledger (wallet_address sender) = Some 4500 \<and>
              ledger_balance ledger (wallet_address recipient) = Some 1500
          | _ \<Rightarrow> False))"

section \<open>Snapshots and command lines\<close>

text \<open>The tests register their wallets in a loop or one by one; the accounts are their arguments.\<close>

definition registered :: "(address \<times> u64) list \<Rightarrow> ledger" where
  "registered ws = fold (\<lambda>(a, b) l. fst (ledger_register l a b)) ws ledger_new"

definition test_ledger_snapshot_empty :: "crates \<Rightarrow> bool" where
  "test_ledger_snapshot_empty L = (let ledger = ledger_new; snapshot = ledger_snapshot L ledger in snapshot = [])"

definition test_ledger_snapshot_with_accounts :: "crates \<Rightarrow> bytes \<Rightarrow> bytes \<Rightarrow> bool" where
  "test_ledger_snapshot_with_accounts L rng1 rng2 =
     (let w1 = wallet_generate L rng1; w2 = wallet_generate L rng2;
          snapshot = ledger_snapshot L (registered [(wallet_address w1, 1000), (wallet_address w2, 2000)])
      in length snapshot = 2 \<and>
         map_of snapshot (address_hex L w1) \<noteq> None \<and> map_of snapshot (address_hex L w2) \<noteq> None)"

definition test_snapshot_contains_all_accounts :: "crates \<Rightarrow> bytes list \<Rightarrow> bool" where
  "test_snapshot_contains_all_accounts L rngs =
     (let ws = map (wallet_generate L) rngs; address_strs = map (address_hex L) ws;
          ledger = registered (map (\<lambda>(i, w). (wallet_address w, 1000 + of_nat i)) (enumerate 0 ws));
          snapshot = ledger_snapshot L ledger
      in length snapshot = 10 \<and> list_all (\<lambda>key. key \<in> set address_strs) (map fst snapshot))"

definition test_empty_command_handling :: bool where
  "test_empty_command_handling =
     (let line = '''' ; parts = split_whitespace (str_trim line) in parts = [])"

definition test_whitespace_only_command :: bool where
  "test_whitespace_only_command =
     (let line = ''   '' @ [CHR 0x09] @ ''  '' @ [CHR 0x0A] @ ''  ''; parts = split_whitespace (str_trim line)
      in parts = [])"

section \<open>They pass\<close>

lemma wallet_tests:
  assumes "crates_ok L" "length rng = secret_key_length L"
  shows "address_derivation_is_deterministic L rng" "sign_and_verify_roundtrip L rng" "test_address_hex_roundtrip L rng"
    "restore_from_secret_bytes L rng" "test_wallet_generation L rng" "test_public_key_extraction L rng"
    "test_address_byte_representation L rng"
proof -
  note ok = crates_okD [OF assms(1)]
  let ?w = "wallet_generate L rng"
  have wf: "wallet_wf L ?w" by (rule wallet_generate_wf [OF assms(2)])
  have len: "length (address ?w) = ADDRESS_LEN" by (rule wallet_wf_address_length [OF ok(2) wf])
  have key: "length (signing_key ?w) = 32" by (rule wallet_wf_key_length [OF ok(3) wf])
  show "address_derivation_is_deterministic L rng"
    using wf by (simp add: address_derivation_is_deterministic_def wallet_wf_def wallet_address_def)
  show "sign_and_verify_roundtrip L rng"
    using key ok(3) by (simp add: sign_and_verify_roundtrip_def wallet_sign_def wallet_verify_def public_key_def crate_laws)
  show "test_address_hex_roundtrip L rng"
    using address_from_hex_encode(1) [OF ok(1) len]
    by (simp only: test_address_hex_roundtrip_def Let_def address_hex_def wallet_address_def sum.case)
  show "restore_from_secret_bytes L rng"
    using assms(2) by (simp add: restore_from_secret_bytes_def wallet_generate_def from_secret_bytes_def Let_def wallet_address_def)
  show "test_wallet_generation L rng"
    using ok(1) len by (simp add: test_wallet_generation_def address_hex_def crate_laws ADDRESS_LEN_def)
  show "test_public_key_extraction L rng"
    using key ok(3) by (simp add: test_public_key_extraction_def public_key_bytes_def crate_laws)
  show "test_address_byte_representation L rng"
    using len by (simp add: test_address_byte_representation_def wallet_address_def ADDRESS_LEN_def)
qed

lemma hex_digit_ascii: "is_hex_digit c \<Longrightarrow> is_ascii_hexdigit c"
  by (auto simp: is_hex_digit_def is_ascii_hexdigit_def Let_def)

lemma address_text_tests:
  assumes "crates_ok L" "length rng = secret_key_length L"
  shows "test_address_hex_formatting L rng" "test_address_hex_format_validation L rng"
    "test_address_derivation_consistency L" "test_hex_encoding_roundtrip L"
proof -
  note ok = crates_okD [OF assms(1)]
  let ?hex = "hex_encode L (address (wallet_generate L rng))"
  have len: "length ?hex = 40"
    using wallet_wf_address_length [OF ok(2) wallet_generate_wf [OF assms(2)]] ok(1) by (simp add: crate_laws ADDRESS_LEN_def)
  have digits: "list_all is_ascii_hexdigit ?hex"
    using hex_encode_digit [OF ok(1)] hex_digit_ascii by (auto simp: list_all_iff)
  show "test_address_hex_formatting L rng"
    using len digits by (simp add: test_address_hex_formatting_def address_hex_def)
  show "test_address_hex_format_validation L rng"
    using len digits by (auto simp: test_address_hex_format_validation_def address_hex_def list_all_iff in_set_enumerate_eq)
  show "test_address_derivation_consistency L"
    using ok(3) by (simp add: test_address_derivation_consistency_def from_secret_bytes_def crate_laws)
  show "test_hex_encoding_roundtrip L" using ok(1) by (simp add: test_hex_encoding_roundtrip_def crate_laws)
qed

lemma transaction_tests:
  assumes "crates_ok L" "length rng1 = secret_key_length L" "length rng2 = secret_key_length L"
  shows "create_sign_verify L now rng1 rng2" "rlp_roundtrip L now rng1 rng2" "decoded_tx_still_verifies L now rng1 rng2"
    "test_transaction_amount_variations L ts rng1 rng2" "test_transaction_nonce_large L now rng1 rng2"
    "test_transaction_serialization_consistency L now rng1 rng2" "test_transaction_creation_and_hash L now rng1 rng2"
    "test_signed_transaction_decode L now rng1 rng2"
proof -
  note ok = crates_okD [OF assms(1)]
  let ?w = "wallet_generate L rng1" and ?v = "wallet_generate L rng2"
  have w: "wallet_wf L ?w" "wallet_wf L ?v" using assms(2,3) wallet_generate_wf by blast+
  have len: "length (wallet_address ?v) = ADDRESS_LEN"
    using w wallet_wf_address_length [OF ok(2)] by (simp add: wallet_address_def)
  have ver: "tx_verify L (tx_create L now ?w to v n) = Inr ()" for now to v n by (rule tx_create_verifies [OF ok(3) w(1)])
  have wire: "from_rlp_bytes L (to_rlp_bytes L (tx_create L now ?w (wallet_address ?v) v n)) =
      Inr (tx_create L now ?w (wallet_address ?v) v n)" for v n
    by (rule from_rlp_bytes_encode [OF ok(4) tx_create_wf [OF ok(3,2) w(1) len]])
  note defs = create_sign_verify_def rlp_roundtrip_def decoded_tx_still_verifies_def test_transaction_amount_variations_def
    test_transaction_nonce_large_def test_transaction_serialization_consistency_def test_transaction_creation_and_hash_def
    test_signed_transaction_decode_def
  show "create_sign_verify L now rng1 rng2" "rlp_roundtrip L now rng1 rng2" "decoded_tx_still_verifies L now rng1 rng2"
    "test_transaction_amount_variations L ts rng1 rng2" "test_transaction_nonce_large L now rng1 rng2"
    "test_transaction_serialization_consistency L now rng1 rng2" "test_transaction_creation_and_hash L now rng1 rng2"
    "test_signed_transaction_decode L now rng1 rng2"
    using ver wire by (auto simp: defs Let_def list_all_iff tx_hash_def)
qed

lemma wrong_pubkey_test:
  assumes "crates_ok L" "length rng1 = secret_key_length L" "length rng3 = secret_key_length L"
    and "wallet_address (wallet_generate L rng1) \<noteq> wallet_address (wallet_generate L rng3)"
  shows "wrong_pubkey_fails_verify L now rng1 rng2 rng3"
proof -
  note ok = crates_okD [OF assms(1)]
  let ?i = "wallet_generate L rng3"
  have "derive_address L (public_key_bytes L ?i) = wallet_address ?i"
    using wallet_generate_wf [OF assms(3)] by (simp add: wallet_wf_def public_key_def public_key_bytes_def wallet_address_def)
  moreover have "ed_key_from_bytes L (public_key_bytes L ?i) = Some (public_key_bytes L ?i)"
    using wallet_wf_key_length [OF ok(3) wallet_generate_wf [OF assms(3)]] ok(3) by (simp add: public_key_bytes_def crate_laws)
  ultimately show ?thesis
    using assms(4) by (simp add: wrong_pubkey_fails_verify_def tx_verify_def tx_create_def Let_def)
qed

lemma lifecycle_test:
  assumes "crates_ok L" "length rng1 = secret_key_length L" "length rng2 = secret_key_length L"
    and "wallet_address (wallet_generate L rng1) \<noteq> wallet_address (wallet_generate L rng2)"
  shows "test_full_transaction_lifecycle L bp now rng1 rng2"
proof -
  note ok = crates_okD [OF assms(1)]
  let ?w = "wallet_generate L rng1" and ?v = "wallet_generate L rng2"
  let ?a = "wallet_address ?w" and ?b = "wallet_address ?v"
  have w: "wallet_wf L ?w" "wallet_wf L ?v" using assms(2,3) wallet_generate_wf by blast+
  have "length ?b = ADDRESS_LEN" using w wallet_wf_address_length [OF ok(2)] by (simp add: wallet_address_def)
  then have "from_rlp_bytes L (to_rlp_bytes L (tx_create L now ?w ?b 500 0)) = Inr (tx_create L now ?w ?b 500 0)"
    by (rule from_rlp_bytes_encode [OF ok(4) tx_create_wf [OF ok(3,2) w(1)]])
  moreover have "passes bp ledger_new [DoRegister ?a 5000, DoRegister ?b 1000, AssertOk ?a ?b 500 0,
      AssertBalance ?a (Some 4500), AssertBalance ?b (Some 1500)]"
    unfolding passes_new using assms(4) by (simp add: map_eval)
  ultimately show ?thesis
    using tx_create_verifies [OF ok(3) w(1)]
    by (simp add: test_full_transaction_lifecycle_def Let_def tx_hash_def split: prod.splits run.splits sum.splits)
qed

lemma registered_append:
  "distinct (map fst ws) \<Longrightarrow> \<forall>w \<in> set ws. map_of (accounts l) (fst w) = None \<Longrightarrow>
   accounts (fold (\<lambda>(a, b) l. fst (ledger_register l a b)) ws l) = accounts l @ map (\<lambda>(a, b). (a, account_new b)) ws"
proof (induction ws arbitrary: l)
  case (Cons w ws)
  have new: "AList.update a s m = m @ [(a, s)]" if "map_of m a = None" for a s and m :: "(address \<times> account_state) list"
    using that by (induction m) (auto split: if_splits)
  obtain a b where w: "w = (a, b)" by force
  have acc: "accounts (fst (ledger_register l a b)) = accounts l @ [(a, account_new b)]"
    using Cons.prems(2) by (simp add: w ledger_register_def new)
  moreover have "\<forall>v \<in> set ws. map_of (accounts (fst (ledger_register l a b))) (fst v) = None"
    using Cons.prems by (auto simp: acc w map_add_def image_iff)
  ultimately show ?case using Cons.IH [of "fst (ledger_register l a b)"] Cons.prems(1) by (simp add: w)
qed simp

lemma registered_accounts:
  assumes "distinct (map fst ws)"
  shows "accounts (registered ws) = map (\<lambda>(a, b). (a, account_new b)) ws"
  using registered_append [OF assms, of ledger_new] by (simp add: registered_def ledger_new_def)

lemma registered_wf:
  assumes "distinct (map fst ws)" "\<forall>w \<in> set ws. length (fst w) = ADDRESS_LEN"
  shows "ledger_wf (registered ws)"
  using assms by (simp add: ledger_wf_def map_wf_def registered_accounts comp_def case_prod_unfold)

lemma snapshot_tests:
  assumes "crates_ok L" "\<forall>r \<in> set rngs. length r = secret_key_length L"
    and "distinct (map (\<lambda>r. wallet_address (wallet_generate L r)) rngs)"
  shows "test_ledger_snapshot_empty L" "length rngs = 10 \<Longrightarrow> test_snapshot_contains_all_accounts L rngs"
    "rngs = rng1 # rng2 # rest \<Longrightarrow> test_ledger_snapshot_with_accounts L rng1 rng2"
proof -
  note ok = crates_okD [OF assms(1)]
  have len: "length (wallet_address (wallet_generate L r)) = ADDRESS_LEN" if "r \<in> set rngs" for r
    using that assms(2) wallet_wf_address_length [OF ok(2) wallet_generate_wf] by (simp add: wallet_address_def)
  show "test_ledger_snapshot_empty L" by (simp add: test_ledger_snapshot_empty_def ledger_snapshot_def ledger_new_def)
  show "test_snapshot_contains_all_accounts L rngs" if ten: "length rngs = 10"
  proof -
    let ?ws = "map (wallet_generate L) rngs"
    let ?rs = "map (\<lambda>(i, w). (wallet_address w, 1000 + of_nat i :: u64)) (enumerate 0 ?ws)"
    have fst: "map fst ?rs = map (\<lambda>r. wallet_address (wallet_generate L r)) rngs"
      by (rule nth_equalityI) (simp_all add: nth_enumerate_eq)
    have dist: "distinct (map fst ?rs)" using assms(3) by (simp only: fst)
    have "\<forall>w \<in> set ?rs. length (fst w) = ADDRESS_LEN"
    proof -
      have "length a = ADDRESS_LEN" if "a \<in> set (map fst ?rs)" for a using that len unfolding fst by auto
      then show ?thesis by auto
    qed
    then have wf: "ledger_wf (registered ?rs)" by (rule registered_wf [OF dist])
    have "length (ledger_snapshot L (registered ?rs)) = 10"
      by (simp add: snapshot_length [OF ok(1) wf] registered_accounts [OF dist] ten)
    moreover have "fst ` set (ledger_snapshot L (registered ?rs)) = set (map (address_hex L) ?ws)"
    proof -
      have "fst ` set (accounts (registered ?rs)) = set (map fst ?rs)"
        by (simp only: registered_accounts [OF dist]) (force simp: image_image)
      then show ?thesis unfolding snapshot_keys fst by (simp add: image_image address_hex_def wallet_address_def)
    qed
    ultimately show ?thesis by (simp add: test_snapshot_contains_all_accounts_def Let_def list_all_iff image_image) blast
  qed
  assume rngs: "rngs = rng1 # rng2 # rest"
  let ?rs = "[(wallet_address (wallet_generate L rng1), 1000), (wallet_address (wallet_generate L rng2), 2000)] :: (address \<times> u64) list"
  have dist: "distinct (map fst ?rs)" using assms(3) by (simp add: rngs)
  have wf: "ledger_wf (registered ?rs)" using len by (intro registered_wf [OF dist]) (simp add: rngs)
  have hex: "map_of (ledger_snapshot L (registered ?rs)) (address_hex L (wallet_generate L r)) =
      map_of (accounts (registered ?rs)) (wallet_address (wallet_generate L r))" for r
    unfolding address_hex_def wallet_address_def by (rule snapshot_lookup [OF ok(1) wf [unfolded wallet_address_def]])
  show "test_ledger_snapshot_with_accounts L rng1 rng2"
    by (simp add: test_ledger_snapshot_with_accounts_def Let_def hex snapshot_length [OF ok(1) wf] registered_accounts [OF dist])
qed

lemma command_line_tests: "test_empty_command_handling" "test_whitespace_only_command"
  by code_simp+

text \<open>
  The tests the program ships for wallets, transactions, snapshots and command lines, less those that
  count on an improbable coincidence not to happen, pass whatever bytes the random generator
  returns, as long as the addresses derived from them differ, whatever the clock shows and in both builds.
\<close>

theorem unit_tests_pass:
  assumes "crates_ok L" "\<forall>r \<in> set (rng1 # rng2 # rng3 # rngs). length r = secret_key_length L"
    and "distinct (map (\<lambda>r. wallet_address (wallet_generate L r)) (rng1 # rng2 # rng3 # rngs))" "length rngs = 7"
  shows "(address_derivation_is_deterministic L rng1 \<and> sign_and_verify_roundtrip L rng1 \<and>
      test_address_hex_roundtrip L rng1 \<and> restore_from_secret_bytes L rng1 \<and> test_wallet_generation L rng1 \<and>
      test_wallet_address_consistency L rng1 rng2 \<and> test_address_hex_formatting L rng1 \<and>
      test_address_hex_format_validation L rng1 \<and> test_public_key_extraction L rng1 \<and>
      test_address_byte_representation L rng1 \<and> test_address_derivation_consistency L \<and> test_hex_encoding_roundtrip L) \<and>
    (create_sign_verify L now rng1 rng2 \<and> wrong_pubkey_fails_verify L now rng1 rng2 rng3 \<and>
      rlp_roundtrip L now rng1 rng2 \<and> decoded_tx_still_verifies L now rng1 rng2 \<and>
      test_transaction_amount_variations L ts rng1 rng2 \<and> test_transaction_nonce_large L now rng1 rng2 \<and>
      test_transaction_serialization_consistency L now rng1 rng2 \<and> test_transaction_creation_and_hash L now rng1 rng2 \<and>
      test_signed_transaction_decode L now rng1 rng2 \<and> test_full_transaction_lifecycle L bp now rng1 rng2) \<and>
    (test_ledger_snapshot_empty L \<and> test_ledger_snapshot_with_accounts L rng1 rng2 \<and>
      test_snapshot_contains_all_accounts L (rng1 # rng2 # rng3 # rngs) \<and>
      test_empty_command_handling \<and> test_whitespace_only_command)"
proof -
  note ok = crates_okD [OF assms(1)]
  have len: "length rng1 = secret_key_length L" "length rng2 = secret_key_length L" "length rng3 = secret_key_length L"
    and ne: "wallet_address (wallet_generate L rng1) \<noteq> wallet_address (wallet_generate L rng2)"
    "wallet_address (wallet_generate L rng1) \<noteq> wallet_address (wallet_generate L rng3)"
    using assms(2,3) by simp_all
  have "test_wallet_address_consistency L rng1 rng2"
    using ne(1) ok(1) by (simp add: test_wallet_address_consistency_def address_hex_def wallet_address_def hex_encode_inj)
  then show ?thesis
    using wallet_tests [OF assms(1) len(1)] address_text_tests [OF assms(1) len(1)] transaction_tests [OF assms(1) len(1,2)]
      wrong_pubkey_test [OF assms(1) len(1,3) ne(2)] lifecycle_test [OF assms(1) len(1,2) ne(1)]
      snapshot_tests [OF assms(1-3)] assms(4) command_line_tests
    by simp
qed

theorem unit_tests_pass_witness:
  "test_full_transaction_lifecycle ref_crates Debug 5 (replicate 32 1) (replicate 32 2) \<and>
   wrong_pubkey_fails_verify ref_crates 5 (replicate 32 1) (replicate 32 2) (replicate 32 3)"
proof -
  let ?r = "\<lambda>b. replicate 32 b :: bytes"
  let ?rngs = "map ?r [4, 5, 6, 7, 8, 9, 10]"
  let ?rs = "?r 1 # ?r 2 # ?r 3 # ?rngs"
  have len: "\<forall>r \<in> set ?rs. length r = secret_key_length ref_crates" by (simp add: ref_crates_def)
  have dist: "distinct (map (\<lambda>r. wallet_address (wallet_generate ref_crates r)) ?rs)" by code_simp
  show ?thesis using unit_tests_pass [OF ref_crates_ok len dist _, where now = 5 and bp = Debug] by simp
qed

end
