(* ===== verification/Wallet_Tx_Tests.thy ===== *)
theory Wallet_Tx_Tests
  imports Unit_Tests
begin

text \<open>
  The remaining unit tests of wallets, transactions and snapshots (\<^verbatim>\<open>src/zyphra/src/main.rs\<close>, \<^verbatim>\<open>transaction.rs\<close>).
  Those that expect two transaction hashes to differ pass unless two particular byte strings have the same
  Keccak-256 digest, the one with a tampered amount passes unless one signature is valid for two messages,
  and those with two signers unless the signature of one is valid under the public key of the other.
\<close>

section \<open>Wallets\<close>

definition test_wallet_from_secret_key :: "crates \<Rightarrow> bytes \<Rightarrow> bool" where
  "test_wallet_from_secret_key L rng =
     (let wallet1 = wallet_generate L rng; pubkey = public_key_bytes L wallet1 in length pubkey = 32)"

definition test_wallet_sign_consistency :: "crates \<Rightarrow> bytes \<Rightarrow> bool" where
  "test_wallet_sign_consistency L rng =
     (let wallet = wallet_generate L rng; message = byte_string ''test message'';
          sig1 = wallet_sign L wallet message; sig2 = wallet_sign L wallet message
      in sig1 = sig2)"

definition test_wallet_consistent_across_platforms :: "crates \<Rightarrow> bytes \<Rightarrow> bytes \<Rightarrow> bool" where
  "test_wallet_consistent_across_platforms L rng1 rng2 =
     (let wallet1 = wallet_generate L rng1; wallet2 = wallet_generate L rng2; msg = byte_string ''consistent message'';
          sig1a = wallet_sign L wallet1 msg; sig1b = wallet_sign L wallet1 msg
      in address_hex L wallet1 \<noteq> address_hex L wallet2 \<and> sig1a = sig1b)"

definition test_transaction_hex_address_parsing :: "crates \<Rightarrow> bytes \<Rightarrow> bool" where
  "test_transaction_hex_address_parsing L rng =
     (let w = wallet_generate L rng; addr_hex = address_hex L w
      in take 2 addr_hex = ''0x'' \<and> length addr_hex = 42 \<and> list_all is_ascii_hexdigit (drop 2 addr_hex))"

definition test_wallet_address_immutability :: "crates \<Rightarrow> bytes \<Rightarrow> bool" where
  "test_wallet_address_immutability L rng =
     (let w = wallet_generate L rng; addr1 = wallet_address w; addr2 = wallet_address w in addr1 = addr2)"

definition test_verify_public_key_bytes_consistency :: "crates \<Rightarrow> bytes \<Rightarrow> bytes \<Rightarrow> bool" where
  "test_verify_public_key_bytes_consistency L rng1 rng2 =
     (let w1 = wallet_generate L rng1; w2 = wallet_generate L rng2;
          pk1a = public_key_bytes L w1; pk1b = public_key_bytes L w1; pk2 = public_key_bytes L w2
      in pk1a = pk1b \<and> pk1a \<noteq> pk2)"

definition bad_signature_is_rejected :: "crates \<Rightarrow> bytes \<Rightarrow> bytes \<Rightarrow> bool" where
  "bad_signature_is_rejected L rng1 rng2 =
     (let w = wallet_generate L rng1; msg = byte_string ''transfer 100 to alice''; sig = wallet_sign L w msg;
          other = wallet_generate L rng2
      in case wallet_verify L (public_key L other) msg sig of Inl _ \<Rightarrow> True | Inr _ \<Rightarrow> False)"

definition test_multiple_wallets_different_signatures :: "crates \<Rightarrow> bytes \<Rightarrow> bytes \<Rightarrow> bool" where
  "test_multiple_wallets_different_signatures L rng1 rng2 =
     (let wallet1 = wallet_generate L rng1; wallet2 = wallet_generate L rng2; message = byte_string ''test'';
          sig1 = wallet_sign L wallet1 message; sig2 = wallet_sign L wallet2 message
      in sig1 \<noteq> sig2)"

section \<open>Transactions\<close>

definition test_transaction_signing :: "crates \<Rightarrow> u64 \<Rightarrow> bytes \<Rightarrow> bytes \<Rightarrow> bool" where
  "test_transaction_signing L now rng1 rng2 =
     (let wallet = wallet_generate L rng1; to_addr = wallet_address (wallet_generate L rng2);
          tx = tx_create L now wallet to_addr 100 0
      in tx_verify L tx = Inr ())"

definition test_transaction_rlp_encoding :: "crates \<Rightarrow> u64 \<Rightarrow> bytes \<Rightarrow> bytes \<Rightarrow> bool" where
  "test_transaction_rlp_encoding L now rng1 rng2 =
     (let wallet = wallet_generate L rng1; to_addr = wallet_address (wallet_generate L rng2);
          tx = tx_create L now wallet to_addr 100 0; rlp_bytes = to_rlp_bytes L tx
      in rlp_bytes \<noteq> [] \<and> (case from_rlp_bytes L rlp_bytes of Inr decoded \<Rightarrow> True | Inl _ \<Rightarrow> False))"

definition test_signed_transaction_fields :: "crates \<Rightarrow> u64 \<Rightarrow> bytes \<Rightarrow> bytes \<Rightarrow> bool" where
  "test_signed_transaction_fields L now rng1 rng2 =
     (let wallet = wallet_generate L rng1; to_addr = wallet_address (wallet_generate L rng2);
          amount = 12345; nonce = 5; tx = tx_create L now wallet to_addr amount nonce
      in tx_verify L tx = Inr ())"

definition test_transaction_verification_failure :: "crates \<Rightarrow> u64 \<Rightarrow> u64 \<Rightarrow> bytes \<Rightarrow> bytes \<Rightarrow> bytes \<Rightarrow> bool" where
  "test_transaction_verification_failure L now now' rng1 rng2 rng3 =
     (let wallet = wallet_generate L rng1;
          tx = tx_create L now wallet (wallet_address (wallet_generate L rng2)) 100 0;
          corrupted_tx = tx_create L now' wallet (wallet_address (wallet_generate L rng3)) 500 0
      in tx_verify L tx = Inr () \<and> tx_verify L corrupted_tx = Inr ())"

definition test_transaction_nonce_zero :: "crates \<Rightarrow> u64 \<Rightarrow> bytes \<Rightarrow> bytes \<Rightarrow> bool" where
  "test_transaction_nonce_zero L now rng1 rng2 =
     (let wallet = wallet_generate L rng1; to_addr = wallet_address (wallet_generate L rng2);
          tx = tx_create L now wallet to_addr 100 0
      in tx_verify L tx = Inr ())"

definition tampered_amount_fails_verify :: "crates \<Rightarrow> u64 \<Rightarrow> bytes \<Rightarrow> bytes \<Rightarrow> bool" where
  "tampered_amount_fails_verify L now rng1 rng2 =
     (let sender = wallet_generate L rng1; receiver = wallet_generate L rng2;
          tx = tx_create L now sender (wallet_address receiver) 500 0;
          tx = tx\<lparr>tx_amount := 9999\<rparr>
      in tx_verify L tx \<noteq> Inr ())"

definition test_transaction_hash_consistency :: "crates \<Rightarrow> u64 \<Rightarrow> u64 \<Rightarrow> bytes \<Rightarrow> bytes \<Rightarrow> bytes \<Rightarrow> bool" where
  "test_transaction_hash_consistency L now1 now2 rng1 rng2 rng3 =
     (let wallet1 = wallet_generate L rng1; wallet2 = wallet_generate L rng2; to_addr = wallet_address (wallet_generate L rng3);
          tx1 = tx_create L now1 wallet1 to_addr 100 0; tx2 = tx_create L now2 wallet2 to_addr 100 0
      in tx_hash L tx1 \<noteq> tx_hash L tx2)"

definition test_transaction_nonce_matters :: "crates \<Rightarrow> u64 \<Rightarrow> u64 \<Rightarrow> bytes \<Rightarrow> bytes \<Rightarrow> bool" where
  "test_transaction_nonce_matters L now1 now2 rng1 rng2 =
     (let wallet = wallet_generate L rng1; to_addr = wallet_address (wallet_generate L rng2);
          tx1 = tx_create L now1 wallet to_addr 100 0; tx2 = tx_create L now2 wallet to_addr 100 1
      in tx_hash L tx1 \<noteq> tx_hash L tx2)"

definition test_transaction_hash_uniqueness :: "crates \<Rightarrow> u64 \<Rightarrow> u64 \<Rightarrow> u64 \<Rightarrow> bytes \<Rightarrow> bytes \<Rightarrow> bytes \<Rightarrow> bool" where
  "test_transaction_hash_uniqueness L now1 now2 now3 rng1 rng2 rng3 =
     (let sender = wallet_generate L rng1; r1 = wallet_generate L rng2; r2 = wallet_generate L rng3;
          tx1 = tx_create L now1 sender (wallet_address r1) 100 0;
          tx2 = tx_create L now2 sender (wallet_address r2) 100 0;
          tx3 = tx_create L now3 sender (wallet_address r1) 100 1;
          h1 = tx_hash L tx1; h2 = tx_hash L tx2; h3 = tx_hash L tx3
      in h1 \<noteq> h2 \<and> h1 \<noteq> h3)"

definition test_transaction_modified_recipient_fails_verify :: "crates \<Rightarrow> u64 \<Rightarrow> u64 \<Rightarrow> bytes \<Rightarrow> bytes \<Rightarrow> bytes \<Rightarrow> bool" where
  "test_transaction_modified_recipient_fails_verify L now1 now2 rng1 rng2 rng3 =
     (let sender = wallet_generate L rng1; recipient = wallet_generate L rng2; wrong_recipient = wallet_generate L rng3;
          tx = tx_create L now1 sender (wallet_address recipient) 100 0;
          tx2 = tx_create L now2 sender (wallet_address wrong_recipient) 100 0;
          h1 = tx_hash L tx; h2 = tx_hash L tx2
      in tx_verify L tx = Inr () \<and> h1 \<noteq> h2)"

section \<open>Snapshots\<close>

definition test_ledger_snapshot :: "crates \<Rightarrow> bytes \<Rightarrow> bytes \<Rightarrow> bool" where
  "test_ledger_snapshot L rng1 rng2 =
     (let wallet1 = wallet_generate L rng1; wallet2 = wallet_generate L rng2;
          snapshot = ledger_snapshot L (registered [(wallet_address wallet1, 1000), (wallet_address wallet2, 2000)])
      in length snapshot = 2)"

definition test_ledger_multiple_accounts :: "crates \<Rightarrow> bytes list \<Rightarrow> bool" where
  "test_ledger_multiple_accounts L rngs =
     (let ledger = registered (map (\<lambda>(i, r). (wallet_address (wallet_generate L r), 1000 + of_nat i)) (enumerate 0 rngs));
          snapshot = ledger_snapshot L ledger
      in length snapshot = 10)"

section \<open>They pass\<close>

lemma more_wallet_tests:
  assumes "crates_ok L" "length rng = secret_key_length L"
  shows "test_wallet_from_secret_key L rng" "test_wallet_sign_consistency L rng"
    "test_transaction_hex_address_parsing L rng" "test_wallet_address_immutability L rng"
  using wallet_tests(6) [OF assms] address_text_tests(1) [OF assms]
  by (simp_all add: test_wallet_from_secret_key_def test_public_key_extraction_def test_wallet_sign_consistency_def
      test_transaction_hex_address_parsing_def test_address_hex_formatting_def test_wallet_address_immutability_def Let_def)

lemma two_wallet_tests:
  assumes "crates_ok L" "length rng1 = secret_key_length L" "length rng2 = secret_key_length L"
    and "wallet_address (wallet_generate L rng1) \<noteq> wallet_address (wallet_generate L rng2)"
  shows "test_wallet_consistent_across_platforms L rng1 rng2" "test_verify_public_key_bytes_consistency L rng1 rng2"
proof -
  show "test_wallet_consistent_across_platforms L rng1 rng2"
    using assms(1,4) by (simp add: test_wallet_consistent_across_platforms_def Let_def address_hex_def wallet_address_def
        hex_encode_inj crates_okD)
  have "derive_address L (public_key_bytes L (wallet_generate L r)) = wallet_address (wallet_generate L r)"
    if "length r = secret_key_length L" for r
    using wallet_generate_wf [OF that] by (simp add: wallet_wf_def public_key_def public_key_bytes_def wallet_address_def)
  from this [OF assms(2)] this [OF assms(3)] show "test_verify_public_key_bytes_consistency L rng1 rng2"
    using assms(4) by (auto simp: test_verify_public_key_bytes_consistency_def Let_def)
qed

lemma created_tests:
  assumes "crates_ok L" "length rng1 = secret_key_length L" "length rng2 = secret_key_length L"
  shows "test_transaction_signing L now rng1 rng2" "test_signed_transaction_fields L now rng1 rng2"
    "test_transaction_verification_failure L now now' rng1 rng2 rng3" "test_transaction_nonce_zero L now rng1 rng2"
    "result_ok (rlp_val_bytes L [] 0) = None \<Longrightarrow> test_transaction_rlp_encoding L now rng1 rng2"
proof -
  note ok = crates_okD [OF assms(1)]
  let ?w = "wallet_generate L rng1" and ?v = "wallet_generate L rng2"
  have w: "wallet_wf L ?w" "wallet_wf L ?v" using assms(2,3) wallet_generate_wf by blast+
  have ver: "tx_verify L (tx_create L now ?w to v n) = Inr ()" for now to v n by (rule tx_create_verifies [OF ok(3) w(1)])
  show "test_transaction_signing L now rng1 rng2" "test_signed_transaction_fields L now rng1 rng2"
    "test_transaction_verification_failure L now now' rng1 rng2 rng3" "test_transaction_nonce_zero L now rng1 rng2"
    using ver by (simp_all add: test_transaction_signing_def test_signed_transaction_fields_def
        test_transaction_verification_failure_def test_transaction_nonce_zero_def Let_def)
  assume empty: "result_ok (rlp_val_bytes L [] 0) = None"
  let ?tx = "tx_create L now ?w (wallet_address ?v) 100 0"
  have len: "length (wallet_address ?v) = ADDRESS_LEN"
    using w wallet_wf_address_length [OF ok(2)] by (simp add: wallet_address_def)
  have wf: "tx_wf ?tx" by (rule tx_create_wf [OF ok(3,2) w(1) len])
  have "rlp_val_bytes L (to_rlp_bytes L ?tx) 0 = Inr (tx_from ?tx)"
    unfolding to_rlp_bytes_def by (simp add: tx_rlp_append_def, rule rlp_val_bytes_at [OF ok(4)])
      (use tx_rlp_small [OF wf] in \<open>simp_all add: tx_rlp_append_def\<close>)
  with empty have "to_rlp_bytes L ?tx \<noteq> []" by auto
  then show "test_transaction_rlp_encoding L now rng1 rng2"
    using from_rlp_bytes_encode [OF ok(4) wf] by (simp add: test_transaction_rlp_encoding_def Let_def)
qed

lemma tx_hash_differs:
  assumes "crates_ok L" "inj_on (keccak256_digest L) (to_rlp_bytes L ` T)" "tx \<in> T" "tx' \<in> T"
    and "tx_wf tx" "tx_wf tx'" "tx \<noteq> tx'"
  shows "tx_hash L tx \<noteq> tx_hash L tx'"
proof
  assume "tx_hash L tx = tx_hash L tx'"
  then have "keccak256_digest L (to_rlp_bytes L tx) = keccak256_digest L (to_rlp_bytes L tx')"
    using assms(1) by (simp add: tx_hash_def hex_encode_inj crates_okD)
  then have "to_rlp_bytes L tx = to_rlp_bytes L tx'" using assms(2-4) by (auto dest: inj_onD)
  then show False using wire.enc_inj [of L tx tx'] assms(5-7) crates_okD(4) [OF assms(1)] by blast
qed

lemma hash_tests:
  fixes L rng1 rng2 rng3
  defines "w1 \<equiv> wallet_generate L rng1" and "w2 \<equiv> wallet_generate L rng2" and "w3 \<equiv> wallet_generate L rng3"
  assumes "crates_ok L" "\<forall>r \<in> {rng1, rng2, rng3}. length r = secret_key_length L"
    and "wallet_address w1 \<noteq> wallet_address w2" "wallet_address w2 \<noteq> wallet_address w3"
    and "inj_on (keccak256_digest L) (to_rlp_bytes L `
      {tx_create L t1 w1 (wallet_address w3) 100 0, tx_create L t2 w2 (wallet_address w3) 100 0,
       tx_create L t1 w1 (wallet_address w2) 100 0, tx_create L t2 w1 (wallet_address w2) 100 1,
       tx_create L t2 w1 (wallet_address w3) 100 0, tx_create L t3 w1 (wallet_address w2) 100 1})"
      (is "inj_on _ (_ ` ?T)")
  shows "test_transaction_hash_consistency L t1 t2 rng1 rng2 rng3" "test_transaction_nonce_matters L t1 t2 rng1 rng2"
    "test_transaction_hash_uniqueness L t1 t2 t3 rng1 rng2 rng3"
    "test_transaction_modified_recipient_fails_verify L t1 t2 rng1 rng2 rng3"
proof -
  note ok = crates_okD [OF assms(4)]
  have wf: "wallet_wf L w1" "wallet_wf L w2" "wallet_wf L w3"
    using assms(5) wallet_generate_wf by (auto simp: w1_def w2_def w3_def)
  have len: "length (wallet_address w) = ADDRESS_LEN" if "wallet_wf L w" for w
    using wallet_wf_address_length [OF ok(2) that] by (simp add: wallet_address_def)
  have T: "tx_wf tx" if "tx \<in> ?T" for tx
    using that wf len tx_create_wf [OF ok(3,2)] by auto
  have diff: "tx_hash L tx \<noteq> tx_hash L tx'" if "tx \<in> ?T" "tx' \<in> ?T" "f tx \<noteq> f tx'" for f :: "signed_transaction \<Rightarrow> 'a" and tx tx'
    using tx_hash_differs [OF assms(4) assms(8) that(1,2) T [OF that(1)] T [OF that(2)]] that(3) by blast
  show "test_transaction_hash_consistency L t1 t2 rng1 rng2 rng3"
    using diff [where f = tx_from] assms(6)
    by (simp add: test_transaction_hash_consistency_def Let_def w1_def [symmetric] w2_def [symmetric] w3_def [symmetric])
  show "test_transaction_nonce_matters L t1 t2 rng1 rng2"
    using diff [where f = tx_nonce]
    by (simp add: test_transaction_nonce_matters_def Let_def w1_def [symmetric] w2_def [symmetric])
  have to: "tx_hash L (tx_create L t1 w1 (wallet_address w2) 100 0) \<noteq> tx_hash L (tx_create L t2 w1 (wallet_address w3) 100 0)"
    by (rule diff [where f = tx_to]) (use assms(7) in simp_all)
  then show "test_transaction_hash_uniqueness L t1 t2 t3 rng1 rng2 rng3"
    using diff [where f = tx_nonce]
    by (simp add: test_transaction_hash_uniqueness_def Let_def w1_def [symmetric] w2_def [symmetric] w3_def [symmetric])
  show "test_transaction_modified_recipient_fails_verify L t1 t2 rng1 rng2 rng3"
    using to tx_create_verifies [OF ok(3) wf(1)]
    by (simp add: test_transaction_modified_recipient_fails_verify_def Let_def w1_def [symmetric] w2_def [symmetric] w3_def [symmetric])
qed

text \<open>The tampered amount: the two digests are of different byte strings, and one signature would have to be valid for both.\<close>

lemma tampered_amount_test:
  fixes L now rng1 rng2
  defines "tx \<equiv> tx_create L now (wallet_generate L rng1) (wallet_address (wallet_generate L rng2)) 500 0"
  assumes "crates_ok L" "\<not> tampered_amount_fails_verify L now rng1 rng2"
  shows "ed_verify L (tx_pubkey tx) (keccak256_digest L (tx_unsigned L (tx\<lparr>tx_amount := 9999\<rparr>))) (tx_signature tx)"
  using assms(2,3) by (simp add: tampered_amount_fails_verify_def Let_def tx_def tx_verify_iff crates_okD
      compute_unsigned_digest_def tx_unsigned_def)

text \<open>
  Two signers: the tests fail only if the signature of the one over the message of the test is valid under the public
  key of the other; for equal signatures that is so because each is valid under its own key.
\<close>

lemma two_signers_tests:
  fixes L rng1 rng2
  defines "accepts_other \<equiv> (\<lambda>s. ed_verify L (public_key L (wallet_generate L rng2)) (byte_string s)
    (wallet_sign L (wallet_generate L rng1) (byte_string s)))"
  assumes "crates_ok L" "length rng2 = secret_key_length L"
  shows "\<not> bad_signature_is_rejected L rng1 rng2 \<Longrightarrow> accepts_other ''transfer 100 to alice''"
    "\<not> test_multiple_wallets_different_signatures L rng1 rng2 \<Longrightarrow> accepts_other ''test''"
proof -
  show "accepts_other ''transfer 100 to alice''" if "\<not> bad_signature_is_rejected L rng1 rng2"
    using that by (simp add: bad_signature_is_rejected_def Let_def wallet_verify_def accepts_other_def split: if_splits)
  have wf: "wallet_wf L (wallet_generate L rng2)" by (rule wallet_generate_wf [OF assms(3)])
  have "wallet_verify L (public_key L (wallet_generate L rng2)) (byte_string ''test'')
      (wallet_sign L (wallet_generate L rng2) (byte_string ''test'')) = Inr ()"
    using wallet_sign_verify [OF crates_okD(3) [OF assms(2)] wf] by blast
  then show "accepts_other ''test''" if "\<not> test_multiple_wallets_different_signatures L rng1 rng2"
    using that by (simp add: test_multiple_wallets_different_signatures_def Let_def wallet_verify_def accepts_other_def
        split: if_splits)
qed

lemma register_tests:
  assumes "crates_ok L" "\<forall>r \<in> set rngs. length r = secret_key_length L"
    and "distinct (map (\<lambda>r. wallet_address (wallet_generate L r)) rngs)"
  shows "length rngs = 10 \<Longrightarrow> test_ledger_multiple_accounts L rngs"
    "rngs = rng1 # rng2 # rest \<Longrightarrow> test_ledger_snapshot L rng1 rng2"
proof -
  show "test_ledger_multiple_accounts L rngs" if "length rngs = 10"
    using snapshot_tests(2) [OF assms that]
    by (simp add: test_ledger_multiple_accounts_def test_snapshot_contains_all_accounts_def Let_def enumerate_eq_zip zip_map2 case_prod_unfold comp_def)
  show "test_ledger_snapshot L rng1 rng2" if "rngs = rng1 # rng2 # rest"
    using snapshot_tests(3) [OF assms that] by (simp add: test_ledger_snapshot_def test_ledger_snapshot_with_accounts_def Let_def)
qed

end
