(* ===== verification/Message_Tests.thy ===== *)
theory Message_Tests
  imports Event_Loop "HOL-Library.Sublist"
begin

text \<open>
  The unit tests of \<^verbatim>\<open>src/zyphra/src/network.rs\<close>: the two message types, the constants and the construction of
  the behaviour; and those of \<^verbatim>\<open>src/zyphra/src/main.rs\<close> for the cache of transactions and the set of connected
  peers, over the sets of the node. A clone is the same value, since values are immutable here.
  The derived \<open>Debug\<close> texts are written out; those of the events of libp2p are arguments.
\<close>

section \<open>Messages\<close>

definition test_transfer_request_serialization :: bool where
  "test_transfer_request_serialization =
     (let request = \<lparr>tx_rlp = [1, 2, 3, 4, 5]\<rparr> in length (tx_rlp request) = 5 \<and> tx_rlp request ! 0 = 1)"

definition test_transfer_response_serialization :: bool where
  "test_transfer_response_serialization =
     (let response = \<lparr>accepted = True, reason = ''Success'', resp_tx_hash = ''abc123''\<rparr>
      in accepted response \<and> reason response = ''Success'' \<and> resp_tx_hash response = ''abc123'')"

definition test_transfer_response_rejection :: bool where
  "test_transfer_response_rejection =
     (let response = \<lparr>accepted = False, reason = ''Insufficient balance'', resp_tx_hash = ''abc123''\<rparr>
      in \<not> accepted response \<and> reason response = ''Insufficient balance'')"

definition test_build_behaviour_success :: "libp2p \<Rightarrow> bytes \<Rightarrow> peer_id \<Rightarrow> bool" where
  "test_build_behaviour_success P keys peer =
     (case build_behaviour P keys peer of Inr _ \<Rightarrow> True | Inl _ \<Rightarrow> False)"

definition test_constants_defined :: bool where
  "test_constants_defined =
     (TX_TOPIC \<noteq> [] \<and> TX_TOPIC = ''/crypto-node/tx/1.0.0'' \<and>
      TRANSFER_PROTOCOL \<noteq> [] \<and> TRANSFER_PROTOCOL = ''/crypto-node/transfer/1.0.0'')"

definition test_transfer_request_clone :: bool where
  "test_transfer_request_clone =
     (let request1 = \<lparr>tx_rlp = [1, 2, 3]\<rparr>; request2 = request1 in tx_rlp request1 = tx_rlp request2)"

definition test_transfer_response_clone :: bool where
  "test_transfer_response_clone =
     (let response1 = \<lparr>accepted = True, reason = ''OK'', resp_tx_hash = ''hash''\<rparr>; response2 = response1
      in accepted response1 = accepted response2 \<and> reason response1 = reason response2 \<and>
         resp_tx_hash response1 = resp_tx_hash response2)"

definition test_transfer_request_empty_rlp :: bool where
  "test_transfer_request_empty_rlp = (let request = \<lparr>tx_rlp = []\<rparr> in tx_rlp request = [])"

definition test_transfer_response_empty_reason :: bool where
  "test_transfer_response_empty_reason =
     (let response = \<lparr>accepted = True, reason = [], resp_tx_hash = ''hash''\<rparr> in reason response = [])"

definition test_transfer_response_long_hash :: bool where
  "test_transfer_response_long_hash =
     (let hash = replicate 1000 (CHR ''a''); response = \<lparr>accepted = True, reason = ''OK'', resp_tx_hash = hash\<rparr>
      in length (resp_tx_hash response) = 1000)"

definition is_ascii :: "string \<Rightarrow> bool" where
  "is_ascii s = list_all (\<lambda>c. of_char c < (128 :: nat)) s"

definition test_constants_are_strings :: bool where
  "test_constants_are_strings = (is_ascii TX_TOPIC \<and> is_ascii TRANSFER_PROTOCOL)"

definition test_transfer_request_large_rlp :: bool where
  "test_transfer_request_large_rlp =
     (let large_rlp = replicate 10000 (255 :: u8); request = \<lparr>tx_rlp = large_rlp\<rparr> in length (tx_rlp request) = 10000)"

definition test_transfer_response_accepted_true :: bool where
  "test_transfer_response_accepted_true =
     (let response = \<lparr>accepted = True, reason = ''Accepted'', resp_tx_hash = ''tx1''\<rparr>
      in accepted response \<and> reason response = ''Accepted'')"

definition test_transfer_response_accepted_false :: bool where
  "test_transfer_response_accepted_false =
     (let response = \<lparr>accepted = False, reason = ''Rejected'', resp_tx_hash = ''tx1''\<rparr>
      in \<not> accepted response \<and> reason response = ''Rejected'')"

definition test_protocol_constants_not_empty :: bool where
  "test_protocol_constants_not_empty =
     (TX_TOPIC \<noteq> [] \<and> TRANSFER_PROTOCOL \<noteq> [] \<and> prefix ''/'' TX_TOPIC \<and> prefix ''/'' TRANSFER_PROTOCOL)"

definition test_protocol_constants_version :: bool where
  "test_protocol_constants_version = (sublist ''1.0.0'' TX_TOPIC \<and> sublist ''1.0.0'' TRANSFER_PROTOCOL)"

definition test_transfer_request_clone_independence :: bool where
  "test_transfer_request_clone_independence =
     (let request1 = \<lparr>tx_rlp = [1, 2, 3]\<rparr>; request2 = request1;
          request1 = request1\<lparr>tx_rlp := tx_rlp request1 @ [4]\<rparr>
      in length (tx_rlp request2) = 3 \<and> length (tx_rlp request1) = 4)"

definition test_transfer_response_clone_independence :: bool where
  "test_transfer_response_clone_independence =
     (let response1 = \<lparr>accepted = True, reason = ''OK'', resp_tx_hash = ''hash''\<rparr>; response2 = response1;
          response1 = response1\<lparr>reason := reason response1 @ '' modified''\<rparr>
      in reason response2 = ''OK'' \<and> sublist ''modified'' (reason response1))"

definition test_multiple_transfer_responses :: bool where
  "test_multiple_transfer_responses =
     (let responses =
        [\<lparr>accepted = True, reason = ''OK'', resp_tx_hash = ''hash1''\<rparr>,
         \<lparr>accepted = False, reason = ''Insufficient balance'', resp_tx_hash = ''hash2''\<rparr>,
         \<lparr>accepted = True, reason = ''Accepted'', resp_tx_hash = ''hash3''\<rparr>]
      in length responses = 3 \<and> accepted (responses ! 0) \<and> \<not> accepted (responses ! 1) \<and> accepted (responses ! 2))"

definition test_transfer_request_equality :: bool where
  "test_transfer_request_equality =
     (let req1 = \<lparr>tx_rlp = [1, 2, 3, 4, 5]\<rparr>; req2 = req1 in tx_rlp req1 = tx_rlp req2)"

definition test_tx_topic_constant_validity :: bool where
  "test_tx_topic_constant_validity =
     (prefix ''/'' TX_TOPIC \<and> sublist ''crypto-node'' TX_TOPIC \<and> sublist ''tx'' TX_TOPIC \<and> sublist ''1.0.0'' TX_TOPIC)"

definition test_transfer_protocol_constant_validity :: bool where
  "test_transfer_protocol_constant_validity =
     (prefix ''/'' TRANSFER_PROTOCOL \<and> sublist ''crypto-node'' TRANSFER_PROTOCOL \<and>
      sublist ''transfer'' TRANSFER_PROTOCOL \<and> sublist ''1.0.0'' TRANSFER_PROTOCOL)"

definition test_transfer_request_variable_sizes :: bool where
  "test_transfer_request_variable_sizes =
     list_all (\<lambda>size. let rlp_data = replicate size (0 :: u8); request = \<lparr>tx_rlp = rlp_data\<rparr>
                      in length (tx_rlp request) = size)
       [0, 1, 10, 100, 1000, 10000]"

definition test_transfer_response_all_combinations :: bool where
  "test_transfer_response_all_combinations =
     list_all (\<lambda>a. list_all (\<lambda>r. list_all (\<lambda>h.
       let response = \<lparr>accepted = a, reason = r, resp_tx_hash = h\<rparr>
       in accepted response = a \<and> reason response = r \<and> resp_tx_hash response = h)
       [''hash1'', ''hash2'', ''hash3'']) [''OK'', ''Failed'', ''Timeout'', ''Invalid'']) [True, False]"

definition test_transfer_request_modification :: bool where
  "test_transfer_request_modification =
     (let request = \<lparr>tx_rlp = [1, 2, 3]\<rparr>;
          request = request\<lparr>tx_rlp := tx_rlp request @ [4]\<rparr>;
          request = request\<lparr>tx_rlp := tx_rlp request @ [5]\<rparr>
      in length (tx_rlp request) = 5 \<and> tx_rlp request ! 3 = 4 \<and> tx_rlp request ! 4 = 5)"

definition test_transfer_response_modification :: bool where
  "test_transfer_response_modification =
     (let response = \<lparr>accepted = False, reason = ''Initial'', resp_tx_hash = ''hash1''\<rparr>;
          response = response\<lparr>accepted := True\<rparr>;
          response = response\<lparr>reason := ''Updated''\<rparr>;
          response = response\<lparr>resp_tx_hash := ''hash2''\<rparr>
      in accepted response \<and> reason response = ''Updated'' \<and> resp_tx_hash response = ''hash2'')"

definition test_protocol_identifiers_are_different :: bool where
  "test_protocol_identifiers_are_different =
     (TX_TOPIC \<noteq> TRANSFER_PROTOCOL \<and> prefix ''/crypto-node/'' TX_TOPIC \<and> prefix ''/crypto-node/'' TRANSFER_PROTOCOL)"

section \<open>Debug texts\<close>

text \<open>
  What \<open>derive(Debug)\<close> prints with \<open>{:?}\<close>: a struct with its fields by name, a tuple variant with its argument in
  parentheses, bytes as a list of numbers, a string in quotes with its escapes. Non-ASCII characters appear as they are.
\<close>

definition escape_debug :: "char \<Rightarrow> string" where
  "escape_debug c =
     (let n = of_char c :: nat; hex = (\<lambda>d. ''0123456789abcdef'' ! d) in
      if n = 0 then [CHR 0x5C, CHR ''0'']
      else if n = 9 then [CHR 0x5C, CHR ''t'']
      else if n = 10 then [CHR 0x5C, CHR ''n'']
      else if n = 13 then [CHR 0x5C, CHR ''r'']
      else if n = 34 \<or> n = 92 then [CHR 0x5C, c]
      else if n < 16 then [CHR 0x5C] @ ''u{'' @ [hex n] @ ''}''
      else if n < 32 \<or> n = 127 then [CHR 0x5C] @ ''u{'' @ [hex (n div 16), hex (n mod 16)] @ ''}''
      else [c])"

definition string_debug :: "string \<Rightarrow> string" where
  "string_debug s = [CHR 0x22] @ concat (map escape_debug s) @ [CHR 0x22]"

definition bool_debug :: "bool \<Rightarrow> string" where
  "bool_debug b = (if b then ''true'' else ''false'')"

fun comma_separated :: "string list \<Rightarrow> string" where
  "comma_separated [] = []"
| "comma_separated [s] = s"
| "comma_separated (s # t # ss) = s @ '', '' @ comma_separated (t # ss)"

definition bytes_debug :: "bytes \<Rightarrow> string" where
  "bytes_debug bs = ''['' @ comma_separated (map (\<lambda>b. show_nat (unat b)) bs) @ '']''"

definition transfer_request_debug :: "transfer_request \<Rightarrow> string" where
  "transfer_request_debug r = ''TransferRequest { tx_rlp: '' @ bytes_debug (tx_rlp r) @ '' }''"

definition transfer_response_debug :: "transfer_response \<Rightarrow> string" where
  "transfer_response_debug r =
     ''TransferResponse { accepted: '' @ bool_debug (accepted r) @ '', reason: '' @ string_debug (reason r) @
     '', tx_hash: '' @ string_debug (resp_tx_hash r) @ '' }''"

record event_debugs =
  kad_debug :: "kad_event \<Rightarrow> string"
  gossipsub_debug :: "gossipsub_event \<Rightarrow> string"
  transfer_debug :: "transfer_event \<Rightarrow> string"
  identify_debug :: "identify_event \<Rightarrow> string"
  mdns_debug :: "mdns_event \<Rightarrow> string"

fun node_event_debug :: "event_debugs \<Rightarrow> node_event \<Rightarrow> string" where
  "node_event_debug D (Kademlia e) = ''Kademlia('' @ kad_debug D e @ '')''"
| "node_event_debug D (Gossipsub e) = ''Gossipsub('' @ gossipsub_debug D e @ '')''"
| "node_event_debug D (Transfer e) = ''Transfer('' @ transfer_debug D e @ '')''"
| "node_event_debug D (Identify e) = ''Identify('' @ identify_debug D e @ '')''"
| "node_event_debug D (Mdns e) = ''Mdns('' @ mdns_debug D e @ '')''"

definition test_transfer_request_debug :: bool where
  "test_transfer_request_debug =
     (let request = \<lparr>tx_rlp = [1, 2, 3]\<rparr>; debug_str = transfer_request_debug request
      in sublist ''TransferRequest'' debug_str)"

definition test_transfer_response_debug :: bool where
  "test_transfer_response_debug =
     (let response = \<lparr>accepted = True, reason = ''Test'', resp_tx_hash = ''hash123''\<rparr>;
          debug_str = transfer_response_debug response
      in sublist ''TransferResponse'' debug_str)"

text \<open>The event of a subscription is one of those the handlers do not look at.\<close>

definition test_node_event_debug_gossipsub :: "event_debugs \<Rightarrow> bool" where
  "test_node_event_debug_gossipsub D =
     (let event = Gossipsub OtherGossip; debug_str = node_event_debug D event in sublist ''Gossipsub'' debug_str)"

section \<open>Caches and peers\<close>

text \<open>
  The cache is the set of hashes of the node, a clone of its \<open>Arc\<close> is the same cache and is looked at when it is used;
  the random peer identifiers are arguments.
\<close>

definition cache_insert :: "string \<Rightarrow> tx_cache \<Rightarrow> tx_cache" where
  "cache_insert h c = insert h c"

definition test_tx_cache_basic_operations :: bool where
  "test_tx_cache_basic_operations =
     (let cache = cache_insert ''tx1'' {} in ''tx1'' \<in> cache \<and> ''tx_missing'' \<notin> cache)"

definition test_tx_cache_deduplication :: bool where
  "test_tx_cache_deduplication = (let cache = cache_insert ''tx1'' (cache_insert ''tx1'' {}) in card cache = 1)"

definition test_tx_cache_multiple_entries :: bool where
  "test_tx_cache_multiple_entries =
     (let cache = fold (\<lambda>i. cache_insert (''tx'' @ show_nat i)) [0..<10] {}
      in card cache = 10 \<and> list_all (\<lambda>i. ''tx'' @ show_nat i \<in> cache) [0..<10])"

definition test_tx_cache_is_thread_safe :: bool where
  "test_tx_cache_is_thread_safe =
     (let cache = cache_insert ''tx1'' {}; cache_clone = cache; exists = (''tx1'' \<in> cache_clone) in exists)"

definition test_tx_cache_concurrent_access :: bool where
  "test_tx_cache_concurrent_access =
     (let cache = cache_insert ''tx3'' (cache_insert ''tx2'' (cache_insert ''tx1'' {}))
      in card cache = 3 \<and> ''tx1'' \<in> cache \<and> ''tx2'' \<in> cache \<and> ''tx3'' \<in> cache)"

definition test_tx_cache_insertion_and_lookup :: bool where
  "test_tx_cache_insertion_and_lookup =
     (let tx_hashes = map (\<lambda>i. ''transaction_'' @ show_nat i) [0..<20]; cache = fold cache_insert tx_hashes {}
      in list_all (\<lambda>hash. hash \<in> cache) tx_hashes \<and> card cache = 20)"

definition test_connected_peers_hashset :: "peer_id \<Rightarrow> peer_id \<Rightarrow> bool" where
  "test_connected_peers_hashset peer1 peer2 =
     (let peers = List.insert peer2 (List.insert peer1 [])
      in length peers = 2 \<and> peer1 \<in> set peers \<and> peer2 \<in> set peers)"

definition test_connected_peers_deduplication :: "peer_id \<Rightarrow> bool" where
  "test_connected_peers_deduplication peer =
     (let peers = List.insert peer (List.insert peer []) in length peers = 1)"

definition test_peers_hashset_removal :: "peer_id \<Rightarrow> peer_id \<Rightarrow> bool" where
  "test_peers_hashset_removal peer1 peer2 =
     (let peers = removeAll peer1 (List.insert peer2 (List.insert peer1 []))
      in length peers = 1 \<and> peer1 \<notin> set peers \<and> peer2 \<in> set peers)"

definition test_peers_iteration :: "peer_id list \<Rightarrow> bool" where
  "test_peers_iteration ids = (let peers = fold List.insert (take 5 ids) [] in length peers = 5)"

definition test_peer_set_operations :: "peer_id list \<Rightarrow> bool" where
  "test_peer_set_operations peer_ids =
     (let all = fold List.insert peer_ids []; rest = fold removeAll (take 5 peer_ids) all
      in length all = 10 \<and> length rest = 5 \<and> list_all (\<lambda>p. p \<in> set rest) (drop 5 peer_ids))"

section \<open>They pass\<close>

lemma message_tests:
  "test_transfer_request_serialization" "test_transfer_response_serialization" "test_transfer_response_rejection"
  "test_transfer_request_clone" "test_transfer_response_clone" "test_transfer_request_empty_rlp"
  "test_transfer_response_empty_reason" "test_transfer_response_long_hash" "test_transfer_request_large_rlp"
  "test_transfer_response_accepted_true" "test_transfer_response_accepted_false"
  "test_transfer_request_clone_independence" "test_multiple_transfer_responses"
  "test_transfer_request_equality" "test_transfer_request_variable_sizes" "test_transfer_response_all_combinations"
  "test_transfer_request_modification" "test_transfer_response_modification"
  by (simp_all add: test_transfer_request_serialization_def test_transfer_response_serialization_def
      test_transfer_response_rejection_def test_transfer_request_clone_def test_transfer_response_clone_def
      test_transfer_request_empty_rlp_def test_transfer_response_empty_reason_def test_transfer_response_long_hash_def
      test_transfer_request_large_rlp_def test_transfer_response_accepted_true_def test_transfer_response_accepted_false_def
      test_transfer_request_clone_independence_def
      test_multiple_transfer_responses_def test_transfer_request_equality_def test_transfer_request_variable_sizes_def
      test_transfer_response_all_combinations_def test_transfer_request_modification_def
      test_transfer_response_modification_def Let_def)

lemma sublistI: "zs = xs @ ys @ us \<Longrightarrow> sublist ys zs"
  by (auto simp: sublist_def)

lemma constant_tests:
  "test_constants_defined" "test_constants_are_strings" "test_protocol_constants_not_empty"
  "test_protocol_constants_version" "test_tx_topic_constant_validity" "test_transfer_protocol_constant_validity"
  "test_protocol_identifiers_are_different" "test_transfer_response_clone_independence"
proof -
  have sub: "sublist ''1.0.0'' TX_TOPIC" "sublist ''crypto-node'' TX_TOPIC" "sublist ''tx'' TX_TOPIC"
    "sublist ''1.0.0'' TRANSFER_PROTOCOL" "sublist ''crypto-node'' TRANSFER_PROTOCOL" "sublist ''transfer'' TRANSFER_PROTOCOL"
    by (rule sublistI [of _ "''/crypto-node/tx/''" _ "[]"], simp add: TX_TOPIC_def)
      (rule sublistI [of _ "''/''" _ "''/tx/1.0.0''"], simp add: TX_TOPIC_def,
       rule sublistI [of _ "''/crypto-node/''" _ "''/1.0.0''"], simp add: TX_TOPIC_def,
       rule sublistI [of _ "''/crypto-node/transfer/''" _ "[]"], simp add: TRANSFER_PROTOCOL_def,
       rule sublistI [of _ "''/''" _ "''/transfer/1.0.0''"], simp add: TRANSFER_PROTOCOL_def,
       rule sublistI [of _ "''/crypto-node/''" _ "''/1.0.0''"], simp add: TRANSFER_PROTOCOL_def)
  have pre: "prefix ''/'' TX_TOPIC" "prefix ''/'' TRANSFER_PROTOCOL" "prefix ''/crypto-node/'' TX_TOPIC"
    "prefix ''/crypto-node/'' TRANSFER_PROTOCOL" "TX_TOPIC \<noteq> []" "TRANSFER_PROTOCOL \<noteq> []" "TX_TOPIC \<noteq> TRANSFER_PROTOCOL"
    by (simp_all add: TX_TOPIC_def TRANSFER_PROTOCOL_def)
  have "is_ascii TX_TOPIC" "is_ascii TRANSFER_PROTOCOL" by code_simp+
  then show "test_constants_are_strings" by (simp add: test_constants_are_strings_def)
  show "test_transfer_response_clone_independence"
    using sublistI [of _ "''OK ''" "''modified''" "[]"] by (simp add: test_transfer_response_clone_independence_def Let_def)
  show "test_constants_defined" by (simp add: test_constants_defined_def TX_TOPIC_def TRANSFER_PROTOCOL_def)
  show "test_protocol_constants_not_empty" "test_protocol_constants_version" "test_tx_topic_constant_validity"
    "test_transfer_protocol_constant_validity" "test_protocol_identifiers_are_different"
    using sub pre
    by (simp_all add: test_protocol_constants_not_empty_def test_protocol_constants_version_def
        test_tx_topic_constant_validity_def test_transfer_protocol_constant_validity_def
        test_protocol_identifiers_are_different_def)
qed

lemma debug_tests:
  "test_transfer_request_debug" "test_transfer_response_debug" "test_node_event_debug_gossipsub D"
proof -
  have first: "sublist s (s @ t)" for s t :: string by (simp add: sublistI [of _ "[]"])
  show "test_transfer_request_debug"
    using first [of "''TransferRequest''" "'' { tx_rlp: '' @ t" for t]
    by (simp add: test_transfer_request_debug_def transfer_request_debug_def del: sublist_Cons_right)
  show "test_transfer_response_debug"
    using first [of "''TransferResponse''" "'' { accepted: '' @ t" for t]
    by (simp add: test_transfer_response_debug_def transfer_response_debug_def del: sublist_Cons_right)
  show "test_node_event_debug_gossipsub D"
    using first [of "''Gossipsub''" "''('' @ t" for t]
    by (simp add: test_node_event_debug_gossipsub_def del: sublist_Cons_right)
qed

text \<open>What the debug texts of the two messages in the tests are.\<close>

lemma debug_texts:
  "transfer_request_debug \<lparr>tx_rlp = [1, 2, 3]\<rparr> = ''TransferRequest { tx_rlp: [1, 2, 3] }''"
  "transfer_response_debug \<lparr>accepted = True, reason = ''Test'', resp_tx_hash = [CHR ''#'', CHR 0x22]\<rparr> =
    ''TransferResponse { accepted: true, reason: '' @ [CHR 0x22] @ ''Test'' @ [CHR 0x22] @ '', tx_hash: '' @
    [CHR 0x22, CHR ''#'', CHR 0x5C, CHR 0x22, CHR 0x22] @ '' }''"
  by code_simp+

lemma cache_fold: "fold cache_insert hs c = set hs \<union> c"
  by (induction hs arbitrary: c) (auto simp: cache_insert_def)

lemma show_nat_inj: "n < 2 ^ 64 \<Longrightarrow> m < 2 ^ 64 \<Longrightarrow> show_nat n = show_nat m \<longleftrightarrow> n = m"
  using parse_digits_show_nat by (metis option.inject)

lemma cache_numbered:
  assumes "k \<le> 20" shows "card (set (map (\<lambda>i. s @ show_nat i) [0..<k])) = k"
proof -
  have "inj_on (\<lambda>i. s @ show_nat i) (set [0..<k])" using assms show_nat_inj by (auto simp: inj_on_def)
  then show ?thesis by (simp add: card_image)
qed

lemma cache_tests:
  "test_tx_cache_basic_operations" "test_tx_cache_deduplication" "test_tx_cache_is_thread_safe"
  "test_tx_cache_concurrent_access" "test_tx_cache_multiple_entries" "test_tx_cache_insertion_and_lookup"
proof -
  have "fold (\<lambda>i. cache_insert (s @ show_nat i)) [0..<k] {} = set (map (\<lambda>i. s @ show_nat i) [0..<k])" for s k
    using cache_fold [of "map (\<lambda>i. s @ show_nat i) [0..<k]" "{}"] by (simp add: fold_map comp_def)
  from this [of "''tx''" 10] show "test_tx_cache_multiple_entries"
    using cache_numbered [of 10 "''tx''"] by (simp add: test_tx_cache_multiple_entries_def Let_def list_all_iff)
  show "test_tx_cache_insertion_and_lookup"
    using cache_numbered [of 20 "''transaction_''"]
    by (simp add: test_tx_cache_insertion_and_lookup_def Let_def cache_fold list_all_iff)
qed (simp_all add: test_tx_cache_basic_operations_def test_tx_cache_deduplication_def test_tx_cache_is_thread_safe_def
    test_tx_cache_concurrent_access_def cache_insert_def)

lemma inserted: "distinct (ids @ ps) \<Longrightarrow> fold List.insert ids ps = rev ids @ ps"
  by (induction ids arbitrary: ps) auto

lemma removed: "fold removeAll ids ps = filter (\<lambda>p. p \<notin> set ids) ps"
proof (induction ids arbitrary: ps)
  case (Cons i ids)
  have "filter (\<lambda>p. p \<notin> set ids) (removeAll i ps) = filter (\<lambda>p. p \<notin> set (i # ids)) ps" by (induction ps) auto
  then show ?case by (simp only: fold_simps Cons.IH)
qed simp

lemma peer_tests:
  assumes "distinct ids" "length ids = 10"
  shows "test_connected_peers_hashset (ids ! 0) (ids ! 1)" "test_connected_peers_deduplication (ids ! 0)"
    "test_peers_hashset_removal (ids ! 0) (ids ! 1)" "test_peers_iteration ids" "test_peer_set_operations ids"
proof -
  have ne: "ids ! 0 \<noteq> ids ! 1" using assms nth_eq_iff_index_eq [of ids 0 1] by simp
  then show "test_connected_peers_hashset (ids ! 0) (ids ! 1)" "test_connected_peers_deduplication (ids ! 0)"
    "test_peers_hashset_removal (ids ! 0) (ids ! 1)"
    by (auto simp: test_connected_peers_hashset_def test_connected_peers_deduplication_def test_peers_hashset_removal_def)
  show "test_peers_iteration ids"
    using assms inserted [of "take 5 ids" "[]"] by (simp add: test_peers_iteration_def)
  have parts: "set (take 5 ids) \<inter> set (drop 5 ids) = {}" using assms(1) by (rule set_take_disj_set_drop_if_distinct) simp
  have "rev ids = rev (drop 5 ids) @ rev (take 5 ids)" by (metis append_take_drop_id rev_append)
  moreover have "filter (\<lambda>p. p \<notin> set (take 5 ids)) (rev (drop 5 ids)) = rev (drop 5 ids)"
    using parts by (intro filter_True) auto
  moreover have "filter (\<lambda>p. p \<notin> set (take 5 ids)) (rev (take 5 ids)) = []" by (intro filter_False) simp
  ultimately have "fold removeAll (take 5 ids) (rev ids) = rev (drop 5 ids)" by (simp add: removed)
  then show "test_peer_set_operations ids"
    using assms inserted [of ids "[]"] by (simp add: test_peer_set_operations_def Let_def list_all_iff)
qed

lemma behaviour_test: "test_build_behaviour_success P keys peer \<longleftrightarrow> behaviour_error P keys peer = None"
  unfolding behaviour_error_iff by (auto simp: test_build_behaviour_success_def split: sum.split)

end
