(* ===== verification/Command_Line.thy ===== *)
theory Command_Line
  imports Event_Loop
begin

text \<open>
  The command line (\<^verbatim>\<open>Cli\<close> in \<^verbatim>\<open>src/zyphra/src/main.rs\<close>) and its unit tests. The options are declared
  to clap by the attributes of the structure; \<open>cli_args\<close> is that declaration with the names clap derives from the
  fields. The matcher of clap, which splits a command line into the values of each option, and the parser of multiaddresses are parameters.
\<close>

section \<open>The declaration\<close>

record arg_spec =
  arg_long :: string
  arg_short :: "char option"
  arg_repeats :: bool
  arg_default :: "string option"

definition cli_args :: "arg_spec list" where
  "cli_args =
     [\<lparr>arg_long = ''listen'', arg_short = Some CHR ''l'', arg_repeats = False, arg_default = Some ''/ip4/0.0.0.0/tcp/0''\<rparr>,
      \<lparr>arg_long = ''peer'', arg_short = Some CHR ''p'', arg_repeats = True, arg_default = None\<rparr>,
      \<lparr>arg_long = ''balance'', arg_short = Some CHR ''b'', arg_repeats = False, arg_default = Some ''1000''\<rparr>,
      \<lparr>arg_long = ''secret-key'', arg_short = None, arg_repeats = False, arg_default = None\<rparr>]"

text \<open>The values clap finds for each long name; \<open>None\<close> is its error.\<close>

type_synonym clap = "arg_spec list \<Rightarrow> string list \<Rightarrow> (string \<Rightarrow> string list) option"

definition one_value :: "(string \<Rightarrow> 'a option) \<Rightarrow> string list \<Rightarrow> 'a option" where
  "one_value parse vs = (case vs of [v] \<Rightarrow> parse v | _ \<Rightarrow> None)"

definition try_parse_from :: "clap \<Rightarrow> (string \<Rightarrow> multiaddr option) \<Rightarrow> string list \<Rightarrow> cli option" where
  "try_parse_from M A args =
     (case M cli_args args of
        None \<Rightarrow> None
      | Some vals \<Rightarrow>
          (case (one_value A (vals ''listen''), those (map A (vals ''peer'')), one_value parse_u64 (vals ''balance'')) of
             (Some l, Some ps, Some b) \<Rightarrow>
               Some \<lparr>cli_listen = l, cli_peer = ps, cli_balance = b,
                     cli_secret_key = (case vals ''secret-key'' of [] \<Rightarrow> None | k # _ \<Rightarrow> Some k)\<rparr>
           | _ \<Rightarrow> None))"

text \<open>\<open>Cli::parse\<close> ends the program with the usage text where \<open>try_parse_from\<close> has an error; that is \<open>None\<close>.\<close>

definition program_start :: "crates \<Rightarrow> host \<Rightarrow> clap \<Rightarrow> (string \<Rightarrow> multiaddr option) \<Rightarrow> string list \<Rightarrow> node result run option" where
  "program_start L H M A args =
     (case try_parse_from M A args of None \<Rightarrow> None | Some c \<Rightarrow> Some (main_init L H c))"

section \<open>What clap promises\<close>

text \<open>A word names an option by \<open>--\<close> and its long name, or \<open>-\<close> and its short one.\<close>

definition names :: "string \<Rightarrow> arg_spec \<Rightarrow> bool" where
  "names t a \<longleftrightarrow> t = ''--'' @ arg_long a \<or> (case arg_short a of Some c \<Rightarrow> t = [CHR ''-'', c] | None \<Rightarrow> False)"

text \<open>The pairs of option and value in a command line that consists of such pairs, with values that do not start like an option.\<close>

fun option_pairs :: "arg_spec list \<Rightarrow> string list \<Rightarrow> (string \<times> string) list option" where
  "option_pairs specs [] = Some []"
| "option_pairs specs [t] = None"
| "option_pairs specs (t # v # rest) =
     (case find (names t) specs of
        Some a \<Rightarrow>
          if v \<noteq> [] \<and> hd v \<noteq> CHR ''-'' then map_option (\<lambda>os. (arg_long a, v) # os) (option_pairs specs rest) else None
      | None \<Rightarrow> None)"

definition given :: "(string \<times> string) list \<Rightarrow> string \<Rightarrow> string list" where
  "given os n = map snd (filter (\<lambda>(m, v). m = n) os)"

definition given_twice :: "arg_spec list \<Rightarrow> (string \<times> string) list \<Rightarrow> bool" where
  "given_twice specs os \<longleftrightarrow> list_ex (\<lambda>a. \<not> arg_repeats a \<and> 1 < length (given os (arg_long a))) specs"

definition values_of :: "arg_spec list \<Rightarrow> (string \<times> string) list \<Rightarrow> string \<Rightarrow> string list" where
  "values_of specs os n =
     (case find (\<lambda>a. arg_long a = n) specs of
        None \<Rightarrow> []
      | Some a \<Rightarrow>
          (case given os n of
             [] \<Rightarrow> (case arg_default a of Some d \<Rightarrow> [d] | None \<Rightarrow> [])
           | vs \<Rightarrow> vs))"

text \<open>An option that does not repeat may be given once, and one that is not given has its default.\<close>

definition clap_ok :: "clap \<Rightarrow> bool" where
  "clap_ok M \<longleftrightarrow>
     (\<forall>prog rest os. option_pairs cli_args rest = Some os \<longrightarrow>
        M cli_args (prog # rest) = (if given_twice cli_args os then None else Some (values_of cli_args os)))"

definition ref_clap :: clap where
  "ref_clap specs args =
     (case option_pairs specs (tl args) of
        None \<Rightarrow> None
      | Some os \<Rightarrow> if given_twice specs os then None else Some (values_of specs os))"

lemma ref_clap_ok: "clap_ok ref_clap"
  by (simp add: clap_ok_def ref_clap_def)

section \<open>From the command line to the first state\<close>

lemma values_of_args:
  "values_of cli_args os ''listen'' = (if given os ''listen'' = [] then [''/ip4/0.0.0.0/tcp/0''] else given os ''listen'')"
  "values_of cli_args os ''peer'' = given os ''peer''"
  "values_of cli_args os ''balance'' = (if given os ''balance'' = [] then [''1000''] else given os ''balance'')"
  "values_of cli_args os ''secret-key'' = given os ''secret-key''"
  by (auto simp: values_of_def cli_args_def split: list.split)

lemma those_Some_iff: "those xs = Some ys \<longleftrightarrow> xs = map Some ys"
  by (induction xs arbitrary: ys) (auto split: option.splits)

lemma one_value_Some_iff: "one_value f vs = Some x \<longleftrightarrow> (\<exists>v. vs = [v] \<and> f v = Some x)"
  by (auto simp: one_value_def split: list.splits)

text \<open>The only value given for an option, or its default.\<close>

definition chosen :: "string \<Rightarrow> string list \<Rightarrow> string" where
  "chosen d vs = (case vs of [] \<Rightarrow> d | v # _ \<Rightarrow> v)"

lemma chosen_single: "(if vs = [] then [d] else vs) = [v] \<longleftrightarrow> length vs \<le> 1 \<and> v = chosen d vs"
  by (cases vs) (auto simp: chosen_def)

lemma try_parse_from_Some_iff:
  assumes "clap_ok M" "option_pairs cli_args rest = Some os"
  shows "try_parse_from M A (prog # rest) = Some c \<longleftrightarrow>
    length (given os ''listen'') \<le> 1 \<and> length (given os ''balance'') \<le> 1 \<and> length (given os ''secret-key'') \<le> 1 \<and>
    A (chosen ''/ip4/0.0.0.0/tcp/0'' (given os ''listen'')) = Some (cli_listen c) \<and>
    map A (given os ''peer'') = map Some (cli_peer c) \<and>
    parse_u64 (chosen ''1000'' (given os ''balance'')) = Some (cli_balance c) \<and>
    cli_secret_key c = (case given os ''secret-key'' of [] \<Rightarrow> None | k # _ \<Rightarrow> Some k)"
proof -
  have twice: "given_twice cli_args os \<longleftrightarrow>
      \<not> (length (given os ''listen'') \<le> 1 \<and> length (given os ''balance'') \<le> 1 \<and> length (given os ''secret-key'') \<le> 1)"
    by (auto simp: given_twice_def cli_args_def)
  show ?thesis
  proof (cases "given_twice cli_args os")
    case True
    with assms twice show ?thesis by (auto simp: clap_ok_def try_parse_from_def)
  next
    case False
    have "try_parse_from M A (prog # rest) = Some c \<longleftrightarrow>
        one_value A (values_of cli_args os ''listen'') = Some (cli_listen c) \<and>
        those (map A (values_of cli_args os ''peer'')) = Some (cli_peer c) \<and>
        one_value parse_u64 (values_of cli_args os ''balance'') = Some (cli_balance c) \<and>
        cli_secret_key c = (case values_of cli_args os ''secret-key'' of [] \<Rightarrow> None | k # _ \<Rightarrow> Some k)"
      using assms False by (cases c) (auto simp: clap_ok_def try_parse_from_def split: option.splits)
    then show ?thesis
      using False unfolding twice values_of_args one_value_Some_iff chosen_single those_Some_iff by auto
  qed
qed

lemma cli_exists:
  "(\<exists>c :: cli. X \<and> Y \<and> Z \<and> P (cli_listen c) \<and> Q (cli_peer c) \<and> R (cli_balance c) \<and> cli_secret_key c = k) \<longleftrightarrow>
   X \<and> Y \<and> Z \<and> (\<exists>l. P l) \<and> (\<exists>ps. Q ps) \<and> (\<exists>b. R b)"
  (is "?a \<longleftrightarrow> ?b")
proof
  assume ?b
  then obtain l ps b where parts: "X" "Y" "Z" "P l" "Q ps" "R b" by blast
  show ?a by (rule exI [of _ "\<lparr>cli_listen = l, cli_peer = ps, cli_balance = b, cli_secret_key = k\<rparr>"]) (simp add: parts)
qed auto

text \<open>
  C40: The node starts as its command line says. When the command line consists of options, by long or short name and in any order,
  each with a value, it is rejected before anything happens exactly if \<open>listen\<close>, \<open>balance\<close> or \<open>secret-key\<close> is given
  twice, an address does not parse, or the balance is not a number of 64 bits. Otherwise start-up runs; when it reaches the
  loop, the wallet is the one of the key given, or a new one, the own balance is the one given, or 1000, and the swarm has been told to listen on the
  address given and to dial the peers given in the order they were given.
\<close>

theorem command_line_to_first_state:
  assumes "clap_ok M" "option_pairs cli_args rest = Some os"
  shows "(program_start L H M A (prog # rest) = None \<longleftrightarrow>
      1 < length (given os ''listen'') \<or> 1 < length (given os ''balance'') \<or> 1 < length (given os ''secret-key'') \<or>
      A (chosen ''/ip4/0.0.0.0/tcp/0'' (given os ''listen'')) = None \<or> None \<in> A ` set (given os ''peer'') \<or>
      parse_u64 (chosen ''1000'' (given os ''balance'')) = None) \<and>
    (\<forall>nd. program_start L H M A (prog # rest) = Some (Ret (Inr nd)) \<longrightarrow>
      (case given os ''secret-key'' of
         [] \<Rightarrow> n_wallet nd = wallet_generate L (host_random H)
       | k # _ \<Rightarrow> \<exists>bs. hex_decode L k = Some bs \<and> from_secret_bytes L bs = Inr (n_wallet nd)) \<and>
      ledger_balance (n_ledger nd) (own_address nd) = parse_u64 (chosen ''1000'' (given os ''balance'')) \<and>
      (\<exists>l ps. A (chosen ''/ip4/0.0.0.0/tcp/0'' (given os ''listen'')) = Some l \<and> map A (given os ''peer'') = map Some ps \<and>
        n_effects nd = ListenOn l # map Dial ps @ (if ps = [] then [] else [KadBootstrap])))"
    (is "?rejected \<and> ?started")
proof
  note parsed = try_parse_from_Some_iff [OF assms]
  have peers: "(\<exists>ps. map A vs = map Some ps) \<longleftrightarrow> None \<notin> A ` set vs" for vs
    by (induction vs) (auto simp: Cons_eq_map_conv image_iff, metis not_None_eq)
  show ?rejected
  proof -
    have "program_start L H M A (prog # rest) = None \<longleftrightarrow> (\<forall>c. try_parse_from M A (prog # rest) \<noteq> Some c)"
      by (auto simp: program_start_def split: option.splits)
    also have "\<dots> \<longleftrightarrow> \<not> (length (given os ''listen'') \<le> 1 \<and> length (given os ''balance'') \<le> 1 \<and> length (given os ''secret-key'') \<le> 1 \<and>
        A (chosen ''/ip4/0.0.0.0/tcp/0'' (given os ''listen'')) \<noteq> None \<and> (\<exists>ps. map A (given os ''peer'') = map Some ps) \<and>
        parse_u64 (chosen ''1000'' (given os ''balance'')) \<noteq> None)"
      unfolding parsed not_ex [symmetric] not_None_eq
      by (rule arg_cong [where f = Not], rule cli_exists [where P = "\<lambda>l. A (chosen ''/ip4/0.0.0.0/tcp/0'' (given os ''listen'')) = Some l"
        and Q = "\<lambda>ps. map A (given os ''peer'') = map Some ps" and R = "\<lambda>b. parse_u64 (chosen ''1000'' (given os ''balance'')) = Some b"])
    finally show ?thesis unfolding peers by auto
  qed
  show ?started
  proof (intro allI impI)
    fix nd assume "program_start L H M A (prog # rest) = Some (Ret (Inr nd))"
    then obtain c where c: "try_parse_from M A (prog # rest) = Some c" and nd: "main_init L H c = Ret (Inr nd)"
      by (auto simp: program_start_def split: option.splits)
    from nd obtain w where w: "open_wallet L H c = Inr w" "nd = first_node c w" by (auto simp: main_init_Inr)
    have key: "cli_secret_key c = (case given os ''secret-key'' of [] \<Rightarrow> None | k # _ \<Rightarrow> Some k)"
      using c unfolding parsed by blast
    show "(case given os ''secret-key'' of
         [] \<Rightarrow> n_wallet nd = wallet_generate L (host_random H)
       | k # _ \<Rightarrow> \<exists>bs. hex_decode L k = Some bs \<and> from_secret_bytes L bs = Inr (n_wallet nd)) \<and>
      ledger_balance (n_ledger nd) (own_address nd) = parse_u64 (chosen ''1000'' (given os ''balance'')) \<and>
      (\<exists>l ps. A (chosen ''/ip4/0.0.0.0/tcp/0'' (given os ''listen'')) = Some l \<and> map A (given os ''peer'') = map Some ps \<and>
        n_effects nd = ListenOn l # map Dial ps @ (if ps = [] then [] else [KadBootstrap]))"
      using c [unfolded parsed] w(1) key
      by (auto simp: w(2) first_node_def own_address_def ledger_balance_def put_account_def ledger_new_def open_wallet_def
          try_bind_Inr_iff with_context_iff ok_or_iff split: list.splits option.splits)
  qed
qed

definition example_args :: "string list" where
  "example_args = [''-b'', ''5'', ''--peer'', ''/ip4/192.168.1.2/tcp/9001'', ''-l'', ''/ip4/127.0.0.1/tcp/9000'', ''-p'', ''/ip6/::1/tcp/9000'']"

theorem command_line_to_first_state_witness:
  "\<exists>nd. program_start ref_crates example_host ref_clap Some (''crypto-node'' # example_args) = Some (Ret (Inr nd)) \<and>
     ledger_balance (n_ledger nd) (own_address nd) = Some 5 \<and>
     n_effects nd = [ListenOn ''/ip4/127.0.0.1/tcp/9000'', Dial ''/ip4/192.168.1.2/tcp/9001'', Dial ''/ip6/::1/tcp/9000'', KadBootstrap]"
proof -
  let ?os = "[(''balance'', ''5''), (''peer'', ''/ip4/192.168.1.2/tcp/9001''), (''listen'', ''/ip4/127.0.0.1/tcp/9000''),
    (''peer'', ''/ip6/::1/tcp/9000'')]"
  have os: "option_pairs cli_args example_args = Some ?os" by code_simp
  have b: "parse_u64 ''5'' = Some 5" by (simp add: parse_u64_def digit_val_def)
  have g: "given ?os ''listen'' = [''/ip4/127.0.0.1/tcp/9000'']" "given ?os ''balance'' = [''5'']" "given ?os ''secret-key'' = []"
    "given ?os ''peer'' = [''/ip4/192.168.1.2/tcp/9001'', ''/ip6/::1/tcp/9000'']"
    by code_simp+
  let ?c = "\<lparr>cli_listen = ''/ip4/127.0.0.1/tcp/9000'', cli_peer = [''/ip4/192.168.1.2/tcp/9001'', ''/ip6/::1/tcp/9000''],
    cli_balance = 5, cli_secret_key = None\<rparr>"
  have "try_parse_from ref_clap Some (''crypto-node'' # example_args) = Some ?c"
    unfolding try_parse_from_Some_iff [OF ref_clap_ok os] g chosen_def by (simp only: list.case b cli.select_convs) simp
  moreover have "open_wallet ref_crates example_host ?c = Inr (example_wallet 7)" "network_up example_host ?c"
    by (simp_all only: open_wallet_def network_up_def cli.select_convs option.case) (simp_all add: example_host_def example_wallet_def)
  moreover have "\<exists>sw. build_swarm example_host = Ret (Inr sw)"
    by (simp add: build_swarm_def build_behaviour_def example_host_def Let_def)
  ultimately obtain nd where nd: "program_start ref_crates example_host ref_clap Some (''crypto-node'' # example_args) = Some (Ret (Inr nd))"
    by (auto simp: program_start_def main_init_Inr)
  then show ?thesis
    using command_line_to_first_state [OF ref_clap_ok os, of ref_crates example_host Some "''crypto-node''", unfolded g chosen_def]
    by (intro exI [of _ nd]) (simp only: list.case b, auto)
qed

end
