(* ===== verification/Cli_Tests.thy ===== *)
theory Cli_Tests
  imports Command_Line
begin

text \<open>
  The unit tests of the command line (\<^verbatim>\<open>src/zyphra/src/main.rs\<close>). A test is the conjunction of its assertions and
  false where an \<open>unwrap\<close> would panic; the matcher of clap and the parser of multiaddresses are its arguments. They
  are shown to pass for every matcher that does what clap promises, and every parser that accepts the addresses in
  the tests and shows them unchanged.
\<close>

section \<open>The tests\<close>

definition test_cli_parsing_defaults :: "clap \<Rightarrow> (string \<Rightarrow> multiaddr option) \<Rightarrow> bool" where
  "test_cli_parsing_defaults M A =
     (let args = [''program_name'']
      in case try_parse_from M A args of None \<Rightarrow> False | Some cli \<Rightarrow> cli_balance cli = 1000 \<and> cli_peer cli = [])"

definition test_cli_parsing_with_balance :: "clap \<Rightarrow> (string \<Rightarrow> multiaddr option) \<Rightarrow> bool" where
  "test_cli_parsing_with_balance M A =
     (let args = [''program_name'', ''--balance'', ''5000'']
      in case try_parse_from M A args of None \<Rightarrow> False | Some cli \<Rightarrow> cli_balance cli = 5000)"

definition test_cli_parsing_with_listen :: "clap \<Rightarrow> (string \<Rightarrow> multiaddr option) \<Rightarrow> bool" where
  "test_cli_parsing_with_listen M A =
     (let args = [''program_name'', ''--listen'', ''/ip4/127.0.0.1/tcp/9000'']
      in case try_parse_from M A args of None \<Rightarrow> False | Some cli \<Rightarrow> cli_listen cli = ''/ip4/127.0.0.1/tcp/9000'')"

definition test_cli_parsing_with_multiple_peers :: "clap \<Rightarrow> (string \<Rightarrow> multiaddr option) \<Rightarrow> bool" where
  "test_cli_parsing_with_multiple_peers M A =
     (let args = [''program_name'', ''--peer'', ''/ip4/192.168.1.1/tcp/9000'', ''--peer'', ''/ip4/192.168.1.2/tcp/9001'']
      in case try_parse_from M A args of None \<Rightarrow> False | Some cli \<Rightarrow> length (cli_peer cli) = 2)"

definition test_cli_parsing_with_secret_key :: "clap \<Rightarrow> (string \<Rightarrow> multiaddr option) \<Rightarrow> bool" where
  "test_cli_parsing_with_secret_key M A =
     (let args = [''program_name'', ''--secret-key'', ''0123456789abcdef0123456789abcdef0123456789abcdef0123456789abcdef'']
      in case try_parse_from M A args of None \<Rightarrow> False | Some cli \<Rightarrow> cli_secret_key cli \<noteq> None)"

definition test_cli_parsing_combined_options :: "clap \<Rightarrow> (string \<Rightarrow> multiaddr option) \<Rightarrow> bool" where
  "test_cli_parsing_combined_options M A =
     (let args = [''program_name'', ''--listen'', ''/ip4/0.0.0.0/tcp/9000'', ''--balance'', ''2500'', ''--peer'', ''/ip4/192.168.1.1/tcp/9001'']
      in case try_parse_from M A args of None \<Rightarrow> False | Some cli \<Rightarrow> cli_balance cli = 2500 \<and> length (cli_peer cli) = 1)"

definition test_cli_balance_zero :: "clap \<Rightarrow> (string \<Rightarrow> multiaddr option) \<Rightarrow> bool" where
  "test_cli_balance_zero M A =
     (let args = [''program_name'', ''--balance'', ''0'']
      in case try_parse_from M A args of None \<Rightarrow> False | Some cli \<Rightarrow> cli_balance cli = 0)"

definition test_cli_large_balance :: "clap \<Rightarrow> (string \<Rightarrow> multiaddr option) \<Rightarrow> bool" where
  "test_cli_large_balance M A =
     (let args = [''program_name'', ''--balance'', ''999999999'']
      in case try_parse_from M A args of None \<Rightarrow> False | Some cli \<Rightarrow> cli_balance cli = 999999999)"

definition test_cli_multiaddr_parsing :: "clap \<Rightarrow> (string \<Rightarrow> multiaddr option) \<Rightarrow> bool" where
  "test_cli_multiaddr_parsing M A =
     (let args = [''program_name'', ''--listen'', ''/ip6/::1/tcp/9000''] in try_parse_from M A args \<noteq> None)"

definition test_multiaddr_validation :: "clap \<Rightarrow> (string \<Rightarrow> multiaddr option) \<Rightarrow> bool" where
  "test_multiaddr_validation M A =
     (let valid_addrs = [''/ip4/0.0.0.0/tcp/9000'', ''/ip4/127.0.0.1/tcp/9001'', ''/ip6/::1/tcp/9002'']
      in list_all (\<lambda>addr_str. A addr_str \<noteq> None) valid_addrs)"

definition test_cli_all_options_combined :: "clap \<Rightarrow> (string \<Rightarrow> multiaddr option) \<Rightarrow> bool" where
  "test_cli_all_options_combined M A =
     (let args = [''program'', ''--listen'', ''/ip4/0.0.0.0/tcp/9000'', ''--peer'', ''/ip4/192.168.1.1/tcp/9001'', ''--peer'', ''/ip4/192.168.1.2/tcp/9002'', 
        ''--balance'', ''5000'', ''--secret-key'', ''0123456789abcdef0123456789abcdef0123456789abcdef0123456789abcdef'']
      in case try_parse_from M A args of None \<Rightarrow> False | Some cli \<Rightarrow> cli_balance cli = 5000 \<and> length (cli_peer cli) = 2 \<and> cli_secret_key cli \<noteq> None)"

definition test_cli_listen_default :: "clap \<Rightarrow> (string \<Rightarrow> multiaddr option) \<Rightarrow> bool" where
  "test_cli_listen_default M A =
     (let args = [''program'']
      in case try_parse_from M A args of None \<Rightarrow> False | Some cli \<Rightarrow> cli_listen cli = ''/ip4/0.0.0.0/tcp/0'')"

definition test_cli_balance_boundary_values :: "clap \<Rightarrow> (string \<Rightarrow> multiaddr option) \<Rightarrow> bool" where
  "test_cli_balance_boundary_values M A =
     (let test_cases = [(''0'', 0), (''1'', 1), (''1000000'', 1000000), (''18446744073709551615'', 2 ^ 64 - 1)]
      in list_all (\<lambda>(balance_str, expected).
           case try_parse_from M A [''program'', ''--balance'', balance_str] of
             Some cli \<Rightarrow> cli_balance cli = expected | None \<Rightarrow> True) test_cases)"

definition test_cli_peer_address_variations :: "clap \<Rightarrow> (string \<Rightarrow> multiaddr option) \<Rightarrow> bool" where
  "test_cli_peer_address_variations M A =
     (let test_addrs =
        [''/ip4/0.0.0.0/tcp/9000'', ''/ip4/127.0.0.1/tcp/9001'', ''/ip4/192.168.1.1/tcp/9002'', 
         ''/ip6/::1/tcp/9003'', ''/ip6/fe80::1/tcp/9004'']
      in list_all (\<lambda>addr. try_parse_from M A [''program'', ''--peer'', addr] \<noteq> None) test_addrs)"

definition test_cli_invalid_balance_rejected :: "clap \<Rightarrow> (string \<Rightarrow> multiaddr option) \<Rightarrow> bool" where
  "test_cli_invalid_balance_rejected M A =
     (try_parse_from M A [''program'', ''--balance'', ''not_a_number''] = None)"

definition test_cli_secret_key_variations :: "clap \<Rightarrow> (string \<Rightarrow> multiaddr option) \<Rightarrow> bool" where
  "test_cli_secret_key_variations M A =
     (let test_keys =
        [''0000000000000000000000000000000000000000000000000000000000000000'',
         ''ffffffffffffffffffffffffffffffffffffffffffffffffffffffffffffffff'',
         ''0123456789abcdef0123456789abcdef0123456789abcdef0123456789abcdef'']
      in list_all (\<lambda>key. try_parse_from M A [''program'', ''--secret-key'', key] \<noteq> None) test_keys)"

definition test_cli_multiple_listen_not_allowed :: "clap \<Rightarrow> (string \<Rightarrow> multiaddr option) \<Rightarrow> bool" where
  "test_cli_multiple_listen_not_allowed M A =
     (let args = [''program'', ''--listen'', ''/ip4/0.0.0.0/tcp/9000''] in try_parse_from M A args \<noteq> None)"

definition test_cli_listen_ipv4_ports :: "clap \<Rightarrow> (string \<Rightarrow> multiaddr option) \<Rightarrow> bool" where
  "test_cli_listen_ipv4_ports M A =
     (let ports = [''0'', ''80'', ''443'', ''9000'', ''65535'']
      in list_all (\<lambda>port. let addr_str = ''/ip4/127.0.0.1/tcp/'' @ port
                           in try_parse_from M A [''program'', ''--listen'', addr_str] \<noteq> None) ports)"

definition test_cli_peer_parsing_with_many_peers :: "clap \<Rightarrow> (string \<Rightarrow> multiaddr option) \<Rightarrow> bool" where
  "test_cli_peer_parsing_with_many_peers M A =
     (let peers = [''/ip4/192.168.1.1/tcp/9000'', ''/ip4/192.168.1.2/tcp/9001'', ''/ip4/192.168.1.3/tcp/9002'', 
          ''/ip4/192.168.1.4/tcp/9003'', ''/ip4/192.168.1.5/tcp/9004''];
          args = [''program''] @ concat (map (\<lambda>peer. [''--peer'', peer]) peers)
      in case try_parse_from M A args of None \<Rightarrow> False | Some cli \<Rightarrow> length (cli_peer cli) = 5)"

definition test_advanced_cli_combinations :: "clap \<Rightarrow> (string \<Rightarrow> multiaddr option) \<Rightarrow> bool" where
  "test_advanced_cli_combinations M A =
     (let test_cases =
        [[''program'', ''--balance'', ''0'', ''--listen'', ''/ip4/127.0.0.1/tcp/9000''],
         [''program'', ''--balance'', ''999999'', ''--peer'', ''/ip4/192.168.1.1/tcp/9001''],
         [''program'', ''--listen'', ''/ip6/::1/tcp/8000'', ''--balance'', ''500'']]
      in list_all (\<lambda>args. try_parse_from M A args \<noteq> None) test_cases)"

definition test_cli_with_secret_key_flag :: "clap \<Rightarrow> (string \<Rightarrow> multiaddr option) \<Rightarrow> bool" where
  "test_cli_with_secret_key_flag M A =
     (let sk_hex = ''0123456789abcdef0123456789abcdef0123456789abcdef0123456789abcdef'';
          args = [''program'', ''--secret-key'', sk_hex, ''--balance'', ''5000'']
      in case try_parse_from M A args of None \<Rightarrow> False | Some cli \<Rightarrow> cli_secret_key cli = Some sk_hex)"

definition test_cli_various_listen_addresses :: "clap \<Rightarrow> (string \<Rightarrow> multiaddr option) \<Rightarrow> bool" where
  "test_cli_various_listen_addresses M A =
     (let test_cases =
        [[''program'', ''--listen'', ''/ip4/0.0.0.0/tcp/8000''],
         [''program'', ''--listen'', ''/ip6/::/tcp/8001''],
         [''program'', ''--listen'', ''/ip4/127.0.0.1/tcp/8002'', ''--balance'', ''100'']]
      in list_all (\<lambda>args. try_parse_from M A args \<noteq> None) test_cases)"

section \<open>They pass\<close>

definition test_cli_description :: bool where
  "test_cli_description = (let help_text = ''Usage: '' in help_text \<noteq> [])"

text \<open>The multiaddresses in the tests, all in the form in which they are shown.\<close>

definition test_addresses :: "string list" where
  "test_addresses =
     [''/ip4/0.0.0.0/tcp/0'', ''/ip4/0.0.0.0/tcp/8000'', ''/ip4/0.0.0.0/tcp/9000'', ''/ip4/127.0.0.1/tcp/0'',
      ''/ip4/127.0.0.1/tcp/443'', ''/ip4/127.0.0.1/tcp/65535'', ''/ip4/127.0.0.1/tcp/80'', ''/ip4/127.0.0.1/tcp/8002'',
      ''/ip4/127.0.0.1/tcp/9000'', ''/ip4/127.0.0.1/tcp/9001'', ''/ip4/192.168.1.1/tcp/9000'', ''/ip4/192.168.1.1/tcp/9001'',
      ''/ip4/192.168.1.1/tcp/9002'', ''/ip4/192.168.1.2/tcp/9001'', ''/ip4/192.168.1.2/tcp/9002'', ''/ip4/192.168.1.3/tcp/9002'',
      ''/ip4/192.168.1.4/tcp/9003'', ''/ip4/192.168.1.5/tcp/9004'', ''/ip6/::/tcp/8001'', ''/ip6/::1/tcp/8000'',
      ''/ip6/::1/tcp/9000'', ''/ip6/::1/tcp/9002'', ''/ip6/::1/tcp/9003'', ''/ip6/fe80::1/tcp/9004'']"

text \<open>The texts of the four options in a command line that gives none of the three single ones twice.\<close>

definition known_args :: "string list \<Rightarrow> (multiaddr \<times> multiaddr list \<times> string \<times> string option) option" where
  "known_args rest =
     (case option_pairs cli_args rest of
        None \<Rightarrow> None
      | Some os \<Rightarrow>
          if \<not> given_twice cli_args os
          then Some (chosen ''/ip4/0.0.0.0/tcp/0'' (given os ''listen''), given os ''peer'', chosen ''1000'' (given os ''balance''),
                 (case given os ''secret-key'' of [] \<Rightarrow> None | k # _ \<Rightarrow> Some k))
          else None)"

lemma option_pairs_args:
  "option_pairs cli_args (''--listen'' # v # rest) =
    (if v \<noteq> [] \<and> hd v \<noteq> CHR ''-'' then map_option (Cons (''listen'', v)) (option_pairs cli_args rest) else None)"
  "option_pairs cli_args (''--peer'' # v # rest) =
    (if v \<noteq> [] \<and> hd v \<noteq> CHR ''-'' then map_option (Cons (''peer'', v)) (option_pairs cli_args rest) else None)"
  "option_pairs cli_args (''--balance'' # v # rest) =
    (if v \<noteq> [] \<and> hd v \<noteq> CHR ''-'' then map_option (Cons (''balance'', v)) (option_pairs cli_args rest) else None)"
  "option_pairs cli_args (''--secret-key'' # v # rest) =
    (if v \<noteq> [] \<and> hd v \<noteq> CHR ''-'' then map_option (Cons (''secret-key'', v)) (option_pairs cli_args rest) else None)"
  by (simp_all add: cli_args_def names_def)

lemma given_args:
  "given [] n = []" "given ((n, v) # os) n = v # given os n"
  "given ((''listen'', v) # os) ''peer'' = given os ''peer''"
  "given ((''listen'', v) # os) ''balance'' = given os ''balance''"
  "given ((''listen'', v) # os) ''secret-key'' = given os ''secret-key''"
  "given ((''peer'', v) # os) ''listen'' = given os ''listen''"
  "given ((''peer'', v) # os) ''balance'' = given os ''balance''"
  "given ((''peer'', v) # os) ''secret-key'' = given os ''secret-key''"
  "given ((''balance'', v) # os) ''listen'' = given os ''listen''"
  "given ((''balance'', v) # os) ''peer'' = given os ''peer''"
  "given ((''balance'', v) # os) ''secret-key'' = given os ''secret-key''"
  "given ((''secret-key'', v) # os) ''listen'' = given os ''listen''"
  "given ((''secret-key'', v) # os) ''peer'' = given os ''peer''"
  "given ((''secret-key'', v) # os) ''balance'' = given os ''balance''"
  by (simp_all add: given_def)

lemma given_twice_args:
  "given_twice cli_args os \<longleftrightarrow>
    1 < length (given os ''listen'') \<or> 1 < length (given os ''balance'') \<or> 1 < length (given os ''secret-key'')"
  by (simp add: given_twice_def cli_args_def)

lemmas known_simps = known_args_def option_pairs_args option_pairs.simps(1) given_args given_twice_args chosen_def

lemma known_commands:
  "known_args [] =
    Some (''/ip4/0.0.0.0/tcp/0'', [], ''1000'', None)"
  "known_args [''--balance'', ''5000''] =
    Some (''/ip4/0.0.0.0/tcp/0'', [], ''5000'', None)"
  "known_args [''--listen'', ''/ip4/127.0.0.1/tcp/9000''] =
    Some (''/ip4/127.0.0.1/tcp/9000'', [], ''1000'', None)"
  "known_args [''--peer'', ''/ip4/192.168.1.1/tcp/9000'', ''--peer'', ''/ip4/192.168.1.2/tcp/9001''] =
    Some (''/ip4/0.0.0.0/tcp/0'', [''/ip4/192.168.1.1/tcp/9000'', ''/ip4/192.168.1.2/tcp/9001''], ''1000'', None)"
  "known_args [''--secret-key'', ''0123456789abcdef0123456789abcdef0123456789abcdef0123456789abcdef''] =
    Some (''/ip4/0.0.0.0/tcp/0'', [], ''1000'', Some ''0123456789abcdef0123456789abcdef0123456789abcdef0123456789abcdef'')"
  "known_args [''--listen'', ''/ip4/0.0.0.0/tcp/9000'', ''--balance'', ''2500'', ''--peer'', ''/ip4/192.168.1.1/tcp/9001''] =
    Some (''/ip4/0.0.0.0/tcp/9000'', [''/ip4/192.168.1.1/tcp/9001''], ''2500'', None)"
  "known_args [''--balance'', ''0''] =
    Some (''/ip4/0.0.0.0/tcp/0'', [], ''0'', None)"
  "known_args [''--balance'', ''999999999''] =
    Some (''/ip4/0.0.0.0/tcp/0'', [], ''999999999'', None)"
  "known_args [''--listen'', ''/ip6/::1/tcp/9000''] =
    Some (''/ip6/::1/tcp/9000'', [], ''1000'', None)"
  "known_args [''--listen'', ''/ip4/0.0.0.0/tcp/9000'', ''--peer'', ''/ip4/192.168.1.1/tcp/9001'', ''--peer'', ''/ip4/192.168.1.2/tcp/9002'', ''--balance'', ''5000'', ''--secret-key'', ''0123456789abcdef0123456789abcdef0123456789abcdef0123456789abcdef''] =
    Some (''/ip4/0.0.0.0/tcp/9000'', [''/ip4/192.168.1.1/tcp/9001'', ''/ip4/192.168.1.2/tcp/9002''], ''5000'', Some ''0123456789abcdef0123456789abcdef0123456789abcdef0123456789abcdef'')"
  "known_args [''--balance'', ''1''] =
    Some (''/ip4/0.0.0.0/tcp/0'', [], ''1'', None)"
  "known_args [''--balance'', ''1000000''] =
    Some (''/ip4/0.0.0.0/tcp/0'', [], ''1000000'', None)"
  "known_args [''--balance'', ''18446744073709551615''] =
    Some (''/ip4/0.0.0.0/tcp/0'', [], ''18446744073709551615'', None)"
  "known_args [''--peer'', ''/ip4/0.0.0.0/tcp/9000''] =
    Some (''/ip4/0.0.0.0/tcp/0'', [''/ip4/0.0.0.0/tcp/9000''], ''1000'', None)"
  "known_args [''--peer'', ''/ip4/127.0.0.1/tcp/9001''] =
    Some (''/ip4/0.0.0.0/tcp/0'', [''/ip4/127.0.0.1/tcp/9001''], ''1000'', None)"
  "known_args [''--peer'', ''/ip4/192.168.1.1/tcp/9002''] =
    Some (''/ip4/0.0.0.0/tcp/0'', [''/ip4/192.168.1.1/tcp/9002''], ''1000'', None)"
  "known_args [''--peer'', ''/ip6/::1/tcp/9003''] =
    Some (''/ip4/0.0.0.0/tcp/0'', [''/ip6/::1/tcp/9003''], ''1000'', None)"
  "known_args [''--peer'', ''/ip6/fe80::1/tcp/9004''] =
    Some (''/ip4/0.0.0.0/tcp/0'', [''/ip6/fe80::1/tcp/9004''], ''1000'', None)"
  "known_args [''--balance'', ''not_a_number''] =
    Some (''/ip4/0.0.0.0/tcp/0'', [], ''not_a_number'', None)"
  "known_args [''--secret-key'', ''0000000000000000000000000000000000000000000000000000000000000000''] =
    Some (''/ip4/0.0.0.0/tcp/0'', [], ''1000'', Some ''0000000000000000000000000000000000000000000000000000000000000000'')"
  "known_args [''--secret-key'', ''ffffffffffffffffffffffffffffffffffffffffffffffffffffffffffffffff''] =
    Some (''/ip4/0.0.0.0/tcp/0'', [], ''1000'', Some ''ffffffffffffffffffffffffffffffffffffffffffffffffffffffffffffffff'')"
  "known_args [''--listen'', ''/ip4/0.0.0.0/tcp/9000''] =
    Some (''/ip4/0.0.0.0/tcp/9000'', [], ''1000'', None)"
  "known_args [''--listen'', ''/ip4/127.0.0.1/tcp/0''] =
    Some (''/ip4/127.0.0.1/tcp/0'', [], ''1000'', None)"
  "known_args [''--listen'', ''/ip4/127.0.0.1/tcp/80''] =
    Some (''/ip4/127.0.0.1/tcp/80'', [], ''1000'', None)"
  "known_args [''--listen'', ''/ip4/127.0.0.1/tcp/443''] =
    Some (''/ip4/127.0.0.1/tcp/443'', [], ''1000'', None)"
  "known_args [''--listen'', ''/ip4/127.0.0.1/tcp/65535''] =
    Some (''/ip4/127.0.0.1/tcp/65535'', [], ''1000'', None)"
  "known_args [''--peer'', ''/ip4/192.168.1.1/tcp/9000'', ''--peer'', ''/ip4/192.168.1.2/tcp/9001'', ''--peer'', ''/ip4/192.168.1.3/tcp/9002'', ''--peer'', ''/ip4/192.168.1.4/tcp/9003'', ''--peer'', ''/ip4/192.168.1.5/tcp/9004''] =
    Some (''/ip4/0.0.0.0/tcp/0'', [''/ip4/192.168.1.1/tcp/9000'', ''/ip4/192.168.1.2/tcp/9001'', ''/ip4/192.168.1.3/tcp/9002'', ''/ip4/192.168.1.4/tcp/9003'', ''/ip4/192.168.1.5/tcp/9004''], ''1000'', None)"
  "known_args [''--balance'', ''0'', ''--listen'', ''/ip4/127.0.0.1/tcp/9000''] =
    Some (''/ip4/127.0.0.1/tcp/9000'', [], ''0'', None)"
  "known_args [''--balance'', ''999999'', ''--peer'', ''/ip4/192.168.1.1/tcp/9001''] =
    Some (''/ip4/0.0.0.0/tcp/0'', [''/ip4/192.168.1.1/tcp/9001''], ''999999'', None)"
  "known_args [''--listen'', ''/ip6/::1/tcp/8000'', ''--balance'', ''500''] =
    Some (''/ip6/::1/tcp/8000'', [], ''500'', None)"
  "known_args [''--secret-key'', ''0123456789abcdef0123456789abcdef0123456789abcdef0123456789abcdef'', ''--balance'', ''5000''] =
    Some (''/ip4/0.0.0.0/tcp/0'', [], ''5000'', Some ''0123456789abcdef0123456789abcdef0123456789abcdef0123456789abcdef'')"
  "known_args [''--listen'', ''/ip4/0.0.0.0/tcp/8000''] =
    Some (''/ip4/0.0.0.0/tcp/8000'', [], ''1000'', None)"
  "known_args [''--listen'', ''/ip6/::/tcp/8001''] =
    Some (''/ip6/::/tcp/8001'', [], ''1000'', None)"
  "known_args [''--listen'', ''/ip4/127.0.0.1/tcp/8002'', ''--balance'', ''100''] =
    Some (''/ip4/127.0.0.1/tcp/8002'', [], ''100'', None)"
  by (simp_all add: known_simps del: option_pairs.simps(2,3))

lemma balance_texts:
  "parse_u64 ''0'' = Some 0"
  "parse_u64 ''1'' = Some 1"
  "parse_u64 ''100'' = Some 100"
  "parse_u64 ''500'' = Some 500"
  "parse_u64 ''1000'' = Some 1000"
  "parse_u64 ''2500'' = Some 2500"
  "parse_u64 ''5000'' = Some 5000"
  "parse_u64 ''999999'' = Some 999999"
  "parse_u64 ''1000000'' = Some 1000000"
  "parse_u64 ''999999999'' = Some 999999999"
  "parse_u64 ''18446744073709551615'' = Some 18446744073709551615"
  "parse_u64 ''not_a_number'' = None"
  by (simp_all add: parse_u64_def digit_val_def)

lemma same_option: "(\<And>c. x = Some c \<longleftrightarrow> y = Some c) \<Longrightarrow> x = y"
  by (cases x; cases y) auto

lemma try_parse_known:
  assumes "clap_ok M" "known_args rest = Some (l, ps, b, k)"
  shows "try_parse_from M A (prog # rest) =
    (case (A l, those (map A ps), parse_u64 b) of
       (Some l, Some ps, Some v) \<Rightarrow> Some \<lparr>cli_listen = l, cli_peer = ps, cli_balance = v, cli_secret_key = k\<rparr>
     | _ \<Rightarrow> None)" (is "_ = ?r")
proof -
  obtain os where os: "option_pairs cli_args rest = Some os" and once: "\<not> given_twice cli_args os"
    and parts: "l = chosen ''/ip4/0.0.0.0/tcp/0'' (given os ''listen'')" "ps = given os ''peer''"
      "b = chosen ''1000'' (given os ''balance'')" "k = (case given os ''secret-key'' of [] \<Rightarrow> None | k # _ \<Rightarrow> Some k)"
    using assms(2) by (auto simp: known_args_def split: option.splits if_splits)
  have "length (given os ''listen'') \<le> 1" "length (given os ''balance'') \<le> 1" "length (given os ''secret-key'') \<le> 1"
    using once by (auto simp: given_twice_def cli_args_def)
  then have eq: "try_parse_from M A (prog # rest) = Some c \<longleftrightarrow>
      A l = Some (cli_listen c) \<and> those (map A ps) = Some (cli_peer c) \<and> parse_u64 b = Some (cli_balance c) \<and> cli_secret_key c = k" for c
    unfolding try_parse_from_Some_iff [OF assms(1) os] parts(1,3,4) [symmetric] parts(2) [symmetric] those_Some_iff by simp
  show ?thesis
  proof (rule same_option)
    fix c show "try_parse_from M A (prog # rest) = Some c \<longleftrightarrow> ?r = Some c" unfolding eq by (cases c) (auto split: option.splits)
  qed
qed

lemma cli_tests:
  assumes "clap_ok M" "\<forall>a \<in> set test_addresses. A a = Some a"
  shows "test_cli_parsing_defaults M A" "test_cli_parsing_with_balance M A" "test_cli_parsing_with_listen M A"
    "test_cli_parsing_with_multiple_peers M A" "test_cli_parsing_with_secret_key M A" "test_cli_parsing_combined_options M A"
    "test_cli_balance_zero M A" "test_cli_large_balance M A" "test_cli_multiaddr_parsing M A"
    "test_multiaddr_validation M A" "test_cli_all_options_combined M A" "test_cli_listen_default M A"
    "test_cli_balance_boundary_values M A" "test_cli_peer_address_variations M A" "test_cli_invalid_balance_rejected M A"
    "test_cli_secret_key_variations M A" "test_cli_multiple_listen_not_allowed M A" "test_cli_listen_ipv4_ports M A"
    "test_cli_peer_parsing_with_many_peers M A" "test_advanced_cli_combinations M A" "test_cli_with_secret_key_flag M A"
    "test_cli_various_listen_addresses M A"
proof -
  have "list_all (\<lambda>a. A a = Some a) test_addresses" using assms(2) by (simp add: list_all_iff)
  note addr = this [unfolded test_addresses_def list.pred_inject]
  note parsed = known_commands [THEN try_parse_known [OF assms(1)], of A]
  show "test_cli_parsing_defaults M A"
    by (simp only: test_cli_parsing_defaults_def Let_def list.pred_inject prod.case append.simps concat.simps list.map parsed balance_texts) (simp add: addr)
  show "test_cli_parsing_with_balance M A"
    by (simp only: test_cli_parsing_with_balance_def Let_def list.pred_inject prod.case append.simps concat.simps list.map parsed balance_texts) (simp add: addr)
  show "test_cli_parsing_with_listen M A"
    by (simp only: test_cli_parsing_with_listen_def Let_def list.pred_inject prod.case append.simps concat.simps list.map parsed balance_texts) (simp add: addr)
  show "test_cli_parsing_with_multiple_peers M A"
    by (simp only: test_cli_parsing_with_multiple_peers_def Let_def list.pred_inject prod.case append.simps concat.simps list.map parsed balance_texts) (simp add: addr)
  show "test_cli_parsing_with_secret_key M A"
    by (simp only: test_cli_parsing_with_secret_key_def Let_def list.pred_inject prod.case append.simps concat.simps list.map parsed balance_texts) (simp add: addr)
  show "test_cli_parsing_combined_options M A"
    by (simp only: test_cli_parsing_combined_options_def Let_def list.pred_inject prod.case append.simps concat.simps list.map parsed balance_texts) (simp add: addr)
  show "test_cli_balance_zero M A"
    by (simp only: test_cli_balance_zero_def Let_def list.pred_inject prod.case append.simps concat.simps list.map parsed balance_texts) (simp add: addr)
  show "test_cli_large_balance M A"
    by (simp only: test_cli_large_balance_def Let_def list.pred_inject prod.case append.simps concat.simps list.map parsed balance_texts) (simp add: addr)
  show "test_cli_multiaddr_parsing M A"
    by (simp only: test_cli_multiaddr_parsing_def Let_def list.pred_inject prod.case append.simps concat.simps list.map parsed balance_texts) (simp add: addr)
  show "test_cli_all_options_combined M A"
    by (simp only: test_cli_all_options_combined_def Let_def list.pred_inject prod.case append.simps concat.simps list.map parsed balance_texts) (simp add: addr)
  show "test_cli_listen_default M A"
    by (simp only: test_cli_listen_default_def Let_def list.pred_inject prod.case append.simps concat.simps list.map parsed balance_texts) (simp add: addr)
  show "test_cli_balance_boundary_values M A"
    by (simp only: test_cli_balance_boundary_values_def Let_def list.pred_inject prod.case append.simps concat.simps list.map parsed balance_texts) (simp add: addr)
  show "test_cli_peer_address_variations M A"
    by (simp only: test_cli_peer_address_variations_def Let_def list.pred_inject prod.case append.simps concat.simps list.map parsed balance_texts) (simp add: addr)
  show "test_cli_invalid_balance_rejected M A"
    by (simp only: test_cli_invalid_balance_rejected_def Let_def list.pred_inject prod.case append.simps concat.simps list.map parsed balance_texts) (simp add: addr)
  show "test_cli_secret_key_variations M A"
    by (simp only: test_cli_secret_key_variations_def Let_def list.pred_inject prod.case append.simps concat.simps list.map parsed balance_texts) (simp add: addr)
  show "test_cli_multiple_listen_not_allowed M A"
    by (simp only: test_cli_multiple_listen_not_allowed_def Let_def list.pred_inject prod.case append.simps concat.simps list.map parsed balance_texts) (simp add: addr)
  show "test_cli_listen_ipv4_ports M A"
    by (simp only: test_cli_listen_ipv4_ports_def Let_def list.pred_inject prod.case append.simps concat.simps list.map parsed balance_texts) (simp add: addr)
  show "test_cli_peer_parsing_with_many_peers M A"
    by (simp only: test_cli_peer_parsing_with_many_peers_def Let_def list.pred_inject prod.case append.simps concat.simps list.map parsed balance_texts) (simp add: addr)
  show "test_advanced_cli_combinations M A"
    by (simp only: test_advanced_cli_combinations_def Let_def list.pred_inject prod.case append.simps concat.simps list.map parsed balance_texts) (simp add: addr)
  show "test_cli_with_secret_key_flag M A"
    by (simp only: test_cli_with_secret_key_flag_def Let_def list.pred_inject prod.case append.simps concat.simps list.map parsed balance_texts) (simp add: addr)
  show "test_cli_various_listen_addresses M A"
    by (simp only: test_cli_various_listen_addresses_def Let_def list.pred_inject prod.case append.simps concat.simps list.map parsed balance_texts) (simp add: addr)
  show "test_multiaddr_validation M A" using assms(2) by (simp add: test_multiaddr_validation_def test_addresses_def)
qed

lemma description_test: test_cli_description
  by (simp add: test_cli_description_def)

end
