(* ===== verification/Cpp_Base.thy ===== *)
theory Cpp_Base
  imports Rust_Base
begin

text \<open>
  The ground the two C++ programs stand on (\<^verbatim>\<open>src/secure_transfer.cpp\<close>, \<^verbatim>\<open>src/crypto_core.cpp\<close>), and the
  namespace \<open>Utils\<close> of the first: a process with one stream socket, operations that end with a
  value or an exception, the operating system's answers as a parameter, and the exchange of
  length-prefixed data. Output to the error stream and the decorations on standard output are left out.
\<close>

section \<open>Processes and operations\<close>

type_synonym u32 = "32 word"

datatype printed = Text string | HexDump string nat bytes

datatype sys_effect =
    Opened int
  | Unlinked string
  | Bound int string
  | Listening int
  | Accepted int
  | Connected string
  | Slept nat
  | Closed int

text \<open>
  \<open>p_in\<close> is what the peer has sent or is going to send before it closes, \<open>p_out\<close> what was handed to the
  socket; \<open>p_calls\<close> counts the calls of the operating system and of OpenSSL, whose outcomes may differ from call to call.
\<close>

record proc =
  p_calls :: nat
  p_in :: bytes
  p_out :: bytes
  p_stdout :: "printed list"
  p_sys :: "sys_effect list"

text \<open>An operation ends with a value or with an exception, of which the text is kept.\<close>

type_synonym 'a op = "proc \<Rightarrow> proc \<times> 'a result"

definition ret :: "'a \<Rightarrow> 'a op" where
  "ret x p = (p, Inr x)"

definition throw :: "string \<Rightarrow> 'a op" where
  "throw msg p = (p, Inl msg)"

definition and_then :: "'a op \<Rightarrow> ('a \<Rightarrow> 'b op) \<Rightarrow> 'b op" where
  "and_then m f p = (case m p of (q, Inl e) \<Rightarrow> (q, Inl e) | (q, Inr x) \<Rightarrow> f x q)"

definition cout :: "printed \<Rightarrow> unit op" where
  "cout t p = (p\<lparr>p_stdout := p_stdout p @ [t]\<rparr>, Inr ())"

definition sys :: "sys_effect \<Rightarrow> unit op" where
  "sys e p = (p\<lparr>p_sys := p_sys p @ [e]\<rparr>, Inr ())"

text \<open>At most 32 bytes are shown, after the number of bytes there are.\<close>

definition printHex :: "string \<Rightarrow> bytes \<Rightarrow> unit op" where
  "printHex label data = cout (HexDump label (length data) (take 32 data))"

text \<open>A printed line; the check mark and the apostrophe stand in UTF-8.\<close>

abbreviation tick :: string where "tick \<equiv> [CHR ''['', CHR 0xE2, CHR 0x9C, CHR 0x93, CHR '']'']"
abbreviation apostrophe :: string where "apostrophe \<equiv> [CHR 0x27]"
abbreviation double_quote :: string where "double_quote \<equiv> [CHR 0x22]"

definition say :: "string \<Rightarrow> unit op" where
  "say s = cout (Text s)"

text \<open>The outcome of one call, which may depend on how many there were before.\<close>

definition call :: "(nat \<Rightarrow> 'a) \<Rightarrow> 'a op" where
  "call answer p = (p\<lparr>p_calls := p_calls p + 1\<rparr>, Inr (answer (p_calls p)))"

text \<open>A call whose status must be good; otherwise \<open>handleErrors\<close> throws the message.\<close>

definition check :: "(nat \<Rightarrow> bool) \<Rightarrow> string \<Rightarrow> unit op" where
  "check status msg = and_then (call status) (\<lambda>ok. if ok then ret () else throw msg)"

text \<open>Clean-up that runs whether or not the operation throws, after which the exception goes on.\<close>

definition finally_do :: "'a op \<Rightarrow> unit op \<Rightarrow> 'a op" where
  "finally_do m cleanup p = (case m p of (q, r) \<Rightarrow> (fst (cleanup q), r))"

lemmas op_defs = ret_def throw_def and_then_def cout_def sys_def call_def check_def finally_do_def

section \<open>The operating system\<close>

text \<open>
  What the calls return, given the number of calls before: a descriptor or a negative number, zero for success, a number of
  bytes. The number \<open>recv\<close> returns depends on how much it was asked for and how much is there.
\<close>

record posix =
  os_getenv :: "string \<Rightarrow> string option"
  os_socket :: "nat \<Rightarrow> int"
  os_bind :: "string \<Rightarrow> nat \<Rightarrow> int"
  os_listen :: "nat \<Rightarrow> int"
  os_accept :: "nat \<Rightarrow> int"
  os_connect :: "string \<Rightarrow> nat \<Rightarrow> int"
  os_send :: "nat \<Rightarrow> nat \<Rightarrow> int"
  os_recv :: "nat \<Rightarrow> nat \<Rightarrow> nat \<Rightarrow> int"
  os_recv_waitall :: "nat \<Rightarrow> nat \<Rightarrow> nat \<Rightarrow> int"

text \<open>\<open>send\<close> takes a prefix of the data; \<open>recv\<close> takes a prefix of what is there.\<close>

definition os_send_bytes :: "posix \<Rightarrow> bytes \<Rightarrow> int op" where
  "os_send_bytes K data p =
     (let n = os_send K (length data) (p_calls p)
      in (p\<lparr>p_calls := p_calls p + 1, p_out := p_out p @ take (nat n) data\<rparr>, Inr n))"

definition os_recv_bytes :: "(nat \<Rightarrow> nat \<Rightarrow> nat \<Rightarrow> int) \<Rightarrow> nat \<Rightarrow> (int \<times> bytes) op" where
  "os_recv_bytes answer want p =
     (let n = answer want (length (p_in p)) (p_calls p)
      in (p\<lparr>p_calls := p_calls p + 1, p_in := drop (nat n) (p_in p)\<rparr>, Inr (n, take (nat n) (p_in p))))"

text \<open>
  The documented behaviour: a call on an open connection moves at least one byte when there is one to move and never more
  than asked for or available; \<open>MSG_WAITALL\<close> waits for all that was asked for; and a header of four
  bytes fits the buffer of the socket.
\<close>

definition socket_ok :: "posix \<Rightarrow> bool" where
  "socket_ok K \<longleftrightarrow>
     (\<forall>want k. 0 < want \<longrightarrow> 1 \<le> os_send K want k \<and> os_send K want k \<le> int want) \<and>
     (\<forall>k. os_send K 4 k = 4) \<and>
     (\<forall>want avail k. 0 < want \<and> 0 < avail \<longrightarrow>
        1 \<le> os_recv K want avail k \<and> os_recv K want avail k \<le> int (min want avail)) \<and>
     (\<forall>want k. os_recv K want 0 k = 0) \<and>
     (\<forall>want avail k. os_recv_waitall K want avail k = int (min want avail))"

section \<open>Length-prefixed data\<close>

text \<open>A 32-bit number as the processor stores it, the lowest byte first.\<close>

definition u32_bytes :: "u32 \<Rightarrow> bytes" where
  "u32_bytes n = map (\<lambda>i. of_nat (unat n div 256 ^ i)) [0..<4]"

fun bytes_nat :: "bytes \<Rightarrow> nat" where
  "bytes_nat [] = 0"
| "bytes_nat (b # bs) = unat b + 256 * bytes_nat bs"

definition bytes_u32 :: "bytes \<Rightarrow> u32" where
  "bytes_u32 bs = of_nat (bytes_nat bs)"

text \<open>The loop that sends the rest of the data.\<close>

function send_rest :: "posix \<Rightarrow> bytes \<Rightarrow> bool op" where
  "send_rest K data p =
     (if data = [] then (p, Inr True)
      else
        (case os_send_bytes K data p of
           (q, Inl e) \<Rightarrow> (q, Inl e)
         | (q, Inr n) \<Rightarrow> if n \<le> 0 then (q, Inr False) else send_rest K (drop (nat n) data) q))"
  by pat_completeness auto
termination by (relation "measure (\<lambda>(K, data, p). length data)") auto

definition sendData :: "posix \<Rightarrow> bytes \<Rightarrow> bool op" where
  "sendData K data =
     and_then (os_send_bytes K (u32_bytes (of_nat (length data))))
       (\<lambda>n. if n \<noteq> 4 then ret False else send_rest K data)"

text \<open>The loop that receives the rest of the data; what was received so far comes first.\<close>

function receive_rest :: "posix \<Rightarrow> nat \<Rightarrow> bytes \<Rightarrow> bytes op" where
  "receive_rest K want got p =
     (if want = 0 then (p, Inr got)
      else
        (case os_recv_bytes (os_recv K) want p of
           (q, Inl e) \<Rightarrow> (q, Inl e)
         | (q, Inr (n, bs)) \<Rightarrow>
             if n \<le> 0 then (q, Inl ''Failed to receive data'')
             else receive_rest K (want - nat n) (got @ bs) q))"
  by pat_completeness auto
termination by (relation "measure (\<lambda>(K, want, got, p). want)") auto

definition receiveData :: "posix \<Rightarrow> bytes op" where
  "receiveData K =
     and_then (os_recv_bytes (os_recv_waitall K) 4)
       (\<lambda>(n, bs).
          if n \<noteq> 4 then throw ''Failed to receive data length''
          else if 10 * 1024 * 1024 < bytes_u32 bs then throw ''Data size too large''
          else receive_rest K (unat (bytes_u32 bs)) [])"

text \<open>A \<open>std::string\<close> is the list of its bytes.\<close>

definition string_bytes :: "string \<Rightarrow> bytes" where
  "string_bytes s = map of_char s"

definition bytes_string :: "bytes \<Rightarrow> string" where
  "bytes_string bs = map (\<lambda>b. char_of (unat b)) bs"

definition sendString :: "posix \<Rightarrow> string \<Rightarrow> bool op" where
  "sendString K str = sendData K (string_bytes str)"

definition receiveString :: "posix \<Rightarrow> string op" where
  "receiveString K = and_then (receiveData K) (\<lambda>data. ret (bytes_string data))"

declare send_rest.simps [simp del] receive_rest.simps [simp del]

section \<open>Operations in sequence\<close>

lemma and_then_simps:
  "and_then (ret x) f = f x" "and_then (throw e) f = throw e"
  "m p = (q, Inr x) \<Longrightarrow> and_then m f p = f x q" "m p = (q, Inl e) \<Longrightarrow> and_then m f p = (q, Inl e)"
  by (simp_all add: op_defs fun_eq_iff)

lemma and_then_Inr:
  assumes "and_then m f p = (r, Inr y)"
  obtains q x where "m p = (q, Inr x)" "f x q = (r, Inr y)"
  using assms by (auto simp: and_then_def split: prod.splits sum.splits)

lemma check_eq:
  "check status msg p = (p\<lparr>p_calls := p_calls p + 1\<rparr>, if status (p_calls p) then Inr () else Inl msg)"
  by (simp add: op_defs)

section \<open>Numbers and strings as bytes\<close>

interpretation cpp_string: codec "\<lambda>_. True" string_bytes "\<lambda>bs. Some (bytes_string bs)"
proof unfold_locales
  have "char_of (unat (of_char c :: u8)) = c" for c
  proof -
    have "(of_char c :: u8) = of_nat (of_char c)" by (simp only: of_nat_of_char)
    then have "unat (of_char c :: u8) = take_bit 8 (of_char c)" by (simp add: unsigned_of_nat)
    then show ?thesis by (simp only: char_of_take_bit_eq order.refl char_of_char)
  qed
  then show "Some (bytes_string (string_bytes s)) = Some s" for s
    by (simp add: bytes_string_def string_bytes_def comp_def)
qed

lemma length_string_bytes [simp]: "length (string_bytes s) = length s" "length (bytes_string bs) = length bs"
  by (simp_all add: string_bytes_def bytes_string_def)

lemma length_u32_bytes [simp]: "length (u32_bytes n) = 4"
  by (simp add: u32_bytes_def)

interpretation u32_little_endian: codec "\<lambda>_. True" u32_bytes "\<lambda>bs. Some (bytes_u32 bs)"
proof unfold_locales
  have digits: "bytes_nat (map (\<lambda>i. of_nat (n div 256 ^ i)) [0..<k]) = n mod 256 ^ k" for n k
  proof (induction k arbitrary: n)
    case (Suc k)
    have "[0..<Suc k] = 0 # map Suc [0..<k]" by (simp only: map_Suc_upt upt_conv_Cons zero_less_Suc)
    then have "bytes_nat (map (\<lambda>i. of_nat (n div 256 ^ i)) [0..<Suc k]) =
        n mod 256 + 256 * bytes_nat (map (\<lambda>i. of_nat (n div 256 div 256 ^ i)) [0..<k])"
      by (simp only: list.map bytes_nat.simps map_map comp_def power_0 div_by_1 power_Suc div_mult2_eq unat_of_nat) simp
    then show ?case by (simp add: Suc.IH mod_mult2_eq add.commute)
  qed simp
  have "unat n mod 256 ^ 4 = unat n" for n :: u32
  proof -
    have "unat n < 2 ^ LENGTH(32)" by (rule unsigned_less)
    then show ?thesis by simp
  qed
  then show "Some (bytes_u32 (u32_bytes n)) = Some n" for n
    by (simp only: bytes_u32_def u32_bytes_def digits) simp
qed

lemma bytes_string_bytes [simp]: "bytes_string (string_bytes s) = s"
  using cpp_string.dec_enc by simp

lemma bytes_u32_bytes [simp]: "bytes_u32 (u32_bytes n) = n"
  using u32_little_endian.dec_enc by simp

section \<open>The exchange of data\<close>

text \<open>What travels for one piece of data.\<close>

definition frame :: "bytes \<Rightarrow> bytes" where
  "frame data = u32_bytes (of_nat (length data)) @ data"

definition max_data :: nat where
  "max_data = 10 * 1024 * 1024"

text \<open>A process with more calls behind it, the remaining input and the output given.\<close>

definition moved :: "nat \<Rightarrow> bytes \<Rightarrow> bytes \<Rightarrow> proc \<Rightarrow> proc" where
  "moved k inp out p = p\<lparr>p_calls := k, p_in := inp, p_out := p_out p @ out\<rparr>"

lemma moved_sel [simp]:
  "p_calls (moved k i out p) = k" "p_in (moved k i out p) = i" "p_out (moved k i out p) = p_out p @ out"
  "p_stdout (moved k i out p) = p_stdout p" "p_sys (moved k i out p) = p_sys p"
  by (simp_all add: moved_def)

lemma moved_moved [simp]: "moved k i out (moved k' i' out' p) = moved k i (out' @ out) p"
  by (simp add: moved_def)

lemma socket_okD:
  assumes "socket_ok K"
  shows "0 < want \<Longrightarrow> \<exists>n. 0 < n \<and> n \<le> want \<and> os_send K want k = int n"
    and "os_send K 4 k = 4"
    and "0 < want \<Longrightarrow> 0 < avail \<Longrightarrow> \<exists>n. 0 < n \<and> n \<le> want \<and> n \<le> avail \<and> os_recv K want avail k = int n"
    and "os_recv K want 0 k = 0"
    and "os_recv_waitall K want avail k = int (min want avail)"
proof -
  have pos: "\<exists>n. 0 < n \<and> n \<le> m \<and> i = int n" if "1 \<le> i" "i \<le> int m" for i :: int and m
    using that by (intro exI [of _ "nat i"]) auto
  show "\<exists>n. 0 < n \<and> n \<le> want \<and> os_send K want k = int n" if "0 < want"
    using assms that by (intro pos) (simp_all add: socket_ok_def)
  show "\<exists>n. 0 < n \<and> n \<le> want \<and> n \<le> avail \<and> os_recv K want avail k = int n" if "0 < want" "0 < avail"
    using pos [of "os_recv K want avail k" "min want avail"] assms that by (auto simp: socket_ok_def)
qed (use assms in \<open>simp_all add: socket_ok_def\<close>)

lemma send_rest_ok:
  assumes "socket_ok K" shows "\<exists>k. send_rest K data p = (moved k (p_in p) data p, Inr True)"
proof (induction data arbitrary: p rule: length_induct)
  case (1 data)
  show ?case
  proof (cases "data = []")
    case True
    then have "send_rest K data p = (moved (p_calls p) (p_in p) data p, Inr True)"
      by (simp add: send_rest.simps [of K "[]"] moved_def)
    then show ?thesis ..
  next
    case False
    then obtain n where n: "0 < n" "os_send K (length data) (p_calls p) = int n"
      using socket_okD(1) [OF assms, of "length data" "p_calls p"] by auto
    let ?q = "moved (p_calls p + 1) (p_in p) (take n data) p"
    have "send_rest K data p = send_rest K (drop n data) ?q"
      using False n by (subst send_rest.simps) (simp add: os_send_bytes_def Let_def moved_def)
    moreover have "length (drop n data) < length data" using False n(1) by simp
    then obtain k where "send_rest K (drop n data) ?q = (moved k (p_in ?q) (drop n data) ?q, Inr True)"
      using 1 by blast
    ultimately show ?thesis by (intro exI [of _ k]) simp
  qed
qed

lemma sendData_ok:
  assumes "socket_ok K" shows "\<exists>k. sendData K data p = (moved k (p_in p) (frame data) p, Inr True)"
proof -
  let ?h = "u32_bytes (of_nat (length data))"
  have "os_send_bytes K ?h p = (moved (p_calls p + 1) (p_in p) ?h p, Inr 4)"
    using assms by (simp add: os_send_bytes_def socket_ok_def moved_def Let_def)
  then show ?thesis
    using send_rest_ok [OF assms, of data "moved (p_calls p + 1) (p_in p) ?h p"]
    by (auto simp: sendData_def and_then_simps frame_def)
qed

lemma receive_rest_ok:
  assumes "socket_ok K" "p_in p = data @ later" "want = length data"
  shows "\<exists>k. receive_rest K want got p = (moved k later [] p, Inr (got @ data))"
  using assms(2,3)
proof (induction data arbitrary: p want got rule: length_induct)
  case (1 data)
  show ?case
  proof (cases "data = []")
    case True
    with 1 have "receive_rest K want got p = (moved (p_calls p) later [] p, Inr (got @ data))"
      by (simp add: receive_rest.simps [of K 0] moved_def)
    then show ?thesis ..
  next
    case False
    then obtain n where n: "0 < n" "n \<le> length data" "os_recv K want (length (p_in p)) (p_calls p) = int n"
      using socket_okD(3) [OF assms(1), of want "length (p_in p)" "p_calls p"] 1(2,3) by auto
    let ?q = "moved (p_calls p + 1) (drop n data @ later) [] p"
    have "receive_rest K want got p = receive_rest K (length (drop n data)) (got @ take n data) ?q"
      using False n 1 by (subst receive_rest.simps) (simp add: os_recv_bytes_def Let_def moved_def)
    moreover have "length (drop n data) < length data" using False n(1) by simp
    then obtain k where "receive_rest K (length (drop n data)) (got @ take n data) ?q =
        (moved k later [] ?q, Inr ((got @ take n data) @ drop n data))"
      using 1 by (metis moved_sel(2))
    ultimately show ?thesis by (intro exI [of _ k]) simp
  qed
qed

lemma receive_rest_truncated:
  assumes "socket_ok K" "length (p_in p) < want"
  shows "\<exists>k. receive_rest K want got p = (moved k [] [] p, Inl ''Failed to receive data'')"
  using assms(2)
proof (induction "p_in p" arbitrary: p want got rule: length_induct)
  case 1
  show ?case
  proof (cases "p_in p = []")
    case True
    with 1(2) have "receive_rest K want got p = (moved (p_calls p + 1) [] [] p, Inl ''Failed to receive data'')"
      using socket_okD(4) [OF assms(1)]
      by (subst receive_rest.simps) (simp add: os_recv_bytes_def Let_def moved_def)
    then show ?thesis by (rule exI [of _ "p_calls p + 1"])
  next
    case False
    then obtain n where n: "0 < n" "n \<le> length (p_in p)" "n \<le> want" "os_recv K want (length (p_in p)) (p_calls p) = int n"
      using socket_okD(3) [OF assms(1), of want "length (p_in p)" "p_calls p"] 1(2) by auto
    let ?q = "moved (p_calls p + 1) (drop n (p_in p)) [] p"
    have "receive_rest K want got p = receive_rest K (want - n) (got @ take n (p_in p)) ?q"
      using n 1(2) by (subst receive_rest.simps) (simp add: os_recv_bytes_def Let_def moved_def)
    moreover have "length (p_in ?q) < length (p_in p)" "length (p_in ?q) < want - n" using False n 1(2) by auto
    then obtain k where "receive_rest K (want - n) (got @ take n (p_in p)) ?q = (moved k [] [] ?q, Inl ''Failed to receive data'')"
      using 1(1) by blast
    ultimately show ?thesis by (intro exI [of _ k]) simp
  qed
qed

lemma recv_header:
  assumes "socket_ok K" "p_in p = u32_bytes h @ later"
  shows "receiveData K p =
    (if 10 * 1024 * 1024 < h then (moved (p_calls p + 1) later [] p, Inl ''Data size too large'')
     else receive_rest K (unat h) [] (moved (p_calls p + 1) later [] p))"
proof -
  have "os_recv_bytes (os_recv_waitall K) 4 p = (moved (p_calls p + 1) later [] p, Inr (4, u32_bytes h))"
    using socket_okD(5) [OF assms(1)] assms(2) by (simp add: os_recv_bytes_def Let_def moved_def)
  then show ?thesis by (simp add: receiveData_def and_then_simps throw_def)
qed

lemma recv_no_header:
  assumes "socket_ok K" "length (p_in p) < 4"
  shows "receiveData K p = (moved (p_calls p + 1) [] [] p, Inl ''Failed to receive data length'')"
  using socket_okD(5) [OF assms(1)] assms(2)
  by (simp add: receiveData_def and_then_def os_recv_bytes_def Let_def moved_def throw_def)

lemma unat_u32: "n < 2 ^ 32 \<Longrightarrow> unat (of_nat n :: u32) = n"
  by (simp add: unat_of_nat)

lemma too_large_iff: "n < 2 ^ 32 \<Longrightarrow> 10 * 1024 * 1024 < (of_nat n :: u32) \<longleftrightarrow> max_data < n"
  by (simp add: word_less_nat_alt unat_u32 max_data_def)

lemma receiveData_ok:
  assumes "socket_ok K" "p_in p = frame data @ later" "length data \<le> max_data"
  shows "\<exists>k. receiveData K p = (moved k later [] p, Inr data)"
proof -
  have n: "length data < 2 ^ 32" using assms(3) by (simp add: max_data_def)
  have "p_in p = u32_bytes (of_nat (length data)) @ data @ later" using assms(2) by (simp add: frame_def)
  from recv_header [OF assms(1) this]
    receive_rest_ok [OF assms(1), of "moved (p_calls p + 1) (data @ later) [] p" data later "length data" "[]"]
  show ?thesis using too_large_iff [OF n] unat_u32 [OF n] assms(3) by auto
qed

section \<open>Properties\<close>

lemma receive_frame:
  assumes "socket_ok K" "p_in p = frame data @ later"
  defines "m \<equiv> length data mod 2 ^ 32"
  shows "\<exists>k. receiveData K p =
    (if m \<le> max_data then (moved k (drop m data @ later) [] p, Inr (take m data))
     else (moved k (data @ later) [] p, Inl ''Data size too large''))"
proof -
  have m: "m < 2 ^ 32" "(of_nat (length data) :: u32) = of_nat m"
    by (simp_all add: m_def word_unat_eq_iff unat_of_nat)
  have "m \<le> length data" by (simp add: m_def)
  have "p_in p = u32_bytes (of_nat m) @ data @ later" using assms(2) m(2) by (simp add: frame_def)
  note header = recv_header [OF assms(1) this]
  have "data @ later = take m data @ drop m data @ later" by simp
  from receive_rest_ok [OF assms(1), of "moved (p_calls p + 1) (data @ later) [] p" "take m data" "drop m data @ later" m "[]"]
  obtain k where "receive_rest K m [] (moved (p_calls p + 1) (data @ later) [] p) =
      (moved k (drop m data @ later) [] p, Inr (take m data))"
    using \<open>m \<le> length data\<close> by (auto simp: min_absorb2)
  with header show ?thesis using too_large_iff [OF m(1)] unat_u32 [OF m(1)] by (cases "m \<le> max_data") auto
qed

text \<open>
  C35: Sending and receiving length-prefixed data, in whatever portions the two operating systems move the bytes. The sender always
  reports success and the stream has grown by the length and the data. The receiver gets exactly the data and leaves the
  stream at its end when the data has at most 10 MB; beyond that it refuses what the sender reported as
  sent; and from 4 GB on the length is taken modulo 2 to the 32, so that it may take a mere beginning of the data for the whole.
\<close>

theorem framing_roundtrip:
  assumes "socket_ok K" "socket_ok K'"
  shows "\<exists>p'. sendData K data p = (p', Inr True) \<and> p_out p' = p_out p @ frame data \<and> p_in p' = p_in p \<and>
    (\<forall>q later. p_in q = frame data @ later \<longrightarrow>
      (\<exists>q'. (let m = length data mod 2 ^ 32 in
         receiveData K' q = (q', if m \<le> max_data then Inr (take m data) else Inl ''Data size too large'') \<and>
         p_out q' = p_out q \<and> (length data \<le> max_data \<longrightarrow> m = length data \<and> p_in q' = later))))"
proof -
  have small: "length data mod 2 ^ 32 = length data" if "length data \<le> max_data"
    using that by (simp add: max_data_def)
  obtain k where k: "sendData K data p = (moved k (p_in p) (frame data) p, Inr True)" using sendData_ok [OF assms(1)] by blast
  have "\<exists>q'. (let m = length data mod 2 ^ 32 in
         receiveData K' q = (q', if m \<le> max_data then Inr (take m data) else Inl ''Data size too large'') \<and>
         p_out q' = p_out q \<and> (length data \<le> max_data \<longrightarrow> m = length data \<and> p_in q' = later))"
    if q: "p_in q = frame data @ later" for q later
    using receive_frame [OF assms(2) q] small by (auto simp: Let_def)
  with k show ?thesis by auto
qed

text \<open>
  C36: A stream that ends early is never mistaken for data: when the peer closes anywhere inside a frame of at most 10 MB of data, be it in
  the length or in the data, receiving throws, whatever the portions in which the bytes arrive.
\<close>

theorem truncated_stream_rejected:
  assumes "socket_ok K" "length data \<le> max_data" "n < length (frame data)" "p_in p = take n (frame data)"
  shows "\<exists>p' e. receiveData K p = (p', Inl e) \<and> e \<in> {''Failed to receive data length'', ''Failed to receive data''} \<and>
    p_in p' = [] \<and> p_out p' = p_out p"
proof (cases "n < 4")
  case True
  then have "length (p_in p) < 4" using assms(4) by (simp add: frame_def)
  from recv_no_header [OF assms(1) this] show ?thesis by simp
next
  case False
  have m: "length data < 2 ^ 32" using assms(2) by (simp add: max_data_def)
  have "p_in p = u32_bytes (of_nat (length data)) @ take (n - 4) data" using assms(4) False by (simp add: frame_def)
  note header = recv_header [OF assms(1) this]
  have "n - 4 < length data" using assms(3) False by (auto simp: frame_def)
  with receive_rest_truncated [OF assms(1), of "moved (p_calls p + 1) (take (n - 4) data) [] p" "length data" "[]"]
  obtain k where "receive_rest K (length data) [] (moved (p_calls p + 1) (take (n - 4) data) [] p) =
      (moved k [] [] p, Inl ''Failed to receive data'')"
    by auto
  with header show ?thesis using too_large_iff [OF m] unat_u32 [OF m] assms(2) by auto
qed

section \<open>Instances\<close>

text \<open>An operating system that sends three bytes at a time and delivers two.\<close>

definition example_os :: posix where
  "example_os =
     \<lparr>os_getenv = (\<lambda>_. None), os_socket = (\<lambda>k. 3), os_bind = (\<lambda>_ _. 0), os_listen = (\<lambda>_. 0), os_accept = (\<lambda>_. 4),
      os_connect = (\<lambda>_ _. 0),
      os_send = (\<lambda>want k. if want = 4 then 4 else int (min want 3)),
      os_recv = (\<lambda>want avail k. int (min 2 (min want avail))),
      os_recv_waitall = (\<lambda>want avail k. int (min want avail))\<rparr>"

definition example_proc :: "bytes \<Rightarrow> proc" where
  "example_proc input = \<lparr>p_calls = 0, p_in = input, p_out = [], p_stdout = [], p_sys = []\<rparr>"

lemma example_os_ok: "socket_ok example_os"
  by (auto simp: socket_ok_def example_os_def)

lemma example_frame: "frame [1, 2, 3, 4, 5, 6, 7] = [7, 0, 0, 0, 1, 2, 3, 4, 5, 6, 7]"
  by (simp add: frame_def u32_bytes_def upt_rec)

lemma example_proc_sel [simp]: "p_in (example_proc i) = i" "p_out (example_proc i) = []" "p_calls (example_proc i) = 0"
  by (simp_all add: example_proc_def)

theorem framing_roundtrip_witness:
  "\<exists>p'. sendData example_os [1, 2, 3, 4, 5, 6, 7] (example_proc []) = (p', Inr True) \<and>
     p_out p' = [7, 0, 0, 0, 1, 2, 3, 4, 5, 6, 7] \<and>
     (\<exists>q'. receiveData example_os (example_proc (p_out p')) = (q', Inr [1, 2, 3, 4, 5, 6, 7]))"
proof -
  let ?d = "[1, 2, 3, 4, 5, 6, 7] :: bytes"
  obtain p' where p': "sendData example_os ?d (example_proc []) = (p', Inr True)" "p_out p' = frame ?d"
    and recv: "\<forall>q later. p_in q = frame ?d @ later \<longrightarrow> (\<exists>q'. receiveData example_os q = (q', Inr ?d) \<and>
      p_out q' = p_out q \<and> p_in q' = later)"
    using framing_roundtrip [OF example_os_ok example_os_ok, of ?d "example_proc []"]
    by (auto simp: Let_def max_data_def)
  from recv [rule_format, of "example_proc (p_out p')" "[]"] p' show ?thesis by (auto simp: example_frame)
qed

theorem truncated_stream_rejected_witness:
  "\<exists>p' e. receiveData example_os (example_proc [7, 0, 0, 0, 1, 2]) = (p', Inl e)"
proof -
  have "length [1, 2, 3, 4, 5, 6, 7 :: u8] \<le> max_data" by (simp add: max_data_def)
  from truncated_stream_rejected [OF example_os_ok this, of 6 "example_proc [7, 0, 0, 0, 1, 2]"] show ?thesis
    by (simp add: example_frame) blast
qed

end
