(* ===== verification/Cpp_Crypto.thy ===== *)
theory Cpp_Crypto
  imports Cpp_Base
begin

text \<open>
  The classes \<open>AESCrypto\<close> and \<open>ECCCrypto\<close> of \<^verbatim>\<open>src/secure_transfer.cpp\<close>. OpenSSL is the record \<open>openssl\<close>: whether a
  call succeeds (which may depend on the number of calls before), the random bytes it gives and the functions it
  computes; \<open>ssl_ok\<close> states its documented behaviour. No secrecy or unforgeability is assumed.
\<close>

section \<open>OpenSSL\<close>

text \<open>A private and a public key are opaque values.\<close>

datatype private_key = PrivateKey bytes
datatype public_key = PublicKey bytes

datatype ssl_call =
    RandBytes
  | CipherCtxNew
  | EncryptInit
  | SetIvLen
  | EncryptKeyIv
  | EncryptUpdate
  | EncryptFinal
  | GetTag
  | DecryptInit
  | DecryptKeyIv
  | DecryptUpdate
  | SetTag
  | DecryptFinal
  | ParamCtxNew
  | ParamgenInit
  | SetCurve
  | Paramgen
  | KeyCtxNew
  | KeygenInit
  | Keygen
  | PkeyNew
  | Get1EcKey
  | BioNew
  | PemWrite
  | DeriveCtxNew
  | DeriveInit
  | SetPeer public_key
  | DeriveLength
  | Derive

record openssl =
  ssl_status :: "ssl_call \<Rightarrow> nat \<Rightarrow> bool"
  ssl_rand :: "nat \<Rightarrow> nat \<Rightarrow> bytes"
  ssl_keygen :: "nat \<Rightarrow> private_key"
  ec_public :: "private_key \<Rightarrow> public_key"
  pem_write :: "public_key \<Rightarrow> string"
  pem_read :: "string \<Rightarrow> public_key option"
  ecdh :: "private_key \<Rightarrow> public_key \<Rightarrow> bytes"
  gcm_encrypt :: "bytes \<Rightarrow> bytes \<Rightarrow> bytes \<Rightarrow> bytes"
  gcm_decrypt :: "bytes \<Rightarrow> bytes \<Rightarrow> bytes \<Rightarrow> bytes"
  gcm_tag :: "bytes \<Rightarrow> bytes \<Rightarrow> bytes \<Rightarrow> bytes"

abbreviation KEY_SIZE :: nat where "KEY_SIZE \<equiv> 32"
abbreviation IV_SIZE :: nat where "IV_SIZE \<equiv> 12"
abbreviation TAG_SIZE :: nat where "TAG_SIZE \<equiv> 16"

text \<open>
  The documented behaviour: sizes; decryption inverts encryption under the same key and initialisation vector; a public key written as PEM
  reads back and is a short text; both sides of a key agreement compute the same P-256 secret of 32 bytes.
\<close>

definition ssl_ok :: "openssl \<Rightarrow> bool" where
  "ssl_ok S \<longleftrightarrow>
     (\<forall>n k. length (ssl_rand S n k) = n) \<and>
     (\<forall>key iv m. gcm_decrypt S key iv (gcm_encrypt S key iv m) = m) \<and>
     (\<forall>key iv m. length (gcm_encrypt S key iv m) = length m) \<and>
     (\<forall>key iv c. length (gcm_tag S key iv c) = TAG_SIZE) \<and>
     (\<forall>k. pem_read S (pem_write S (ec_public S k)) = Some (ec_public S k)) \<and>
     (\<forall>k. length (pem_write S (ec_public S k)) < 1024) \<and>
     (\<forall>a b. ecdh S a (ec_public S b) = ecdh S b (ec_public S a)) \<and>
     (\<forall>a b. length (ecdh S a (ec_public S b)) = KEY_SIZE)"

text \<open>Nothing runs out: every call succeeds, except that a foreign public key may be refused.\<close>

definition ssl_up :: "openssl \<Rightarrow> bool" where
  "ssl_up S \<longleftrightarrow>
     (\<forall>c k. (case c of SetPeer P \<Rightarrow> (\<exists>a. P = ec_public S a) | _ \<Rightarrow> True) \<longrightarrow> ssl_status S c k)"

section \<open>AESCrypto\<close>

definition rand_bytes :: "openssl \<Rightarrow> nat \<Rightarrow> string \<Rightarrow> bytes op" where
  "rand_bytes S n msg p =
     and_then (check (ssl_status S RandBytes) msg) (\<lambda>_. ret (ssl_rand S n (p_calls p))) p"

definition generateKey :: "openssl \<Rightarrow> bytes op" where
  "generateKey S = rand_bytes S KEY_SIZE ''Failed to generate AES key''"

definition aes_encrypt :: "openssl \<Rightarrow> bytes \<Rightarrow> bytes \<Rightarrow> bytes op" where
  "aes_encrypt S plaintext key =
     and_then (rand_bytes S IV_SIZE ''Failed to generate IV'') (\<lambda>iv.
     and_then (check (ssl_status S CipherCtxNew) ''Failed to create cipher context'') (\<lambda>_.
     and_then (check (ssl_status S EncryptInit) ''Failed to initialize encryption'') (\<lambda>_.
     and_then (check (ssl_status S SetIvLen) ''Failed to set IV length'') (\<lambda>_.
     and_then (check (ssl_status S EncryptKeyIv) ''Failed to set key and IV'') (\<lambda>_.
     and_then (check (ssl_status S EncryptUpdate) ''Encryption failed'') (\<lambda>_.
     and_then (check (ssl_status S EncryptFinal) ''Encryption finalization failed'') (\<lambda>_.
     and_then (check (ssl_status S GetTag) ''Failed to get authentication tag'') (\<lambda>_.
     (let ciphertext = gcm_encrypt S key iv plaintext; tag = gcm_tag S key iv ciphertext
      in ret (iv @ ciphertext @ tag))))))))))"

text \<open>The last argument is the text of the exception for a tag that does not match, in which the programs differ.\<close>

definition aes_decrypt :: "openssl \<Rightarrow> string \<Rightarrow> bytes \<Rightarrow> bytes \<Rightarrow> bytes op" where
  "aes_decrypt S mismatch encrypted_data key =
     (if length encrypted_data < IV_SIZE + TAG_SIZE then throw ''Encrypted data too small''
      else
        (let n = length encrypted_data;
             iv = take IV_SIZE encrypted_data;
             tag = drop (n - TAG_SIZE) encrypted_data;
             ciphertext = drop IV_SIZE (take (n - TAG_SIZE) encrypted_data)
         in
         and_then (check (ssl_status S CipherCtxNew) ''Failed to create cipher context'') (\<lambda>_.
         and_then (check (ssl_status S DecryptInit) ''Failed to initialize decryption'') (\<lambda>_.
         and_then (check (ssl_status S SetIvLen) ''Failed to set IV length'') (\<lambda>_.
         and_then (check (ssl_status S DecryptKeyIv) ''Failed to set key and IV'') (\<lambda>_.
         and_then (check (ssl_status S DecryptUpdate) ''Decryption failed'') (\<lambda>_.
         and_then (check (ssl_status S SetTag) ''Failed to set authentication tag'') (\<lambda>_.
         and_then (check (\<lambda>k. ssl_status S DecryptFinal k \<and> tag = gcm_tag S key iv ciphertext) mismatch) (\<lambda>_.
         ret (gcm_decrypt S key iv ciphertext))))))))))"

definition tampered_text :: string where
  "tampered_text = ''Authentication failed: data has been tampered!''"

section \<open>ECCCrypto\<close>

record ecc =
  privateKey :: "private_key option"
  publicKey :: "public_key option"

definition ecc_new :: ecc where
  "ecc_new = \<lparr>privateKey = None, publicKey = None\<rparr>"

text \<open>The new state of the object; when a call fails the exception ends the life of the object as well.\<close>

definition generateKeyPair :: "openssl \<Rightarrow> ecc \<Rightarrow> ecc op" where
  "generateKeyPair S e =
     and_then (check (ssl_status S ParamCtxNew) ''Failed to create parameter context'') (\<lambda>_.
     and_then (check (ssl_status S ParamgenInit) ''Failed to initialize paramgen'') (\<lambda>_.
     and_then (check (ssl_status S SetCurve) ''Failed to set curve'') (\<lambda>_.
     and_then (check (ssl_status S Paramgen) ''Failed to generate parameters'') (\<lambda>_.
     and_then (check (ssl_status S KeyCtxNew) ''Failed to create key context'') (\<lambda>_.
     and_then (check (ssl_status S KeygenInit) ''Failed to initialize keygen'') (\<lambda>_.
     and_then (call (\<lambda>k. if ssl_status S Keygen k then Some (ssl_keygen S k) else None)) (\<lambda>r.
     case r of
       None \<Rightarrow> throw ''Failed to generate key pair''
     | Some priv \<Rightarrow>
         and_then (check (ssl_status S PkeyNew) ''Failed to create public key'') (\<lambda>_.
         and_then (check (ssl_status S Get1EcKey) ''Failed to get EC_KEY'') (\<lambda>_.
         ret (e\<lparr>privateKey := Some priv, publicKey := Some (ec_public S priv)\<rparr>))))))))))"

definition exportPublicKey :: "openssl \<Rightarrow> ecc \<Rightarrow> string op" where
  "exportPublicKey S e =
     and_then (check (ssl_status S BioNew) ''Failed to create BIO'') (\<lambda>_.
     case publicKey e of
       None \<Rightarrow> throw ''Failed to write public key''
     | Some P \<Rightarrow>
         and_then (check (ssl_status S PemWrite) ''Failed to write public key'') (\<lambda>_. ret (pem_write S P)))"

definition importPublicKey :: "openssl \<Rightarrow> string \<Rightarrow> public_key op" where
  "importPublicKey S pem =
     and_then (check (ssl_status S BioNew) ''Failed to create BIO'') (\<lambda>_.
     case pem_read S pem of
       None \<Rightarrow> throw ''Failed to read public key''
     | Some P \<Rightarrow> ret P)"

definition deriveSharedSecret :: "openssl \<Rightarrow> ecc \<Rightarrow> public_key \<Rightarrow> bytes op" where
  "deriveSharedSecret S e peer =
     (case privateKey e of
        None \<Rightarrow> throw ''Failed to create derivation context''
      | Some priv \<Rightarrow>
          and_then (check (ssl_status S DeriveCtxNew) ''Failed to create derivation context'') (\<lambda>_.
          and_then (check (ssl_status S DeriveInit) ''Failed to initialize key derivation'') (\<lambda>_.
          and_then (check (ssl_status S (SetPeer peer)) ''Failed to set peer public key'') (\<lambda>_.
          and_then (check (ssl_status S DeriveLength) ''Failed to determine secret length'') (\<lambda>_.
          and_then (check (ssl_status S Derive) ''Failed to derive shared secret'') (\<lambda>_.
          ret (ecdh S priv peer)))))))"

section \<open>What the classes do when OpenSSL works\<close>

text \<open>A process that has made calls and nothing else.\<close>

definition ticked :: "nat \<Rightarrow> proc \<Rightarrow> proc" where
  "ticked k p = p\<lparr>p_calls := k\<rparr>"

lemma ticked_sel [simp]:
  "p_calls (ticked k p) = k" "p_in (ticked k p) = p_in p" "p_out (ticked k p) = p_out p"
  "p_stdout (ticked k p) = p_stdout p" "p_sys (ticked k p) = p_sys p"
  by (simp_all add: ticked_def)

lemma ticked_ticked [simp]: "ticked k (ticked k' p) = ticked k p"
  by (simp add: ticked_def)

text \<open>Initialisation vector, ciphertext and tag as they are sent.\<close>

definition seal :: "openssl \<Rightarrow> bytes \<Rightarrow> bytes \<Rightarrow> bytes \<Rightarrow> bytes" where
  "seal S key iv m = iv @ gcm_encrypt S key iv m @ gcm_tag S key iv (gcm_encrypt S key iv m)"

lemma ssl_okD:
  assumes "ssl_ok S"
  shows "length (ssl_rand S n k) = n" "gcm_decrypt S key iv (gcm_encrypt S key iv m) = m"
    "length (gcm_encrypt S key iv m) = length m" "length (gcm_tag S key iv c) = TAG_SIZE"
    "pem_read S (pem_write S (ec_public S a)) = Some (ec_public S a)"
    "ecdh S a (ec_public S b) = ecdh S b (ec_public S a)" "length (ecdh S a (ec_public S b)) = KEY_SIZE"
    "length (pem_write S (ec_public S a)) < 1024"
  using assms by (simp_all add: ssl_ok_def)

lemma ssl_upD:
  assumes "ssl_up S"
  shows "(\<forall>P. c \<noteq> SetPeer P) \<Longrightarrow> ssl_status S c k" "ssl_status S (SetPeer (ec_public S a)) k"
proof -
  show "ssl_status S c k" if "\<forall>P. c \<noteq> SetPeer P"
  proof -
    have "case c of SetPeer P \<Rightarrow> (\<exists>a. P = ec_public S a) | _ \<Rightarrow> True" using that by (simp split: ssl_call.split)
    then show ?thesis using assms by (simp only: ssl_up_def)
  qed
  have "case SetPeer (ec_public S a) of SetPeer P \<Rightarrow> (\<exists>a. P = ec_public S a) | _ \<Rightarrow> True" by auto
  then show "ssl_status S (SetPeer (ec_public S a)) k" using assms by (simp only: ssl_up_def)
qed

lemma check_step:
  "status (p_calls p) \<Longrightarrow> and_then (check status msg) f p = f () (ticked (Suc (p_calls p)) p)"
  "\<not> status (p_calls p) \<Longrightarrow> and_then (check status msg) f p = (ticked (Suc (p_calls p)) p, Inl msg)"
  by (simp_all add: op_defs ticked_def)

lemma check_up:
  "ssl_up S \<Longrightarrow> (\<forall>P. c \<noteq> SetPeer P) \<Longrightarrow>
   and_then (check (ssl_status S c) msg) f p = f () (ticked (Suc (p_calls p)) p)"
  using ssl_upD(1) by (intro check_step(1)) blast

lemma aes_encrypt_up:
  assumes "ssl_up S"
  shows "aes_encrypt S m key p = (ticked (p_calls p + 8) p, Inr (seal S key (ssl_rand S IV_SIZE (p_calls p)) m))"
proof -
  have "rand_bytes S IV_SIZE ''Failed to generate IV'' p =
      (ticked (Suc (p_calls p)) p, Inr (ssl_rand S IV_SIZE (p_calls p)))"
    by (simp add: rand_bytes_def check_up [OF assms] ret_def)
  then show ?thesis
    by (simp add: aes_encrypt_def and_then_simps(3) check_up [OF assms] ret_def seal_def Let_def numeral_eq_Suc)
qed

text \<open>The three parts of received data.\<close>

definition data_iv :: "bytes \<Rightarrow> bytes" where
  "data_iv d = take IV_SIZE d"

definition data_tag :: "bytes \<Rightarrow> bytes" where
  "data_tag d = drop (length d - TAG_SIZE) d"

definition data_cipher :: "bytes \<Rightarrow> bytes" where
  "data_cipher d = drop IV_SIZE (take (length d - TAG_SIZE) d)"

lemma data_parts:
  "IV_SIZE + TAG_SIZE \<le> length d \<Longrightarrow>
   d = data_iv d @ data_cipher d @ data_tag d \<and> length (data_iv d) = IV_SIZE \<and> length (data_tag d) = TAG_SIZE"
proof -
  assume len: "IV_SIZE + TAG_SIZE \<le> length d"
  have "d = take (length d - TAG_SIZE) d @ data_tag d" by (simp add: data_tag_def)
  also have "take (length d - TAG_SIZE) d = data_iv d @ data_cipher d"
    using len append_take_drop_id [of IV_SIZE "take (length d - TAG_SIZE) d"]
    by (simp add: data_iv_def data_cipher_def min_absorb1)
  finally show ?thesis using len by (simp add: data_iv_def data_tag_def)
qed

lemma parts_of_append:
  assumes "length iv = IV_SIZE" "length tag = TAG_SIZE"
  shows "data_iv (iv @ c @ tag) = iv" "data_cipher (iv @ c @ tag) = c" "data_tag (iv @ c @ tag) = tag"
  using assms by (simp_all add: data_iv_def data_cipher_def data_tag_def)

lemma aes_decrypt_up:
  assumes "ssl_up S"
  shows "\<exists>k. aes_decrypt S t d key p =
    (ticked k p,
     if length d < IV_SIZE + TAG_SIZE then Inl ''Encrypted data too small''
     else if data_tag d = gcm_tag S key (data_iv d) (data_cipher d) then Inr (gcm_decrypt S key (data_iv d) (data_cipher d))
     else Inl t)"
proof (cases "length d < IV_SIZE + TAG_SIZE")
  case True
  then have "aes_decrypt S t d key p = (ticked (p_calls p) p, Inl ''Encrypted data too small'')"
    by (simp add: aes_decrypt_def throw_def ticked_def)
  with True show ?thesis by (intro exI [of _ "p_calls p"]) simp
next
  case False
  have final: "ssl_status S DecryptFinal k" for k using ssl_upD(1) [OF assms] by simp
  from False have "aes_decrypt S t d key p =
    (ticked (p_calls p + 7) p,
     if data_tag d = gcm_tag S key (data_iv d) (data_cipher d) then Inr (gcm_decrypt S key (data_iv d) (data_cipher d))
     else Inl t)"
    by (simp add: aes_decrypt_def Let_def check_up [OF assms] final flip: data_iv_def data_cipher_def data_tag_def)
      (simp add: check_step ret_def numeral_eq_Suc)
  with False show ?thesis by auto
qed

lemma aes_decrypt_seal:
  assumes "ssl_ok S" "ssl_up S" "length iv = IV_SIZE"
  shows "\<exists>k. aes_decrypt S t (seal S key iv m) key p = (ticked k p, Inr m)"
proof -
  note ok = ssl_okD [OF assms(1)]
  have "\<not> length (seal S key iv m) < IV_SIZE + TAG_SIZE" using assms(3) ok(4) by (simp add: seal_def)
  with aes_decrypt_up [OF assms(2), of t "seal S key iv m" key p] show ?thesis
    using assms(3) ok(2,4) by (simp add: seal_def parts_of_append)
qed

lemma generateKeyPair_calls:
  assumes "ssl_up S"
  shows "generateKeyPair S e p = (ticked (p_calls p + 9) p,
    Inr (e\<lparr>privateKey := Some (ssl_keygen S (p_calls p + 6)), publicKey := Some (ec_public S (ssl_keygen S (p_calls p + 6)))\<rparr>))"
proof -
  have keygen: "ssl_status S Keygen k" for k using ssl_upD(1) [OF assms] by simp
  show ?thesis
    by (simp add: generateKeyPair_def check_up [OF assms] and_then_def [of "call _"] call_def keygen)
      (simp add: check_up [OF assms] ret_def ticked_def numeral_eq_Suc)
qed

lemma generateKeyPair_up:
  assumes "ssl_up S"
  shows "\<exists>k. generateKeyPair S e p = (ticked k p,
    Inr \<lparr>privateKey = Some (ssl_keygen S (p_calls p + 6)), publicKey = Some (ec_public S (ssl_keygen S (p_calls p + 6)))\<rparr>)"
  using generateKeyPair_calls [OF assms] by auto

lemma exportPublicKey_up:
  assumes "ssl_up S" "publicKey e = Some P"
  shows "\<exists>k. exportPublicKey S e p = (ticked k p, Inr (pem_write S P))"
  by (simp add: exportPublicKey_def check_up [OF assms(1)] assms(2) ret_def) blast

lemma importPublicKey_up:
  assumes "ssl_up S"
  shows "\<exists>k. importPublicKey S pem p =
    (ticked k p, case pem_read S pem of None \<Rightarrow> Inl ''Failed to read public key'' | Some P \<Rightarrow> Inr P)"
  by (auto simp: importPublicKey_def check_up [OF assms(1)] ret_def throw_def split: option.split)

lemma deriveSharedSecret_up:
  assumes "ssl_up S" "privateKey e = Some a"
  shows "\<exists>k. deriveSharedSecret S e (ec_public S b) p = (ticked k p, Inr (ecdh S a (ec_public S b)))"
  by (simp add: deriveSharedSecret_def check_up [OF assms(1)] assms(2) check_step(1) ssl_upD(2) [OF assms(1)] ret_def) blast

section \<open>What a process has done\<close>

text \<open>Calls made, input left, output and lines added.\<close>

definition went :: "nat \<Rightarrow> bytes \<Rightarrow> bytes \<Rightarrow> printed list \<Rightarrow> proc \<Rightarrow> proc" where
  "went k i out ls p = p\<lparr>p_calls := k, p_in := i, p_out := p_out p @ out, p_stdout := p_stdout p @ ls\<rparr>"

lemma went_sel [simp]:
  "p_calls (went k i out ls p) = k" "p_in (went k i out ls p) = i" "p_out (went k i out ls p) = p_out p @ out"
  "p_stdout (went k i out ls p) = p_stdout p @ ls" "p_sys (went k i out ls p) = p_sys p"
  by (simp_all add: went_def)

lemma went_went [simp]: "went k i out ls (went k' i' out' ls' p) = went k i (out' @ out) (ls' @ ls) p"
  by (simp add: went_def)

lemma went_forms: "moved k i out p = went k i out [] p" "ticked k p = went k (p_in p) [] [] p"
  by (simp_all add: went_def moved_def ticked_def)

lemma say_then [simp]: "and_then (say s) f p = f () (went (p_calls p) (p_in p) [] [Text s] p)"
  by (simp add: say_def cout_def and_then_def went_def)

lemma say_eq: "say s p = (went (p_calls p) (p_in p) [] [Text s] p, Inr ())"
  by (simp add: say_def cout_def went_def)

lemma printHex_then [simp]:
  "and_then (printHex l d) f p = f () (went (p_calls p) (p_in p) [] [HexDump l (length d) (take 32 d)] p)"
  by (simp add: printHex_def cout_def and_then_def went_def)

text \<open>An operation that returns, having gone on as given; the lines it printed include the given ones.\<close>

definition goes :: "'a op \<Rightarrow> proc \<Rightarrow> 'a \<Rightarrow> bytes \<Rightarrow> bytes \<Rightarrow> printed set \<Rightarrow> bool" where
  "goes m p x i out L \<longleftrightarrow> (\<exists>k ls. m p = (went k i out ls p, Inr x) \<and> L \<subseteq> set ls)"

lemma goes_then:
  assumes "goes m p x i out L" "\<And>k ls. goes (f x) (went k i out ls p) y i' out' L'"
  shows "goes (and_then m f) p y i' (out @ out') (L \<union> L')"
proof -
  obtain k ls where m: "m p = (went k i out ls p, Inr x)" "L \<subseteq> set ls" using assms(1) by (auto simp: goes_def)
  obtain k' ls' where f: "f x (went k i out ls p) = (went k' i' out' ls' (went k i out ls p), Inr y)" "L' \<subseteq> set ls'"
    using assms(2) unfolding goes_def by blast
  have "and_then m f p = (went k' i' (out @ out') (ls @ ls') p, Inr y)" using m(1) f(1) by (simp add: and_then_simps(3))
  moreover have "L \<union> L' \<subseteq> set (ls @ ls')" using m(2) f(2) by auto
  ultimately show ?thesis unfolding goes_def by blast
qed

lemma goes_then_ex:
  assumes "goes m p x i out L" "\<And>k ls. \<exists>v. Q v \<and> goes (f x) (went k i out ls p) (y v) i' (out' v) (L' v)"
  shows "\<exists>v. Q v \<and> goes (and_then m f) p (y v) i' (out @ out' v) (L \<union> L' v)"
proof -
  obtain k ls where m: "m p = (went k i out ls p, Inr x)" "L \<subseteq> set ls" using assms(1) by (auto simp: goes_def)
  obtain v where v: "Q v" "goes (f x) (went k i out ls p) (y v) i' (out' v) (L' v)" using assms(2) by blast
  then obtain k' ls' where f: "f x (went k i out ls p) = (went k' i' (out' v) ls' (went k i out ls p), Inr (y v))" "L' v \<subseteq> set ls'"
    by (auto simp: goes_def)
  have "and_then m f p = (went k' i' (out @ out' v) (ls @ ls') p, Inr (y v))" using m(1) f(1) by (simp add: and_then_simps(3))
  moreover have "L \<union> L' v \<subseteq> set (ls @ ls')" using m(2) f(2) by auto
  ultimately show ?thesis using v(1) unfolding goes_def by blast
qed

lemma goes_ret: "i = p_in p \<Longrightarrow> goes (ret x) p x i [] {}"
  unfolding goes_def ret_def by (intro exI [of _ "p_calls p"] exI [of _ "[]"]) (simp add: went_def)

lemma goes_say: "i = p_in p \<Longrightarrow> goes (say s) p () i [] {Text s}"
  unfolding goes_def say_eq by (intro exI [of _ "p_calls p"] exI [of _ "[Text s]"]) simp

lemma goes_printHex: "i = p_in p \<Longrightarrow> goes (printHex l d) p () i [] {HexDump l (length d) (take 32 d)}"
  unfolding goes_def printHex_def cout_def
  by (intro exI [of _ "p_calls p"] exI [of _ "[HexDump l (length d) (take 32 d)]"]) (simp add: went_def)

lemma goes_moved: "\<exists>k. m p = (moved k i out p, Inr x) \<Longrightarrow> goes m p x i out {}"
  unfolding goes_def went_forms by auto

lemma goes_ticked: "\<exists>k. m p = (ticked k p, Inr x) \<Longrightarrow> i = p_in p \<Longrightarrow> goes m p x i [] {}"
  unfolding goes_def went_forms by auto

lemma goes_conseq: "goes m p x i out L \<Longrightarrow> out = out' \<Longrightarrow> L' \<subseteq> L \<Longrightarrow> goes m p x i out' L'"
  unfolding goes_def by blast

lemma goes_after_say:
  "goes (f ()) (went (p_calls p) (p_in p) [] [Text s] p) x i out L \<Longrightarrow> goes (and_then (say s) f) p x i out L"
  unfolding goes_def by (simp, elim exE conjE, intro exI conjI, assumption) auto

lemma goes_result: "goes m p x i out L \<Longrightarrow> snd (m p) = Inr x \<and> p_in (fst (m p)) = i \<and> p_out (fst (m p)) = p_out p @ out \<and>
    L \<subseteq> set (p_stdout (fst (m p)))"
  by (auto simp: goes_def)

definition keys_of :: "openssl \<Rightarrow> private_key \<Rightarrow> ecc" where
  "keys_of S a = \<lparr>privateKey = Some a, publicKey = Some (ec_public S a)\<rparr>"

section \<open>Authenticated encryption\<close>

text \<open>
  C37: Authenticated encryption. While OpenSSL works, encrypting gives an initialisation vector of 12 bytes, the
  ciphertext and the tag, and decrypting that under the same key gives the message back. Decrypting any data
  succeeds exactly when it is at least 28 bytes long and its last 16 bytes are the GCM tag of its middle part under this key and its
  first 12 bytes, so every change is detected unless it comes with the right tag; too short data and a
  wrong tag are reported as such.
\<close>

theorem aes_gcm_spec:
  assumes "ssl_ok S" "ssl_up S"
  shows "(\<exists>iv. snd (aes_encrypt S m key p) = Inr (seal S key iv m) \<and> length iv = IV_SIZE \<and>
      snd (aes_decrypt S t (seal S key iv m) key q) = Inr m) \<and>
    (\<forall>m'. snd (aes_decrypt S t d key q) = Inr m' \<longleftrightarrow>
      (\<exists>iv c. length iv = IV_SIZE \<and> d = iv @ c @ gcm_tag S key iv c \<and> m' = gcm_decrypt S key iv c)) \<and>
    (\<forall>e. snd (aes_decrypt S t d key q) = Inl e \<longrightarrow>
      e = (if length d < IV_SIZE + TAG_SIZE then ''Encrypted data too small'' else t))"
proof -
  note ok = ssl_okD [OF assms(1)]
  have "snd (aes_decrypt S t (seal S key (ssl_rand S IV_SIZE (p_calls p)) m) key q) = Inr m"
    using aes_decrypt_seal [OF assms, of "ssl_rand S IV_SIZE (p_calls p)" t key m q] ok(1) by auto
  moreover have "snd (aes_decrypt S t d key q) = Inr m' \<longleftrightarrow>
      (\<exists>iv c. length iv = IV_SIZE \<and> d = iv @ c @ gcm_tag S key iv c \<and> m' = gcm_decrypt S key iv c)" for m'
  proof (cases "length d < IV_SIZE + TAG_SIZE")
    case True
    then have "d \<noteq> iv @ c @ gcm_tag S key iv c" if "length iv = IV_SIZE" for iv c
      using that ok(4) [of key iv c] by auto
    then show ?thesis using aes_decrypt_up [OF assms(2), of t d key q] True by auto
  next
    case False
    with data_parts [of d] have "d = data_iv d @ data_cipher d @ data_tag d" "length (data_iv d) = IV_SIZE" by auto
    then have "(\<exists>iv c. length iv = IV_SIZE \<and> d = iv @ c @ gcm_tag S key iv c \<and> m' = gcm_decrypt S key iv c) \<longleftrightarrow>
        data_tag d = gcm_tag S key (data_iv d) (data_cipher d) \<and> m' = gcm_decrypt S key (data_iv d) (data_cipher d)"
      using parts_of_append ok(4) by metis
    then show ?thesis using aes_decrypt_up [OF assms(2), of t d key q] False by (auto split: if_splits)
  qed
  moreover have "e = (if length d < IV_SIZE + TAG_SIZE then ''Encrypted data too small'' else t)"
    if "snd (aes_decrypt S t d key q) = Inl e" for e
    using that aes_decrypt_up [OF assms(2), of t d key q] by (auto split: if_splits)
  ultimately show ?thesis
    using aes_encrypt_up [OF assms(2), of m key p] ok(1) by auto
qed

section \<open>A reference instance\<close>

text \<open>
  Stand-ins for the functions: the key agreement of the additive group of bytes, the addition of a key byte for the cipher, the
  sum of all bytes for the tag, and the bytes of a key as its text.
\<close>

fun ref_public :: "private_key \<Rightarrow> public_key" where
  "ref_public (PrivateKey k) = PublicKey [3 * sum_list k]"

fun ref_ecdh :: "private_key \<Rightarrow> public_key \<Rightarrow> bytes" where
  "ref_ecdh (PrivateKey k) (PublicKey P) = replicate 32 (sum_list k * sum_list P)"

fun ref_pem_write :: "public_key \<Rightarrow> string" where
  "ref_pem_write (PublicKey P) = bytes_string P"

definition ref_pem_read :: "string \<Rightarrow> public_key option" where
  "ref_pem_read s = (if s = [] then None else Some (PublicKey (string_bytes s)))"

definition ref_ssl :: openssl where
  "ref_ssl =
     \<lparr>ssl_status = (\<lambda>c k. True), ssl_rand = (\<lambda>n k. replicate n (of_nat k)),
      ssl_keygen = (\<lambda>k. PrivateKey [of_nat k + 1]), ec_public = ref_public,
      pem_write = ref_pem_write, pem_read = ref_pem_read, ecdh = ref_ecdh,
      gcm_encrypt = (\<lambda>key iv m. map (\<lambda>b. b + sum_list key + sum_list iv) m),
      gcm_decrypt = (\<lambda>key iv c. map (\<lambda>b. b - sum_list iv - sum_list key) c),
      gcm_tag = (\<lambda>key iv c. replicate 16 (sum_list key + sum_list iv + sum_list c))\<rparr>"

lemma string_bytes_string [simp]: "string_bytes (bytes_string bs) = bs"
proof -
  have "(of_char (char_of (unat b)) :: u8) = b" for b :: u8
  proof -
    have "(of_char (char_of (unat b)) :: u8) = of_nat (of_char (char_of (unat b)))" by (simp only: of_nat_of_char)
    also have "\<dots> = of_nat (unat b mod 256)" by (simp only: of_char_of)
    finally show ?thesis using unsigned_less [of b, where 'a = nat] by simp
  qed
  then show ?thesis by (simp add: string_bytes_def bytes_string_def comp_def)
qed

lemma ref_ssl_ok: "ssl_ok ref_ssl" "ssl_up ref_ssl"
proof -
  have pem: "ref_pem_read (ref_pem_write (ref_public k)) = Some (ref_public k)"
      "length (ref_pem_write (ref_public k)) < 1024" for k
    by (cases k; simp add: ref_pem_read_def; simp add: bytes_string_def)+
  have comm: "ref_ecdh a (ref_public b) = ref_ecdh b (ref_public a)" "length (ref_ecdh a (ref_public b)) = 32" for a b
    by (cases a; cases b; simp add: mult.commute mult.left_commute)+
  show "ssl_ok ref_ssl" using pem comm by (simp add: ssl_ok_def ref_ssl_def comp_def)
  show "ssl_up ref_ssl" by (simp add: ssl_up_def ref_ssl_def)
qed

theorem aes_gcm_spec_witness:
  "\<exists>iv. snd (aes_encrypt ref_ssl [1, 2, 3] (replicate 32 9) (example_proc [])) = Inr (seal ref_ssl (replicate 32 9) iv [1, 2, 3]) \<and>
     snd (aes_decrypt ref_ssl tampered_text (seal ref_ssl (replicate 32 9) iv [1, 2, 3]) (replicate 32 9) (example_proc [])) =
       Inr [1, 2, 3]"
  using aes_gcm_spec [OF ref_ssl_ok, of "[1, 2, 3]" "replicate 32 9" "example_proc []" tampered_text "example_proc []" "[]"]
  by blast

end
