(* ===== verification/Secure_Transfer.thy ===== *)
theory Secure_Transfer
  imports Cpp_Crypto "HOL-Library.Multiset"
begin

text \<open>
  The program \<^verbatim>\<open>src/secure_transfer.cpp\<close>: a receiver that listens on a Unix socket and a sender that connects to it. They
  exchange public keys, derive a session key and transfer one encrypted message. The two processes run
  concurrently and meet only in the byte streams between them: what one receives is what the other sends.
\<close>

section \<open>The receiver\<close>

definition getSocketPath :: "posix \<Rightarrow> string" where
  "getSocketPath K =
     (case os_getenv K ''SOCKET_PATH'' of
        None \<Rightarrow> ''/tmp/sockets/secure_transfer.sock''
      | Some path \<Rightarrow> if 0 < length path then path else ''/tmp/sockets/secure_transfer.sock'')"

text \<open>What fits into \<open>sun_path\<close>, of 108 bytes with the final zero.\<close>

definition sun_path :: "string \<Rightarrow> string" where
  "sun_path path = take 107 path"

text \<open>The first steps of either side: a new key pair, and its public half as text.\<close>

definition make_keys :: "openssl \<Rightarrow> ecc \<Rightarrow> (ecc \<times> string) op" where
  "make_keys S e =
     and_then (say ''[*] Generating ECC key pair...'') (\<lambda>_.
     and_then (generateKeyPair S e) (\<lambda>e'.
     and_then (exportPublicKey S e') (\<lambda>our_public_key.
     and_then (say (tick @ '' ECC key pair generated'')) (\<lambda>_.
     ret (e', our_public_key)))))"

text \<open>The exchange of the keys, in which only the name of the other side differs.\<close>

definition send_key :: "posix \<Rightarrow> string \<Rightarrow> string \<Rightarrow> unit op" where
  "send_key K peer our_public_key =
     and_then (say (''[*] Sending our public key to '' @ peer @ ''...'')) (\<lambda>_.
     and_then (sendString K our_public_key) (\<lambda>ok.
     if \<not> ok then throw ''Failed to send public key''
     else say (tick @ '' Public key sent ('' @ show_nat (length our_public_key) @ '' bytes)'')))"

definition receive_key :: "posix \<Rightarrow> string \<Rightarrow> string op" where
  "receive_key K peer =
     and_then (say (''[*] Receiving '' @ peer @ apostrophe @ ''s public key...'')) (\<lambda>_.
     and_then (receiveString K) (\<lambda>pem.
     and_then (say (tick @ '' Received '' @ peer @ apostrophe @ ''s public key ('' @ show_nat (length pem) @ '' bytes)'')) (\<lambda>_.
     ret pem)))"

text \<open>The key agreement, the same on either side; the secret of a P-256 agreement has the 32 bytes that are taken.\<close>

definition derive_session_key :: "openssl \<Rightarrow> ecc \<Rightarrow> string \<Rightarrow> bytes op" where
  "derive_session_key S e peer_public_key_pem =
     and_then (say ''[*] Deriving shared secret via ECDH...'') (\<lambda>_.
     and_then (importPublicKey S peer_public_key_pem) (\<lambda>peer_public_key.
     and_then (deriveSharedSecret S e peer_public_key) (\<lambda>shared_secret.
     (let aes_key = take 32 shared_secret in
      and_then (say (tick @ '' Shared secret derived'')) (\<lambda>_.
      and_then (printHex ''   Session AES Key'' aes_key) (\<lambda>_.
      ret aes_key))))))"

definition receive_message :: "openssl \<Rightarrow> posix \<Rightarrow> bytes \<Rightarrow> string op" where
  "receive_message S K aes_key =
     and_then (say ''[*] Waiting for encrypted data...'') (\<lambda>_.
     and_then (receiveData K) (\<lambda>encrypted_data.
     and_then (say (tick @ '' Received encrypted payload ('' @ show_nat (length encrypted_data) @ '' bytes)'')) (\<lambda>_.
     and_then (printHex ''   Encrypted Data'' encrypted_data) (\<lambda>_.
     and_then (say ''[*] Decrypting data...'') (\<lambda>_.
     and_then (aes_decrypt S tampered_text encrypted_data aes_key) (\<lambda>decrypted_data.
     (let message = bytes_string decrypted_data in
      and_then (say (tick @ '' Decryption successful!'')) (\<lambda>_.
      and_then (say (tick @ '' Authentication verified (data is authentic)'')) (\<lambda>_.
      and_then (say (double_quote @ message @ double_quote)) (\<lambda>_.
      and_then (say (tick @ '' Secure transfer complete!'')) (\<lambda>_.
      ret message)))))))))))"

definition handleClient :: "openssl \<Rightarrow> posix \<Rightarrow> string op" where
  "handleClient S K =
     and_then (make_keys S ecc_new) (\<lambda>(e, our_public_key).
     and_then (send_key K ''sender'' our_public_key) (\<lambda>_.
     and_then (receive_key K ''sender'') (\<lambda>peer_public_key_pem.
     and_then (derive_session_key S e peer_public_key_pem) (\<lambda>aes_key.
     receive_message S K aes_key))))"

text \<open>From the creation of the socket to the end of the life of the receiver, whose destructor closes and unlinks.\<close>

definition receiver_start :: "openssl \<Rightarrow> posix \<Rightarrow> string \<Rightarrow> string op" where
  "receiver_start S K socket_path =
     and_then (call (os_socket K)) (\<lambda>server_socket.
     if server_socket < 0 then throw ''Failed to create socket''
     else
       and_then (sys (Opened server_socket)) (\<lambda>_.
       finally_do
         (and_then (sys (Unlinked socket_path)) (\<lambda>_.
          and_then (call (os_bind K (sun_path socket_path))) (\<lambda>r.
          if r < 0 then throw ''Failed to bind socket''
          else
            and_then (sys (Bound server_socket (sun_path socket_path))) (\<lambda>_.
            and_then (call (os_listen K)) (\<lambda>r.
            if r < 0 then throw ''Failed to listen on socket''
            else
              and_then (sys (Listening server_socket)) (\<lambda>_.
              and_then (say (''[*] Listening for connections on '' @ socket_path)) (\<lambda>_.
              and_then (say ''[*] Waiting for sender...'') (\<lambda>_.
              and_then (call (os_accept K)) (\<lambda>client_socket.
              if client_socket < 0 then throw ''Failed to accept connection''
              else
                and_then (sys (Accepted client_socket)) (\<lambda>_.
                and_then (say (tick @ '' Connection established!'')) (\<lambda>_.
                finally_do (handleClient S K) (sys (Closed client_socket)))))))))))))
         (and_then (sys (Closed server_socket)) (\<lambda>_. sys (Unlinked socket_path)))))"

section \<open>The sender\<close>

definition send_message :: "openssl \<Rightarrow> posix \<Rightarrow> string \<Rightarrow> bytes \<Rightarrow> unit op" where
  "send_message S K message aes_key =
     and_then (say ''[*] Encrypting message with AES-256-GCM...'') (\<lambda>_.
     and_then (aes_encrypt S (string_bytes message) aes_key) (\<lambda>encrypted_data.
     and_then (say (tick @ '' Message encrypted ('' @ show_nat (length encrypted_data) @ '' bytes)'')) (\<lambda>_.
     and_then (printHex ''   Encrypted Data'' encrypted_data) (\<lambda>_.
     and_then (say ''[*] Sending encrypted data to receiver...'') (\<lambda>_.
     and_then (sendData K encrypted_data) (\<lambda>ok.
     if \<not> ok then throw ''Failed to send encrypted data''
     else
       and_then (say (tick @ '' Encrypted data sent successfully!'')) (\<lambda>_.
       say (tick @ '' Secure transfer complete!''))))))))"

definition performSecureTransfer :: "openssl \<Rightarrow> posix \<Rightarrow> string \<Rightarrow> unit op" where
  "performSecureTransfer S K message =
     and_then (make_keys S ecc_new) (\<lambda>(e, our_public_key).
     and_then (receive_key K ''receiver'') (\<lambda>peer_public_key_pem.
     and_then (send_key K ''receiver'' our_public_key) (\<lambda>_.
     and_then (derive_session_key S e peer_public_key_pem) (\<lambda>aes_key.
     send_message S K message aes_key))))"

text \<open>The loop \<open>while (retries-- > 0)\<close>; the argument is the counter before the test.\<close>

primrec connect_loop :: "posix \<Rightarrow> string \<Rightarrow> int \<Rightarrow> nat \<Rightarrow> unit op" where
  "connect_loop K addr sock 0 = ret ()"
| "connect_loop K addr sock (Suc retries) =
     and_then (call (os_connect K addr)) (\<lambda>r.
     if r = 0 then sys (Connected addr)
     else if retries = 0 then and_then (sys (Closed sock)) (\<lambda>_. throw ''Failed to connect to receiver'')
     else and_then (sys (Slept 500)) (\<lambda>_. connect_loop K addr sock retries))"

definition sender_send :: "openssl \<Rightarrow> posix \<Rightarrow> string \<Rightarrow> string \<Rightarrow> unit op" where
  "sender_send S K socket_path message =
     and_then (say (''[*] Message to send: '' @ double_quote @ message @ double_quote)) (\<lambda>_.
     and_then (call (os_socket K)) (\<lambda>sock.
     if sock < 0 then throw ''Failed to create socket''
     else
       and_then (sys (Opened sock)) (\<lambda>_.
       and_then (say (''[*] Connecting to receiver on '' @ socket_path @ ''...'')) (\<lambda>_.
       and_then (connect_loop K (sun_path socket_path) sock 5) (\<lambda>_.
       and_then (say (tick @ '' Connected to receiver!'')) (\<lambda>_.
       finally_do (performSecureTransfer S K message) (sys (Closed sock))))))))"

section \<open>The program\<close>

definition exit_code :: "proc \<times> 'a result \<Rightarrow> proc \<times> nat" where
  "exit_code r = (case r of (p, Inl e) \<Rightarrow> (p, 1) | (p, Inr _) \<Rightarrow> (p, 0))"

text \<open>The arguments are those of \<open>main\<close>, the name of the program first; messages about wrong usage are left out.\<close>

definition transfer_main :: "openssl \<Rightarrow> posix \<Rightarrow> string list \<Rightarrow> proc \<Rightarrow> proc \<times> nat" where
  "transfer_main S K argv p =
     (if length argv < 2 then (p, 1)
      else if argv ! 1 = ''receive'' then exit_code (receiver_start S K (getSocketPath K) p)
      else if argv ! 1 = ''send'' then
        (if length argv < 3 then (p, 1)
         else exit_code (sender_send S K (getSocketPath K) (argv ! 2) p))
      else (p, 1))"

section \<open>The phases\<close>

text \<open>The public key as it travels.\<close>

definition key_frame :: "openssl \<Rightarrow> private_key \<Rightarrow> bytes" where
  "key_frame S a = frame (string_bytes (pem_write S (ec_public S a)))"

text \<open>The key pair a process makes when it gets to the key exchange after so many calls.\<close>

definition fresh_key :: "openssl \<Rightarrow> proc \<Rightarrow> private_key" where
  "fresh_key S p = ssl_keygen S (p_calls p + 6)"

lemma make_keys_goes:
  assumes "ssl_up S"
  shows "goes (make_keys S e) p (keys_of S (fresh_key S p), pem_write S (ec_public S (fresh_key S p))) (p_in p) [] {}"
proof -
  let ?p = "went (p_calls p) (p_in p) [] [Text ''[*] Generating ECC key pair...''] p"
  obtain k where g: "generateKeyPair S e ?p = (ticked k ?p, Inr (keys_of S (fresh_key S p)))"
    using generateKeyPair_up [OF assms, of e ?p] by (auto simp: keys_of_def fresh_key_def)
  obtain k' where x: "exportPublicKey S (keys_of S (fresh_key S p)) (ticked k ?p) =
      (ticked k' (ticked k ?p), Inr (pem_write S (ec_public S (fresh_key S p))))"
    using exportPublicKey_up [OF assms, of "keys_of S (fresh_key S p)" "ec_public S (fresh_key S p)" "ticked k ?p"]
    unfolding keys_of_def by (auto simp del: ticked_ticked)
  show ?thesis
    unfolding goes_def make_keys_def
    by (simp, simp add: and_then_def g x say_eq ret_def, simp add: went_forms) blast
qed

lemma send_key_goes:
  assumes "socket_ok K" "i = p_in p"
  shows "goes (send_key K peer (pem_write S (ec_public S a))) p () i (key_frame S a) {}"
proof -
  let ?pem = "pem_write S (ec_public S a)"
  have send: "goes (sendString K ?pem) q True (p_in q) (key_frame S a) {}" for q
    using sendData_ok [OF assms(1), of "string_bytes ?pem" q] unfolding sendString_def key_frame_def by (rule goes_moved)
  have "goes (send_key K peer ?pem) p () (p_in p) ([] @ key_frame S a @ []) (UNIV - UNIV)"
    unfolding send_key_def
    by (rule goes_conseq, rule goes_then [OF goes_say [OF refl]], rule goes_then [OF send], simp, rule goes_say) simp_all
  then show ?thesis using assms(2) by simp
qed

lemma receive_key_goes:
  assumes "socket_ok K" "p_in p = key_frame S a @ i" "ssl_ok S"
  shows "goes (receive_key K peer) p (pem_write S (ec_public S a)) i [] {}"
proof -
  let ?pem = "pem_write S (ec_public S a)"
  have len: "length (string_bytes ?pem) \<le> max_data" using ssl_okD(8) [OF assms(3), of a] by (simp add: max_data_def)
  have data: "goes (receiveData K) q (string_bytes ?pem) i [] {}" if "p_in q = key_frame S a @ i" for q
    using receiveData_ok [OF assms(1) _ len, of q i] that unfolding key_frame_def by (intro goes_moved) simp
  have recv: "goes (receiveString K) q ?pem i [] {}" if "p_in q = key_frame S a @ i" for q
    unfolding receiveString_def
    by (rule goes_conseq, rule goes_then [OF data [OF that]], subst bytes_string_bytes, rule goes_ret) simp_all
  show ?thesis
    unfolding receive_key_def
    by (rule goes_conseq, rule goes_then [OF goes_say [OF refl]], rule goes_then [OF recv],
        simp add: assms(2), rule goes_then [OF goes_say [OF refl]], rule goes_ret) simp_all
qed

definition key_dump :: "bytes \<Rightarrow> printed" where
  "key_dump key = HexDump ''   Session AES Key'' 32 key"

definition message_line :: "string \<Rightarrow> printed" where
  "message_line m = Text (double_quote @ m @ double_quote)"

definition authentic_line :: printed where
  "authentic_line = Text (tick @ '' Authentication verified (data is authentic)'')"

lemma derive_goes:
  assumes "ssl_ok S" "ssl_up S" "i = p_in p"
  shows "goes (derive_session_key S (keys_of S a) (pem_write S (ec_public S b))) p (ecdh S a (ec_public S b)) i []
    {key_dump (ecdh S a (ec_public S b))}"
proof -
  let ?B = "ec_public S b"
  let ?key = "ecdh S a ?B"
  have import_: "goes (importPublicKey S (pem_write S ?B)) q ?B (p_in q) [] {}" for q
    using importPublicKey_up [OF assms(2), of "pem_write S ?B" q] ssl_okD(5) [OF assms(1), of b]
    by (intro goes_ticked) simp_all
  have derive: "goes (deriveSharedSecret S (keys_of S a) ?B) q ?key (p_in q) [] {}" for q
    by (rule goes_ticked [OF deriveSharedSecret_up [OF assms(2)]]) (simp_all add: keys_of_def)
  have len: "length ?key = 32" "take 32 ?key = ?key" using ssl_okD(7) [OF assms(1), of a b] by simp_all
  show ?thesis
    unfolding derive_session_key_def Let_def key_dump_def
    by (rule goes_conseq, rule goes_then [OF goes_say [OF refl]], rule goes_then [OF import_], rule goes_then [OF derive],
        simp only: len(2), rule goes_then [OF goes_say [OF refl]], rule goes_then [OF goes_printHex [OF refl]], rule goes_ret) (simp_all add: len assms(3))
qed

lemma receive_message_goes:
  assumes "ssl_ok S" "ssl_up S" "socket_ok K" "length iv = IV_SIZE" "length m + 28 \<le> max_data"
    and "p_in p = frame (seal S key iv (string_bytes m)) @ i"
  shows "goes (receive_message S K key) p m i [] {authentic_line, message_line m}"
proof -
  let ?d = "seal S key iv (string_bytes m)"
  have len: "length ?d \<le> max_data" using assms(4,5) ssl_okD(3,4) [OF assms(1)] by (simp add: seal_def)
  have recv: "goes (receiveData K) q ?d i [] {}" if "p_in q = frame ?d @ i" for q
    using receiveData_ok [OF assms(3) that len] by (intro goes_moved) simp
  have decrypt: "goes (aes_decrypt S tampered_text ?d key) q (string_bytes m) (p_in q) [] {}" for q
    by (rule goes_ticked [OF aes_decrypt_seal [OF assms(1,2,4)] refl])
  show ?thesis
    unfolding receive_message_def Let_def message_line_def authentic_line_def
    by (rule goes_conseq, rule goes_then [OF goes_say [OF refl]], rule goes_then [OF recv], simp add: assms(6),
        rule goes_then [OF goes_say [OF refl]], rule goes_then [OF goes_printHex [OF refl]],
        rule goes_then [OF goes_say [OF refl]], rule goes_then [OF decrypt], simp only: bytes_string_bytes,
        rule goes_then [OF goes_say [OF refl]], rule goes_then [OF goes_say [OF refl]],
        rule goes_then [OF goes_say [OF refl]], rule goes_then [OF goes_say [OF refl]], rule goes_ret) simp_all
qed

lemma send_message_goes:
  assumes "ssl_ok S" "ssl_up S" "socket_ok K" "i = p_in p"
  shows "\<exists>iv. length iv = IV_SIZE \<and> goes (send_message S K m key) p () i (frame (seal S key iv (string_bytes m))) {}"
proof -
  let ?iv = "ssl_rand S IV_SIZE (p_calls p)"
  let ?d = "seal S key ?iv (string_bytes m)"
  let ?p = "went (p_calls p) (p_in p) [] [Text ''[*] Encrypting message with AES-256-GCM...''] p"
  have encrypt: "goes (aes_encrypt S (string_bytes m) key) ?p ?d (p_in ?p) [] {}"
    using aes_encrypt_up [OF assms(2), of "string_bytes m" key ?p] by (intro goes_ticked) auto
  have send: "goes (sendData K ?d) q True (p_in q) (frame ?d) {}" for q
    by (rule goes_moved [OF sendData_ok [OF assms(3)]])
  have "goes (and_then (aes_encrypt S (string_bytes m) key) (\<lambda>d.
     and_then (say (tick @ '' Message encrypted ('' @ show_nat (length d) @ '' bytes)'')) (\<lambda>_.
     and_then (printHex ''   Encrypted Data'' d) (\<lambda>_.
     and_then (say ''[*] Sending encrypted data to receiver...'') (\<lambda>_.
     and_then (sendData K d) (\<lambda>ok.
     if \<not> ok then throw ''Failed to send encrypted data''
     else
       and_then (say (tick @ '' Encrypted data sent successfully!'')) (\<lambda>_.
       say (tick @ '' Secure transfer complete!'')))))))) ?p () i (frame ?d) {}"
    by (rule goes_conseq, rule goes_then [OF encrypt], rule goes_then [OF goes_say [OF refl]],
        rule goes_then [OF goes_printHex [OF refl]], rule goes_then [OF goes_say [OF refl]], rule goes_then [OF send],
        simp only: not_True_eq_False if_False, rule goes_then [OF goes_say [OF refl]], rule goes_say) (simp_all add: assms(4))
  then have "goes (send_message S K m key) p () i (frame ?d) {}"
    unfolding send_message_def by (rule goes_after_say)
  then show ?thesis using ssl_okD(1) [OF assms(1)] by blast
qed

section \<open>The two sides\<close>

lemma handleClient_goes:
  fixes p S a
  defines "key \<equiv> ecdh S (fresh_key S p) (ec_public S a)"
  assumes "ssl_ok S" "ssl_up S" "socket_ok K" "length iv = IV_SIZE" "length m + 28 \<le> max_data"
    and "p_in p = key_frame S a @ frame (seal S key iv (string_bytes m)) @ i"
  shows "goes (handleClient S K) p m i (key_frame S (fresh_key S p)) {key_dump key, authentic_line, message_line m}"
  unfolding handleClient_def
  by (rule goes_conseq, rule goes_then [OF make_keys_goes [OF assms(3)]], simp only: prod.case,
      rule goes_then [OF send_key_goes [OF assms(4) refl]], rule goes_then [OF receive_key_goes [OF assms(4) _ assms(2)]],
      simp add: assms(7), rule goes_then [OF derive_goes [OF assms(2,3) refl]],
      rule receive_message_goes [OF assms(2-6)]) (simp_all add: key_def)

lemma performSecureTransfer_goes:
  fixes p S b
  defines "key \<equiv> ecdh S (fresh_key S p) (ec_public S b)"
  assumes "ssl_ok S" "ssl_up S" "socket_ok K" "p_in p = key_frame S b @ i"
  shows "\<exists>iv. length iv = IV_SIZE \<and>
    goes (performSecureTransfer S K m) p () i (key_frame S (fresh_key S p) @ frame (seal S key iv (string_bytes m))) {key_dump key}"
proof -
  let ?Q = "\<lambda>iv :: bytes. length iv = IV_SIZE" and ?d = "\<lambda>iv. frame (seal S key iv (string_bytes m))"
  have "\<exists>iv. ?Q iv \<and> goes (performSecureTransfer S K m) p () i
      ([] @ [] @ key_frame S (fresh_key S p) @ [] @ ?d iv) ({} \<union> ({} \<union> ({} \<union> ({key_dump key} \<union> {}))))"
    unfolding performSecureTransfer_def
    by (rule goes_then_ex [OF make_keys_goes [OF assms(3)]], simp only: prod.case,
        rule goes_then_ex [OF receive_key_goes [OF assms(4) _ assms(2)]], simp add: assms(5),
        rule goes_then_ex [OF send_key_goes [OF assms(4) refl]], simp only: key_def,
        rule goes_then_ex [OF derive_goes [OF assms(2,3) refl]],
        rule send_message_goes [OF assms(2-4)]) simp
  then show ?thesis by simp
qed

text \<open>
  A part of the process state that calls, prints and reads leave alone, so that most operations keep it whether or not they
  throw: what was written to the socket, and the list of system calls.
\<close>

definition keeps :: "(proc \<Rightarrow> 'b) \<Rightarrow> 'a op \<Rightarrow> bool" where
  "keeps g m \<longleftrightarrow> (\<forall>p. g (fst (m p)) = g p)"

lemma keeps_and_then: "keeps g m \<Longrightarrow> (\<And>x. keeps g (f x)) \<Longrightarrow> keeps g (and_then m f)"
proof -
  assume m: "keeps g m" and f: "\<And>x. keeps g (f x)"
  have "g (fst (and_then m f p)) = g p" for p
  proof (cases "m p")
    case (Pair q r)
    then have "g q = g p" using m by (metis fst_conv keeps_def)
    then show ?thesis using f Pair by (cases r) (simp_all add: and_then_def keeps_def)
  qed
  then show ?thesis by (simp add: keeps_def)
qed

locale observed =
  fixes g :: "proc \<Rightarrow> 'b"
  assumes g_calls: "g (p\<lparr>p_calls := k\<rparr>) = g p" and g_stdout: "g (p\<lparr>p_stdout := ls\<rparr>) = g p"
    and g_in: "g (p\<lparr>p_in := i\<rparr>) = g p"
begin

lemma keeps_basic:
  "keeps g (ret x)" "keeps g (throw e)" "keeps g (say s)" "keeps g (printHex l d)" "keeps g (call f)" "keeps g (check h e)"
  by (simp_all add: keeps_def op_defs say_def printHex_def g_calls g_stdout)

lemma keeps_recv: "g (fst (os_recv_bytes answer want p)) = g p"
  using g_in [where p = "p\<lparr>p_calls := p_calls p + 1\<rparr>"] by (simp add: os_recv_bytes_def Let_def g_calls)

lemma keeps_receive_rest: "g (fst (receive_rest K want got p)) = g p"
proof (induction want arbitrary: got p rule: less_induct)
  case (less want)
  show ?case
  proof (cases "os_recv_bytes (os_recv K) want p")
    case (Pair q r)
    then have "g q = g p" using keeps_recv [of "os_recv K" want p] by simp
    then show ?thesis using less Pair by (subst receive_rest.simps) (simp split: sum.split prod.split)
  qed
qed

lemma keeps_receiveData: "keeps g (receiveData K)"
  unfolding receiveData_def
  by (intro keeps_and_then) (auto simp: keeps_def keeps_receive_rest keeps_recv throw_def split: prod.split)

lemma keeps_crypto:
  "keeps g (generateKeyPair S e)" "keeps g (exportPublicKey S e)" "keeps g (importPublicKey S pem)"
  "keeps g (deriveSharedSecret S e P)" "keeps g (aes_encrypt S m key)" "keeps g (aes_decrypt S t d key)"
proof -
  have "keeps g (rand_bytes S n msg)" for n msg
    by (simp add: keeps_def rand_bytes_def op_defs g_calls)
  then show "keeps g (aes_encrypt S m key)"
    unfolding aes_encrypt_def Let_def by (simp add: keeps_and_then keeps_basic)
  show "keeps g (aes_decrypt S t d key)"
    unfolding aes_decrypt_def Let_def by (simp add: keeps_and_then keeps_basic)
  show "keeps g (generateKeyPair S e)" "keeps g (exportPublicKey S e)" "keeps g (importPublicKey S pem)"
    "keeps g (deriveSharedSecret S e P)"
    unfolding generateKeyPair_def exportPublicKey_def importPublicKey_def deriveSharedSecret_def
    by (auto intro!: keeps_and_then keeps_basic split: option.split)
qed

lemmas keeps_intros = keeps_and_then keeps_basic keeps_receiveData keeps_crypto

lemma keeps_phases:
  "keeps g (make_keys S e)" "keeps g (receive_key K peer)" "keeps g (derive_session_key S e pem)"
  "keeps g (receive_message S K key)"
  unfolding make_keys_def receive_key_def receiveString_def derive_session_key_def receive_message_def Let_def
  by (intro keeps_intros)+

end

interpretation written: observed p_out
  by unfold_locales simp_all

interpretation system: observed p_sys
  by unfold_locales simp_all

lemma goes_then_silent:
  assumes "goes m p x i out L" "keeps p_out (f x)"
  shows "p_out (fst (and_then m f p)) = p_out p @ out"
  using assms by (auto simp: goes_def and_then_def keeps_def)

lemma handleClient_output:
  assumes "ssl_up S" "socket_ok K"
  shows "p_out (fst (handleClient S K p)) = p_out p @ key_frame S (fresh_key S p)"
proof -
  let ?b = "fresh_key S p"
  have keys: "goes (and_then (make_keys S ecc_new) (\<lambda>(e, pem). and_then (send_key K ''sender'' pem) (\<lambda>_. ret e)))
      p (keys_of S ?b) (p_in p) (key_frame S ?b) {}"
    by (rule goes_conseq, rule goes_then [OF make_keys_goes [OF assms(1)]], simp only: prod.case,
        rule goes_then [OF send_key_goes [OF assms(2) refl]], rule goes_ret) simp_all
  have "handleClient S K = and_then (and_then (make_keys S ecc_new) (\<lambda>(e, pem). and_then (send_key K ''sender'' pem) (\<lambda>_. ret e)))
      (\<lambda>e. and_then (receive_key K ''sender'') (\<lambda>pem. and_then (derive_session_key S e pem) (receive_message S K)))"
    by (simp add: handleClient_def fun_eq_iff and_then_def ret_def split: prod.split sum.split)
  moreover have "keeps p_out (and_then (receive_key K ''sender'') (\<lambda>pem. and_then (derive_session_key S (keys_of S ?b) pem) (receive_message S K)))"
    by (intro keeps_and_then written.keeps_phases)
  ultimately show ?thesis by (simp only: goes_then_silent [OF keys])
qed

section \<open>Sessions\<close>

text \<open>Two processes use the same library: they differ in the calls that fail and in the random bytes, not in the functions.\<close>

definition ssl_same :: "openssl \<Rightarrow> openssl \<Rightarrow> bool" where
  "ssl_same S R \<longleftrightarrow>
     ec_public S = ec_public R \<and> pem_write S = pem_write R \<and> pem_read S = pem_read R \<and> ecdh S = ecdh R \<and>
     gcm_encrypt S = gcm_encrypt R \<and> gcm_decrypt S = gcm_decrypt R \<and> gcm_tag S = gcm_tag R"

lemma ssl_same_eqs:
  assumes "ssl_same S R"
  shows "key_frame S = key_frame R" "seal S = seal R" "ecdh S = ecdh R" "ec_public S = ec_public R"
  using assms by (simp_all add: ssl_same_def key_frame_def seal_def fun_eq_iff)

text \<open>
  A run of both sides: \<open>x\<close> is the stream from the sender to the receiver and \<open>y\<close> the one back, each written by one side
  and read by the other. The processes are sequential and their reads block, so their runs are determined by these equations.
\<close>

definition connected_run :: "openssl \<Rightarrow> posix \<Rightarrow> proc \<Rightarrow> string \<Rightarrow> openssl \<Rightarrow> posix \<Rightarrow> proc \<Rightarrow> bytes \<Rightarrow> bytes \<Rightarrow> bool" where
  "connected_run S KS p m R KR q x y \<longleftrightarrow>
     p_out (fst (performSecureTransfer S KS m (p\<lparr>p_in := y\<rparr>))) = x \<and>
     p_out (fst (handleClient R KR (q\<lparr>p_in := x\<rparr>))) = y"

text \<open>Both programs run with OpenSSL and the socket in order, nothing written yet.\<close>

definition ready :: "openssl \<Rightarrow> posix \<Rightarrow> proc \<Rightarrow> bool" where
  "ready S K p \<longleftrightarrow> ssl_ok S \<and> ssl_up S \<and> socket_ok K \<and> p_out p = []"

lemma fresh_key_in [simp]: "fresh_key S (p\<lparr>p_in := i\<rparr>) = fresh_key S p"
  by (simp add: fresh_key_def)

text \<open>
  C33: A session delivers a message that fits the limit of 10 MB when it is sealed. Whatever portions the operating systems move the bytes in, there is exactly one run of a sender
  and a receiver connected to each other; in it both succeed, no byte is left over in either direction, and the receiver
  ends with the message of the sender, which it prints.
\<close>

theorem session_delivers:
  assumes "ready S KS p" "ready R KR q" "ssl_same S R" "length m + 28 \<le> max_data"
  shows "\<exists>x y. connected_run S KS p m R KR q x y \<and>
    (\<forall>x' y'. connected_run S KS p m R KR q x' y' \<longrightarrow> x' = x \<and> y' = y) \<and>
    (\<exists>p'. performSecureTransfer S KS m (p\<lparr>p_in := y\<rparr>) = (p', Inr ()) \<and> p_in p' = []) \<and>
    (\<exists>q'. handleClient R KR (q\<lparr>p_in := x\<rparr>) = (q', Inr m) \<and> p_in q' = [] \<and> message_line m \<in> set (p_stdout q'))"
proof -
  note same = ssl_same_eqs [OF assms(3)]
  have S: "ssl_ok S" "ssl_up S" "socket_ok KS" "p_out p = []" and R: "ssl_ok R" "ssl_up R" "socket_ok KR" "p_out q = []"
    using assms(1,2) by (simp_all add: ready_def)
  let ?a = "fresh_key S p" and ?b = "fresh_key R q"
  let ?y = "key_frame R ?b"
  have reply: "p_out (fst (handleClient R KR (q\<lparr>p_in := x\<rparr>))) = ?y" for x
    using handleClient_output [OF R(2,3), of "q\<lparr>p_in := x\<rparr>"] R(4) by simp
  have "p_in (p\<lparr>p_in := ?y\<rparr>) = key_frame S ?b @ []" by (simp add: same(1))
  from performSecureTransfer_goes [OF S(1,2,3) this, of m] obtain iv where iv: "length iv = IV_SIZE" and send:
    "goes (performSecureTransfer S KS m) (p\<lparr>p_in := ?y\<rparr>) () []
       (key_frame S ?a @ frame (seal S (ecdh S ?a (ec_public S ?b)) iv (string_bytes m)))
       {key_dump (ecdh S ?a (ec_public S ?b))}" by auto
  let ?x = "key_frame S ?a @ frame (seal S (ecdh S ?a (ec_public S ?b)) iv (string_bytes m))"
  have forth: "p_out (fst (performSecureTransfer S KS m (p\<lparr>p_in := ?y\<rparr>))) = ?x" using goes_result [OF send] S(4) by simp
  have key: "ecdh R ?b (ec_public R ?a) = ecdh S ?a (ec_public S ?b)" using ssl_okD(6) [OF R(1)] by (simp add: same)
  have "p_in (q\<lparr>p_in := ?x\<rparr>) = key_frame R ?a @ frame (seal R (ecdh R (fresh_key R (q\<lparr>p_in := ?x\<rparr>)) (ec_public R ?a)) iv (string_bytes m)) @ []"
    by (simp add: key) (simp add: same)
  from handleClient_goes [OF R(1,2,3) iv assms(4) this]
  have recv: "goes (handleClient R KR) (q\<lparr>p_in := ?x\<rparr>) m [] ?y {key_dump (ecdh R ?b (ec_public R ?a)), authentic_line, message_line m}"
    by simp
  have "connected_run S KS p m R KR q ?x ?y" using forth reply by (simp add: connected_run_def)
  moreover have "x' = ?x \<and> y' = ?y" if "connected_run S KS p m R KR q x' y'" for x' y'
    using that reply [of x'] forth by (auto simp: connected_run_def)
  moreover have "\<exists>p'. performSecureTransfer S KS m (p\<lparr>p_in := ?y\<rparr>) = (p', Inr ()) \<and> p_in p' = []"
    using goes_result [OF send] by (metis prod.collapse)
  moreover have "\<exists>q'. handleClient R KR (q\<lparr>p_in := ?x\<rparr>) = (q', Inr m) \<and> p_in q' = [] \<and> message_line m \<in> set (p_stdout q')"
    using goes_result [OF recv] by (metis insert_subset prod.collapse)
  ultimately show ?thesis by blast
qed

text \<open>
  C34: The keys are not authenticated. Somebody between the two sides, with a key pair of his own and no secret of either, gives each
  side his public key in place of the peer's. The sender then completes and reports success, and he can decrypt what
  it sent; and he can make the receiver accept any message of his choice (within the limit of 10 MB), which the receiver prints after
  the line that says that the data is authentic.
\<close>

theorem man_in_the_middle:
  assumes "ready S KS p" "ready R KR q" "ssl_same S R" "length m' + 28 \<le> max_data" "length iv = IV_SIZE"
  shows "(\<exists>p' pem P d. performSecureTransfer S KS m (p\<lparr>p_in := key_frame S c\<rparr>) = (p', Inr ()) \<and>
      p_out p' = frame (string_bytes pem) @ frame d \<and> pem_read S pem = Some P \<and>
      snd (aes_decrypt S t d (ecdh S c P) z) = Inr (string_bytes m)) \<and>
    (\<exists>pem P. (\<forall>x. p_out (fst (handleClient R KR (q\<lparr>p_in := x\<rparr>))) = frame (string_bytes pem)) \<and> pem_read S pem = Some P \<and>
      (\<exists>q'. handleClient R KR (q\<lparr>p_in := key_frame S c @ frame (seal S (ecdh S c P) iv (string_bytes m'))\<rparr>) = (q', Inr m') \<and>
        {authentic_line, message_line m'} \<subseteq> set (p_stdout q')))"
proof
  note same = ssl_same_eqs [OF assms(3)]
  have S: "ssl_ok S" "ssl_up S" "socket_ok KS" "p_out p = []" and R: "ssl_ok R" "ssl_up R" "socket_ok KR" "p_out q = []"
    using assms(1,2) by (simp_all add: ready_def)
  let ?a = "fresh_key S p" and ?b = "fresh_key R q"
  have "p_in (p\<lparr>p_in := key_frame S c\<rparr>) = key_frame S c @ []" by simp
  from performSecureTransfer_goes [OF S(1,2,3) this, of m] obtain i where i: "length i = IV_SIZE" and send:
    "goes (performSecureTransfer S KS m) (p\<lparr>p_in := key_frame S c\<rparr>) () []
       (key_frame S ?a @ frame (seal S (ecdh S ?a (ec_public S c)) i (string_bytes m)))
       {key_dump (ecdh S ?a (ec_public S c))}" by auto
  let ?d = "seal S (ecdh S ?a (ec_public S c)) i (string_bytes m)"
  have "snd (aes_decrypt S t ?d (ecdh S c (ec_public S ?a)) z) = Inr (string_bytes m)"
    using aes_decrypt_seal [OF S(1,2) i, of t "ecdh S ?a (ec_public S c)" "string_bytes m" z] ssl_okD(6) [OF S(1), of c ?a] by auto
  moreover obtain p' where "performSecureTransfer S KS m (p\<lparr>p_in := key_frame S c\<rparr>) = (p', Inr ())"
      "p_out p' = key_frame S ?a @ frame ?d"
    using goes_result [OF send] S(4) by (metis append_Nil proc.select_convs(3) proc.update_convs(2) proc.surjective prod.collapse)
  moreover have "pem_read S (pem_write S (ec_public S ?a)) = Some (ec_public S ?a)" by (rule ssl_okD(5) [OF S(1)])
  ultimately show "\<exists>p' pem P d. performSecureTransfer S KS m (p\<lparr>p_in := key_frame S c\<rparr>) = (p', Inr ()) \<and>
      p_out p' = frame (string_bytes pem) @ frame d \<and> pem_read S pem = Some P \<and>
      snd (aes_decrypt S t d (ecdh S c P) z) = Inr (string_bytes m)"
    unfolding key_frame_def by blast
  have reply: "p_out (fst (handleClient R KR (q\<lparr>p_in := x\<rparr>))) = frame (string_bytes (pem_write R (ec_public R ?b)))" for x
    using handleClient_output [OF R(2,3), of "q\<lparr>p_in := x\<rparr>"] R(4) by (simp add: key_frame_def)
  let ?x = "key_frame S c @ frame (seal S (ecdh S c (ec_public S ?b)) iv (string_bytes m'))"
  have "ecdh R ?b (ec_public R c) = ecdh S c (ec_public S ?b)" using ssl_okD(6) [OF R(1)] by (simp add: same)
  then have "p_in (q\<lparr>p_in := ?x\<rparr>) = key_frame R c @ frame (seal R (ecdh R (fresh_key R (q\<lparr>p_in := ?x\<rparr>)) (ec_public R c)) iv (string_bytes m')) @ []"
    by simp (simp add: same)
  from goes_result [OF handleClient_goes [OF R(1,2,3) assms(5,4) this]]
  have "\<exists>q'. handleClient R KR (q\<lparr>p_in := ?x\<rparr>) = (q', Inr m') \<and> {authentic_line, message_line m'} \<subseteq> set (p_stdout q')"
    by (metis insert_subset prod.collapse)
  moreover have "pem_read S (pem_write R (ec_public R ?b)) = Some (ec_public S ?b)"
    using ssl_okD(5) [OF R(1), of ?b] assms(3) by (simp add: ssl_same_def)
  ultimately show "\<exists>pem P. (\<forall>x. p_out (fst (handleClient R KR (q\<lparr>p_in := x\<rparr>))) = frame (string_bytes pem)) \<and> pem_read S pem = Some P \<and>
      (\<exists>q'. handleClient R KR (q\<lparr>p_in := key_frame S c @ frame (seal S (ecdh S c P) iv (string_bytes m'))\<rparr>) = (q', Inr m') \<and>
        {authentic_line, message_line m'} \<subseteq> set (p_stdout q'))"
    using reply by blast
qed

section \<open>System resources\<close>

lemma system_send_rest: "p_sys (fst (send_rest K d p)) = p_sys p"
proof (induction d arbitrary: p rule: length_induct)
  case (1 d)
  then show ?case
    by (subst send_rest.simps) (simp add: os_send_bytes_def Let_def)
qed

lemma system_sendData: "keeps p_sys (sendData K d)"
  unfolding sendData_def
  by (intro keeps_and_then) (auto simp: keeps_def system_send_rest os_send_bytes_def Let_def ret_def)

lemma system_session: "keeps p_sys (handleClient S K)" "keeps p_sys (performSecureTransfer S K m)"
proof -
  have "keeps p_sys (send_key K peer pem)" for peer pem
    unfolding send_key_def sendString_def by (auto intro!: keeps_and_then system.keeps_basic system_sendData)
  moreover have "keeps p_sys (send_message S K m key)" for key
    unfolding send_message_def by (auto intro!: keeps_and_then system.keeps_basic system.keeps_crypto system_sendData)
  ultimately show "keeps p_sys (handleClient S K)" "keeps p_sys (performSecureTransfer S K m)"
    unfolding handleClient_def performSecureTransfer_def
    by (auto intro!: keeps_and_then system.keeps_phases split: prod.split)
qed

text \<open>The descriptors that calls returned, and those closed.\<close>

fun opened :: "sys_effect list \<Rightarrow> int list" where
  "opened [] = []"
| "opened (Opened fd # es) = fd # opened es"
| "opened (Accepted fd # es) = fd # opened es"
| "opened (_ # es) = opened es"

fun closed :: "sys_effect list \<Rightarrow> int list" where
  "closed [] = []"
| "closed (Closed fd # es) = fd # closed es"
| "closed (_ # es) = closed es"

lemma opened_closed_append [simp]: "opened (es @ ds) = opened es @ opened ds" "closed (es @ ds) = closed es @ closed ds"
  by (induction es rule: opened.induct) simp_all

lemma connect_loop_outcome:
  "(\<exists>j \<le> r. os_connect K a (p_calls p + j) = 0 \<and> (\<forall>i < j. os_connect K a (p_calls p + i) \<noteq> 0) \<and>
      connect_loop K a s (Suc r) p =
        (p\<lparr>p_calls := p_calls p + j + 1, p_sys := p_sys p @ replicate j (Slept 500) @ [Connected a]\<rparr>, Inr ())) \<or>
   ((\<forall>j \<le> r. os_connect K a (p_calls p + j) \<noteq> 0) \<and>
      connect_loop K a s (Suc r) p =
        (p\<lparr>p_calls := p_calls p + r + 1, p_sys := p_sys p @ replicate r (Slept 500) @ [Closed s]\<rparr>,
         Inl ''Failed to connect to receiver''))"
proof (induction r arbitrary: p)
  case 0
  show ?case by (cases "os_connect K a (p_calls p) = 0") (simp_all add: op_defs)
next
  case (Suc r)
  let ?q = "p\<lparr>p_calls := p_calls p + 1, p_sys := p_sys p @ [Slept 500]\<rparr>"
  show ?case
  proof (cases "os_connect K a (p_calls p) = 0")
    case True
    then show ?thesis by (intro disjI1 exI [of _ 0]) (simp add: op_defs)
  next
    case False
    then have step: "connect_loop K a s (Suc (Suc r)) p = connect_loop K a s (Suc r) ?q"
      by (subst connect_loop.simps) (simp add: op_defs)
    from Suc.IH [of ?q] show ?thesis
    proof (elim disjE exE conjE)
      fix j
      assume j: "j \<le> r" "os_connect K a (p_calls ?q + j) = 0" "\<forall>i < j. os_connect K a (p_calls ?q + i) \<noteq> 0"
        "connect_loop K a s (Suc r) ?q =
          (?q\<lparr>p_calls := p_calls ?q + j + 1, p_sys := p_sys ?q @ replicate j (Slept 500) @ [Connected a]\<rparr>, Inr ())"
      then have "os_connect K a (p_calls p + i) \<noteq> 0" if "i < Suc j" for i using that False by (cases i) auto
      with j show ?thesis unfolding step by (intro disjI1 exI [of _ "Suc j"]) simp
    next
      assume none: "\<forall>j \<le> r. os_connect K a (p_calls ?q + j) \<noteq> 0"
        and run: "connect_loop K a s (Suc r) ?q =
          (?q\<lparr>p_calls := p_calls ?q + r + 1, p_sys := p_sys ?q @ replicate r (Slept 500) @ [Closed s]\<rparr>,
           Inl ''Failed to connect to receiver'')"
      have "os_connect K a (p_calls p + j) \<noteq> 0" if "j \<le> Suc r" for j using that none False by (cases j) auto
      then show ?thesis unfolding step run by (intro disjI2) simp
    qed
  qed
qed

lemma call_then: "and_then (call h) f p = f (h (p_calls p)) (p\<lparr>p_calls := p_calls p + 1\<rparr>)"
  by (simp add: and_then_def call_def)

lemma sys_then: "and_then (sys e) f p = f () (p\<lparr>p_sys := p_sys p @ [e]\<rparr>)"
  by (simp add: and_then_def sys_def)

lemma fst_finally: "fst (finally_do m cleanup p) = fst (cleanup (fst (m p)))"
  by (simp add: finally_do_def split: prod.split)

lemmas op_defs' = ret_def throw_def and_then_def cout_def sys_def call_def check_def

lemma receiver_trace:
  obtains (nothing) "p_sys (fst (receiver_start S K path p)) = p_sys p"
  | (trace) fd c mid where "p_sys (fst (receiver_start S K path p)) =
      p_sys p @ Opened fd # Unlinked path # mid @ [Closed fd, Unlinked path]"
    "mid \<in> {[], [Bound fd (sun_path path)], [Bound fd (sun_path path), Listening fd],
      [Bound fd (sun_path path), Listening fd, Accepted c, Closed c]}"
proof -
  have session: "p_sys (fst (handleClient S K q)) = p_sys q" for q
    using system_session(1) by (simp add: keeps_def)
  let ?n = "p_calls p" and ?sp = "sun_path path"
  note run = receiver_start_def op_defs' say_def session fst_finally
  show thesis
  proof (cases "os_socket K ?n < 0")
    case True
    show thesis by (rule nothing) (simp add: run True)
  next
    case fd: False
    show thesis
    proof (cases "os_bind K ?sp (Suc ?n) < 0")
      case True
      show thesis by (rule trace [of "os_socket K ?n" "[]" 0]) (simp_all add: run fd True)
    next
      case bind: False
      show thesis
      proof (cases "os_listen K (Suc (Suc ?n)) < 0")
        case True
        show thesis
          by (rule trace [of "os_socket K ?n" "[Bound (os_socket K ?n) ?sp]" 0]) (simp_all add: run fd bind True)
      next
        case listen: False
        show thesis
        proof (cases "os_accept K (Suc (Suc (Suc ?n))) < 0")
          case True
          show thesis
            by (rule trace [of "os_socket K ?n" "[Bound (os_socket K ?n) ?sp, Listening (os_socket K ?n)]" 0])
              (simp_all add: run fd bind listen True)
        next
          case False
          let ?c = "os_accept K (Suc (Suc (Suc ?n)))"
          show thesis
            by (rule trace [of "os_socket K ?n" "[Bound (os_socket K ?n) ?sp, Listening (os_socket K ?n), Accepted ?c, Closed ?c]" ?c])
              (simp_all add: run fd bind listen False)
        qed
      qed
    qed
  qed
qed

lemma sender_trace:
  obtains (nothing) "p_sys (fst (sender_send S K path m p)) = p_sys p"
  | (trace) fd j mid where "p_sys (fst (sender_send S K path m p)) =
      p_sys p @ Opened fd # replicate j (Slept 500) @ mid @ [Closed fd]" "j \<le> 4" "mid \<in> {[], [Connected (sun_path path)]}"
proof -
  have session: "p_sys (fst (performSecureTransfer S K m q)) = p_sys q" for q
    using system_session(2) by (simp add: keeps_def)
  show thesis
  proof (cases "os_socket K (p_calls p) < 0")
    case True
    show thesis by (rule nothing) (simp add: sender_send_def op_defs' say_def True)
  next
    case False
    let ?fd = "os_socket K (p_calls p)" and ?sp = "sun_path path"
    let ?F = "\<lambda>_ :: unit. and_then (say (tick @ '' Connected to receiver!'')) (\<lambda>_.
        finally_do (performSecureTransfer S K m) (sys (Closed ?fd)))"
    have "\<exists>q. sender_send S K path m p = and_then (connect_loop K ?sp ?fd 5) ?F q \<and> p_sys q = p_sys p @ [Opened ?fd]"
      unfolding sender_send_def using False
      by (simp only: say_then call_then sys_then went_sel if_False) (rule exI, rule conjI, rule refl, simp)
    then obtain q where start: "sender_send S K path m p = and_then (connect_loop K ?sp ?fd 5) ?F q"
      and q: "p_sys q = p_sys p @ [Opened ?fd]" by blast
    have F: "p_sys (fst (?F () r)) = p_sys r @ [Closed ?fd]" for r
      by (simp add: fst_finally session sys_def)
    have five: "connect_loop K ?sp ?fd 5 = connect_loop K ?sp ?fd (Suc 4)" by (simp only: eval_nat_numeral)
    from connect_loop_outcome [of 4 K ?sp q ?fd] show thesis
    proof (elim disjE exE conjE)
      fix j assume j: "j \<le> 4" "connect_loop K ?sp ?fd (Suc 4) q = (q\<lparr>p_calls := p_calls q + j + 1,
          p_sys := p_sys q @ replicate j (Slept 500) @ [Connected ?sp]\<rparr>, Inr ())"
      show thesis
        by (rule trace [of ?fd j "[Connected ?sp]"])
          (simp_all only: start five and_then_simps(3) [where m = "connect_loop K ?sp ?fd (Suc 4)", OF j(2)] F, simp_all add: j(1) q)
    next
      assume none: "connect_loop K ?sp ?fd (Suc 4) q = (q\<lparr>p_calls := p_calls q + 4 + 1,
          p_sys := p_sys q @ replicate 4 (Slept 500) @ [Closed ?fd]\<rparr>, Inl ''Failed to connect to receiver'')"
      show thesis
        by (rule trace [of ?fd 4 "[]"]) (simp_all only: start five and_then_simps(4) [where m = "connect_loop K ?sp ?fd (Suc 4)", OF none], simp_all add: q)
    qed
  qed
qed

lemma exit_code_proc: "exit_code r = (p', code) \<Longrightarrow> p' = fst r"
  by (cases r) (auto simp: exit_code_def split: sum.splits)

text \<open>
  C38: Descriptors are closed. However the program is called and whatever fails, in the operating system, in OpenSSL or
  in the exchange, every descriptor it got is closed again when it ends, exactly once. A receiver that has bound its socket
  removes the file at the end, but by the full path, while the address holds at most 107 bytes of it: the file that was
  bound is removed exactly when the path fits. The program never waits more than four times.
\<close>

theorem descriptors_closed:
  assumes "transfer_main S K argv p = (p', code)" "p_sys p = []"
  shows "mset (opened (p_sys p')) = mset (closed (p_sys p')) \<and>
    (\<forall>fd sp. Bound fd sp \<in> set (p_sys p') \<longrightarrow>
      sp = sun_path (getSocketPath K) \<and> last (p_sys p') = Unlinked (getSocketPath K) \<and>
      (Unlinked sp \<in> set (p_sys p') \<longleftrightarrow> length (getSocketPath K) \<le> 107)) \<and>
    length (filter (\<lambda>e. \<exists>t. e = Slept t) (p_sys p')) \<le> 4"
proof -
  let ?path = "getSocketPath K"
  have short: "sun_path ?path = ?path \<longleftrightarrow> length ?path \<le> 107"
    by (metis length_take min_def nat_le_linear sun_path_def take_all)
  then have short': "?path = sun_path ?path \<longleftrightarrow> length ?path \<le> 107" by auto
  consider (nothing) "p' = p" | (receive) "p' = fst (receiver_start S K ?path p)" | (send) "p' = fst (sender_send S K ?path (argv ! 2) p)"
    using assms(1) by (auto simp: transfer_main_def dest: exit_code_proc split: if_splits)
  then show ?thesis
  proof cases
    case receive
    then show ?thesis
      by (cases rule: receiver_trace [of S K ?path p]) (auto simp: assms(2) short short')
  next
    case send
    have closed_sleep: "opened (replicate j (Slept t)) = []" "closed (replicate j (Slept t)) = []" for j t
      by (induction j) simp_all
    from send show ?thesis
      by (cases rule: sender_trace [of S K ?path "argv ! 2" p]) (auto simp: assms(2) closed_sleep)
  qed (simp add: assms(2))
qed

text \<open>
  The sender is patient but not forever. The loop makes up to five attempts half a second apart; it returns, connected, at
  the first that succeeds, and after five failures it closes the socket and throws.
\<close>

theorem sender_retries:
  "if \<exists>j < 5. os_connect K a (p_calls p + j) = 0
   then \<exists>j < 5. os_connect K a (p_calls p + j) = 0 \<and> (\<forall>i < j. os_connect K a (p_calls p + i) \<noteq> 0) \<and>
     connect_loop K a s 5 p =
       (p\<lparr>p_calls := p_calls p + j + 1, p_sys := p_sys p @ replicate j (Slept 500) @ [Connected a]\<rparr>, Inr ())
   else connect_loop K a s 5 p =
       (p\<lparr>p_calls := p_calls p + 5, p_sys := p_sys p @ replicate 4 (Slept 500) @ [Closed s]\<rparr>,
        Inl ''Failed to connect to receiver'')"
proof -
  have five: "connect_loop K a s 5 = connect_loop K a s (Suc 4)" by (simp only: eval_nat_numeral)
  have less: "j \<le> 4 \<longleftrightarrow> j < 5" for j :: nat by auto
  show ?thesis
    using connect_loop_outcome [of 4 K a p s] unfolding five less by (auto simp: add.assoc)
qed

section \<open>Instances\<close>

lemma example_ready: "ready ref_ssl example_os (example_proc [])"
  using ref_ssl_ok example_os_ok by (simp add: ready_def)

theorem session_delivers_witness:
  "\<exists>x y q'. connected_run ref_ssl example_os (example_proc []) ''Hi'' ref_ssl example_os (example_proc []) x y \<and>
     handleClient ref_ssl example_os ((example_proc [])\<lparr>p_in := x\<rparr>) = (q', Inr ''Hi'')"
proof -
  have "ssl_same ref_ssl ref_ssl" by (simp add: ssl_same_def)
  moreover have "length ''Hi'' + 28 \<le> max_data" by (simp add: max_data_def)
  ultimately show ?thesis using session_delivers [OF example_ready example_ready] by blast
qed

theorem man_in_the_middle_witness:
  "\<exists>x q'. handleClient ref_ssl example_os ((example_proc [])\<lparr>p_in := x\<rparr>) = (q', Inr ''No'') \<and> authentic_line \<in> set (p_stdout q')"
proof -
  have "ssl_same ref_ssl ref_ssl" by (simp add: ssl_same_def)
  moreover have "length ''No'' + 28 \<le> max_data" by (simp add: max_data_def)
  moreover have "length (replicate 12 (5 :: u8)) = IV_SIZE" by simp
  ultimately obtain P q' where "handleClient ref_ssl example_os ((example_proc [])\<lparr>p_in := key_frame ref_ssl (PrivateKey [9]) @
        frame (seal ref_ssl (ecdh ref_ssl (PrivateKey [9]) P) (replicate 12 5) (string_bytes ''No''))\<rparr>) = (q', Inr ''No'')"
      "authentic_line \<in> set (p_stdout q')"
    using man_in_the_middle [OF example_ready example_ready, of "''No''" "replicate 12 5" "''Hi''" "PrivateKey [9]"
        tampered_text "example_proc []"] by auto
  then show ?thesis by (intro exI conjI)
qed

theorem descriptors_closed_witness:
  "\<exists>p' code. transfer_main ref_ssl example_os [''secure_transfer'', ''receive''] (example_proc []) = (p', code) \<and>
     mset (opened (p_sys p')) = mset (closed (p_sys p'))"
proof -
  obtain p' code where run: "transfer_main ref_ssl example_os [''secure_transfer'', ''receive''] (example_proc []) = (p', code)"
    by (cases "transfer_main ref_ssl example_os [''secure_transfer'', ''receive''] (example_proc [])")
  moreover have "p_sys (example_proc []) = []" by (simp add: example_proc_def)
  ultimately show ?thesis using descriptors_closed [OF run] by blast
qed

end
