(* ===== verification/Crypto_Core.thy ===== *)
theory Crypto_Core
  imports Cpp_Crypto
begin

text \<open>
  The program \<^verbatim>\<open>src/crypto_core.cpp\<close>: a demonstration in one process, without network. Its classes are those of the other
  program with more output; the definitions here add that output to theirs. Output that only explains or decorates is left out.
\<close>

section \<open>The classes\<close>

definition core_printHex :: "string \<Rightarrow> bytes \<Rightarrow> unit op" where
  "core_printHex label data = cout (HexDump label (length data) data)"

definition core_generateKey :: "openssl \<Rightarrow> bytes op" where
  "core_generateKey S =
     and_then (generateKey S) (\<lambda>key.
     and_then (say ''Generated 256-bit AES key'') (\<lambda>_.
     and_then (core_printHex ''AES Key'' key) (\<lambda>_.
     ret key)))"

definition core_encrypt :: "openssl \<Rightarrow> bytes \<Rightarrow> bytes \<Rightarrow> bytes op" where
  "core_encrypt S plaintext key =
     and_then (aes_encrypt S plaintext key) (\<lambda>result.
     and_then (say (''Plaintext size: '' @ show_nat (length plaintext) @ '' bytes'')) (\<lambda>_.
     and_then (say (''Ciphertext size: '' @ show_nat (length (data_cipher result)) @ '' bytes'')) (\<lambda>_.
     and_then (core_printHex ''IV'' (data_iv result)) (\<lambda>_.
     and_then (core_printHex ''Tag'' (data_tag result)) (\<lambda>_.
     ret result)))))"

definition core_mismatch_text :: string where
  "core_mismatch_text = ''Decryption failed: authentication tag mismatch (data tampered!)''"

definition core_decrypt :: "openssl \<Rightarrow> bytes \<Rightarrow> bytes \<Rightarrow> bytes op" where
  "core_decrypt S encrypted_data key =
     and_then (aes_decrypt S core_mismatch_text encrypted_data key) (\<lambda>plaintext.
     and_then (say ''Decryption successful!'') (\<lambda>_.
     and_then (say ''Authentication verified (data is authentic)'') (\<lambda>_.
     ret plaintext)))"

definition core_generateKeyPair :: "openssl \<Rightarrow> ecc \<Rightarrow> ecc op" where
  "core_generateKeyPair S e =
     and_then (generateKeyPair S e) (\<lambda>e'.
     and_then (say ''Generated P-256 ECC key pair'') (\<lambda>_.
     ret e'))"

definition core_deriveSharedSecret :: "openssl \<Rightarrow> ecc \<Rightarrow> public_key \<Rightarrow> bytes op" where
  "core_deriveSharedSecret S e peer_public_key =
     and_then (deriveSharedSecret S e peer_public_key) (\<lambda>shared_secret.
     and_then (say ''Derived shared secret via ECDH'') (\<lambda>_.
     and_then (core_printHex ''Shared Secret'' shared_secret) (\<lambda>_.
     ret shared_secret)))"

section \<open>The demonstration\<close>

definition demo_plaintext :: string where
  "demo_plaintext = ''This is a TOP SECRET message that needs encryption!''"

abbreviation yes :: string where "yes \<equiv> ''YES '' @ [CHR 0xE2, CHR 0x9C, CHR 0x93]"
abbreviation no :: string where "no \<equiv> ''NO '' @ [CHR 0xE2, CHR 0x9C, CHR 0x97]"

text \<open>The steps from the exchange of the keys on; the value is what was decrypted, beside the key derived and not used.\<close>

definition demo_exchange :: "openssl \<Rightarrow> bytes \<Rightarrow> bytes \<Rightarrow> ecc \<Rightarrow> ecc \<Rightarrow> (string \<times> bytes) op" where
  "demo_exchange S aes_key encrypted_data alice_ecc bob_ecc =
     and_then (exportPublicKey S alice_ecc) (\<lambda>alice_pub.
     and_then (exportPublicKey S bob_ecc) (\<lambda>bob_pub.
     and_then (say (take 100 alice_pub @ ''...'')) (\<lambda>_.
     and_then (say (take 100 bob_pub @ ''...'')) (\<lambda>_.
     and_then (importPublicKey S bob_pub) (\<lambda>bob_public_key.
     and_then (core_deriveSharedSecret S alice_ecc bob_public_key) (\<lambda>alice_shared_secret.
     and_then (importPublicKey S alice_pub) (\<lambda>alice_public_key.
     and_then (core_deriveSharedSecret S bob_ecc alice_public_key) (\<lambda>bob_shared_secret.
     (let secrets_match = (alice_shared_secret = bob_shared_secret) in
      and_then (say (''Shared secrets match: '' @ (if secrets_match then yes else no))) (\<lambda>_.
      if \<not> secrets_match then throw ''ECDH key exchange failed!''
      else
        (let derived_aes_key = take 32 alice_shared_secret in
         and_then (say (''Transmitted: Encrypted data ('' @ show_nat (length encrypted_data) @ '' bytes)'')) (\<lambda>_.
         and_then (core_decrypt S encrypted_data aes_key) (\<lambda>decrypted_data.
         (let decrypted_message = bytes_string decrypted_data in
          and_then (say (''Decrypted message: '' @ double_quote @ decrypted_message @ double_quote)) (\<lambda>_.
          (let integrity_ok = (decrypted_message = demo_plaintext) in
           and_then (say (''Message integrity verified: '' @ (if integrity_ok then yes else no))) (\<lambda>_.
           ret (decrypted_message, derived_aes_key))))))))))))))))))"

definition demo_body :: "openssl \<Rightarrow> (string \<times> bytes) op" where
  "demo_body S =
     and_then (core_generateKey S) (\<lambda>aes_key.
     and_then (say (''Original message: '' @ double_quote @ demo_plaintext @ double_quote)) (\<lambda>_.
     and_then (core_encrypt S (string_bytes demo_plaintext) aes_key) (\<lambda>encrypted_data.
     and_then (core_generateKeyPair S ecc_new) (\<lambda>alice_ecc.
     and_then (core_generateKeyPair S ecc_new) (\<lambda>bob_ecc.
     demo_exchange S aes_key encrypted_data alice_ecc bob_ecc)))))"

definition demo_main :: "openssl \<Rightarrow> proc \<Rightarrow> proc \<times> nat" where
  "demo_main S p = (case demo_body S p of (q, Inl e) \<Rightarrow> (q, 1) | (q, Inr _) \<Rightarrow> (q, 0))"

section \<open>What the demonstration shows\<close>

definition decrypted_line :: printed where
  "decrypted_line = Text (''Decrypted message: '' @ double_quote @ demo_plaintext @ double_quote)"

definition integrity_line :: printed where
  "integrity_line = Text (''Message integrity verified: '' @ yes)"

text \<open>
  The whole output, from the key of the start, the initialisation vector of the encryption, the two key pairs and the exchanged secret.
\<close>

definition secret_lines :: "bytes \<Rightarrow> printed list" where
  "secret_lines secret = [Text ''Derived shared secret via ECDH'', HexDump ''Shared Secret'' (length secret) secret]"

definition sealing_lines :: "openssl \<Rightarrow> bytes \<Rightarrow> bytes \<Rightarrow> printed list" where
  "sealing_lines S key iv =
     [Text ''Generated 256-bit AES key'', HexDump ''AES Key'' KEY_SIZE key,
      Text (''Original message: '' @ double_quote @ demo_plaintext @ double_quote),
      Text (''Plaintext size: '' @ show_nat (length demo_plaintext) @ '' bytes''),
      Text (''Ciphertext size: '' @ show_nat (length demo_plaintext) @ '' bytes''),
      HexDump ''IV'' IV_SIZE iv,
      HexDump ''Tag'' TAG_SIZE (gcm_tag S key iv (gcm_encrypt S key iv (string_bytes demo_plaintext)))]"

definition exchange_lines :: "openssl \<Rightarrow> private_key \<Rightarrow> private_key \<Rightarrow> bytes \<Rightarrow> printed list" where
  "exchange_lines S a b secret =
     [Text (take 100 (pem_write S (ec_public S a)) @ ''...''), Text (take 100 (pem_write S (ec_public S b)) @ ''...'')] @
     secret_lines secret @ secret_lines secret @
     [Text (''Shared secrets match: '' @ yes),
      Text (''Transmitted: Encrypted data ('' @ show_nat (IV_SIZE + length demo_plaintext + TAG_SIZE) @ '' bytes)''),
      Text ''Decryption successful!'', Text ''Authentication verified (data is authentic)'', decrypted_line, integrity_line]"

definition demo_output :: "openssl \<Rightarrow> bytes \<Rightarrow> bytes \<Rightarrow> private_key \<Rightarrow> private_key \<Rightarrow> bytes \<Rightarrow> printed list" where
  "demo_output S key iv a b secret =
     sealing_lines S key iv @ [Text ''Generated P-256 ECC key pair'', Text ''Generated P-256 ECC key pair''] @
     exchange_lines S a b secret"

text \<open>What is left of an output without the lines that show the secret.\<close>

definition other_lines :: "printed list \<Rightarrow> printed list" where
  "other_lines = filter (\<lambda>l. case l of HexDump label n d \<Rightarrow> label \<noteq> ''Shared Secret'' | Text s \<Rightarrow> True)"

text \<open>An operation that succeeds, reads and sends nothing, and prints exactly these lines.\<close>

definition prints :: "'a op \<Rightarrow> proc \<Rightarrow> 'a \<Rightarrow> printed list \<Rightarrow> bool" where
  "prints m p x ls \<longleftrightarrow> (\<exists>k. m p = (went k (p_in p) [] ls p, Inr x))"

lemma prints_then:
  assumes "prints m p x ls" "\<And>q. prints (f x) q y ls'"
  shows "prints (and_then m f) p y (ls @ ls')"
proof -
  obtain k where m: "m p = (went k (p_in p) [] ls p, Inr x)" using assms(1) by (auto simp: prints_def)
  obtain k' where "f x (went k (p_in p) [] ls p) = (went k' (p_in p) [] ls' (went k (p_in p) [] ls p), Inr y)"
    using assms(2) [of "went k (p_in p) [] ls p"] by (auto simp: prints_def)
  then show ?thesis using m by (auto simp: prints_def and_then_simps(3))
qed

lemma prints_conseq: "prints m p x ls \<Longrightarrow> ls = ls' \<Longrightarrow> prints m p x ls'"
  by simp

lemma prints_say: "prints (say s) p () [Text s]"
  by (auto simp: prints_def say_eq)

lemma core_printHex_eq: "core_printHex l d p = (went (p_calls p) (p_in p) [] [HexDump l (length d) d] p, Inr ())"
  by (simp add: core_printHex_def cout_def went_def)

lemma prints_hex: "prints (core_printHex l d) p () [HexDump l (length d) d]"
  by (auto simp: prints_def core_printHex_eq)

lemma prints_ret: "prints (ret x) p x []"
  unfolding prints_def ret_def by (intro exI [of _ "p_calls p"]) (simp add: went_def)

lemma ticked_went: "ticked k p = went k (p_in p) [] [] p"
  by (simp add: ticked_def went_def)

lemma prints_ticked: "\<exists>k. m p = (ticked k p, Inr x) \<Longrightarrow> prints m p x []"
  by (auto simp: prints_def ticked_went)

lemmas prints_steps = prints_then [OF prints_say] prints_then [OF prints_hex] prints_ret

section \<open>What the steps print\<close>

lemma core_derive_prints:
  assumes "ssl_up S"
  shows "prints (core_deriveSharedSecret S (keys_of S a) (ec_public S b)) p (ecdh S a (ec_public S b))
    (secret_lines (ecdh S a (ec_public S b)))"
proof -
  have derive: "prints (deriveSharedSecret S (keys_of S a) (ec_public S b)) q (ecdh S a (ec_public S b)) []" for q
    by (rule prints_ticked [OF deriveSharedSecret_up [OF assms]]) (simp add: keys_of_def)
  show ?thesis
    unfolding core_deriveSharedSecret_def
    by (rule prints_conseq, rule prints_then [OF derive], (rule prints_steps)+) (simp add: secret_lines_def)
qed

lemma core_decrypt_prints:
  assumes "ssl_ok S" "ssl_up S" "length iv = IV_SIZE"
  shows "prints (core_decrypt S (seal S key iv m) key) p m
    [Text ''Decryption successful!'', Text ''Authentication verified (data is authentic)'']"
  unfolding core_decrypt_def
  by (rule prints_conseq, rule prints_then [OF prints_ticked [OF aes_decrypt_seal [OF assms]]], (rule prints_steps)+) simp

lemma demo_exchange_prints:
  assumes "ssl_ok S" "ssl_up S" "length iv = IV_SIZE"
  shows "prints (demo_exchange S key (seal S key iv (string_bytes demo_plaintext)) (keys_of S a) (keys_of S b)) p
    (demo_plaintext, ecdh S a (ec_public S b)) (exchange_lines S a b (ecdh S a (ec_public S b)))"
proof -
  let ?k = "ecdh S a (ec_public S b)" and ?d = "seal S key iv (string_bytes demo_plaintext)"
  have export: "prints (exportPublicKey S (keys_of S c)) q (pem_write S (ec_public S c)) []" for c q
    by (rule prints_ticked [OF exportPublicKey_up [OF assms(2)]]) (simp add: keys_of_def)
  have import_: "prints (importPublicKey S (pem_write S (ec_public S c))) q (ec_public S c) []" for c q
    using importPublicKey_up [OF assms(2), of "pem_write S (ec_public S c)" q] ssl_okD(5) [OF assms(1), of c]
    by (intro prints_ticked) simp
  have sym: "ecdh S b (ec_public S a) = ?k" and len: "take 32 ?k = ?k" using ssl_okD(6,7) [OF assms(1)] by simp_all
  have size: "length ?d = IV_SIZE + length demo_plaintext + TAG_SIZE"
    using assms(3) ssl_okD(3,4) [OF assms(1)] by (simp add: seal_def string_bytes_def)
  note derive = core_derive_prints [OF assms(2)]
  show ?thesis
    unfolding demo_exchange_def Let_def
    by (rule prints_conseq, rule prints_then [OF export], rule prints_then [OF export], rule prints_steps, rule prints_steps,
        rule prints_then [OF import_], rule prints_then [OF derive], rule prints_then [OF import_], rule prints_then [OF derive],
        simp only: sym len refl if_True not_True_eq_False if_False, rule prints_steps, rule prints_steps,
        rule prints_then [OF core_decrypt_prints [OF assms]], simp only: bytes_string_bytes refl if_True, (rule prints_steps)+)
      (simp add: exchange_lines_def size sym decrypted_line_def integrity_line_def)
qed

text \<open>Up to the exchange the calls are counted as well, since they decide which random bytes and keys there are.\<close>

lemma core_generateKey_run:
  assumes "ssl_ok S" "ssl_up S"
  shows "core_generateKey S p = (went (p_calls p + 1) (p_in p) []
    [Text ''Generated 256-bit AES key'', HexDump ''AES Key'' KEY_SIZE (ssl_rand S KEY_SIZE (p_calls p))] p,
    Inr (ssl_rand S KEY_SIZE (p_calls p)))"
proof -
  have "generateKey S p = (went (p_calls p + 1) (p_in p) [] [] p, Inr (ssl_rand S KEY_SIZE (p_calls p)))"
    by (simp add: generateKey_def rand_bytes_def check_up [OF assms(2)] ret_def ticked_went)
  then show ?thesis
    by (simp add: core_generateKey_def and_then_simps(3) [of "generateKey S"] and_then_simps(3) [OF say_eq]
        and_then_simps(3) [OF core_printHex_eq] ret_def ssl_okD(1) [OF assms(1)])
qed

lemma core_encrypt_run:
  fixes S m key p
  defines "iv \<equiv> ssl_rand S IV_SIZE (p_calls p)"
  assumes "ssl_ok S" "ssl_up S"
  shows "core_encrypt S m key p = (went (p_calls p + 8) (p_in p) []
    [Text (''Plaintext size: '' @ show_nat (length m) @ '' bytes''), Text (''Ciphertext size: '' @ show_nat (length m) @ '' bytes''),
     HexDump ''IV'' IV_SIZE iv, HexDump ''Tag'' TAG_SIZE (gcm_tag S key iv (gcm_encrypt S key iv m))] p,
    Inr (seal S key iv m))"
proof -
  note ok = ssl_okD [OF assms(2)]
  have iv: "length iv = IV_SIZE" by (simp add: iv_def ok(1))
  have "aes_encrypt S m key p = (went (p_calls p + 8) (p_in p) [] [] p, Inr (seal S key iv m))"
    using aes_encrypt_up [OF assms(3)] by (simp add: ticked_went iv_def)
  then show ?thesis
    by (simp add: core_encrypt_def and_then_simps(3) [of "aes_encrypt S m key"] and_then_simps(3) [OF say_eq]
        and_then_simps(3) [OF core_printHex_eq] ret_def)
      (simp add: seal_def parts_of_append iv ok(3,4))
qed

lemma core_generateKeyPair_run:
  assumes "ssl_up S"
  shows "core_generateKeyPair S ecc_new p = (went (p_calls p + 9) (p_in p) [] [Text ''Generated P-256 ECC key pair''] p,
    Inr (keys_of S (ssl_keygen S (p_calls p + 6))))"
  using generateKeyPair_calls [OF assms, of ecc_new p]
  by (simp add: core_generateKeyPair_def and_then_simps(3) [of "generateKeyPair S ecc_new"] and_then_simps(3) [OF say_eq]
      ret_def ticked_went keys_of_def)

lemma demo_body_run:
  fixes S p
  defines "key \<equiv> ssl_rand S KEY_SIZE (p_calls p)" and "iv \<equiv> ssl_rand S IV_SIZE (p_calls p + 1)"
    and "a \<equiv> ssl_keygen S (p_calls p + 15)" and "b \<equiv> ssl_keygen S (p_calls p + 24)"
  assumes "ssl_ok S" "ssl_up S"
  shows "demo_body S p = demo_exchange S key (seal S key iv (string_bytes demo_plaintext)) (keys_of S a) (keys_of S b)
    (went (p_calls p + 27) (p_in p) [] (sealing_lines S key iv @
      [Text ''Generated P-256 ECC key pair'', Text ''Generated P-256 ECC key pair'']) p)"
  by (simp add: demo_body_def and_then_simps(3) [OF core_generateKey_run [OF assms(5,6)]] and_then_simps(3) [OF say_eq]
      and_then_simps(3) [OF core_encrypt_run [OF assms(5,6)]] and_then_simps(3) [OF core_generateKeyPair_run [OF assms(6)]]
      sealing_lines_def key_def iv_def a_def b_def add.commute [of "p_calls p"])

lemma demo_main_prints:
  fixes S p
  defines "key \<equiv> ssl_rand S KEY_SIZE (p_calls p)" and "iv \<equiv> ssl_rand S IV_SIZE (p_calls p + 1)"
    and "a \<equiv> ssl_keygen S (p_calls p + 15)" and "b \<equiv> ssl_keygen S (p_calls p + 24)"
  assumes "ssl_ok S" "ssl_up S"
  shows "\<exists>p'. demo_main S p = (p', 0) \<and> p_stdout p' = p_stdout p @ demo_output S key iv a b (ecdh S a (ec_public S b))"
proof -
  note body = demo_body_run [OF assms(5,6), of p, folded key_def iv_def a_def b_def]
  have "length iv = IV_SIZE" by (simp add: iv_def ssl_okD(1) [OF assms(5)])
  note exchange = demo_exchange_prints [OF assms(5,6) this, of key a b]
  have "\<exists>k. demo_body S p = (went k (p_in p) [] (demo_output S key iv a b (ecdh S a (ec_public S b))) p,
      Inr (demo_plaintext, ecdh S a (ec_public S b)))"
    using exchange [of "went (p_calls p + 27) (p_in p) [] (sealing_lines S key iv @
      [Text ''Generated P-256 ECC key pair'', Text ''Generated P-256 ECC key pair'']) p"]
    by (simp add: body demo_output_def prints_def)
  then show ?thesis by (auto simp: demo_main_def)
qed

text \<open>With another key agreement the same library works as well, as long as the two sides agree.\<close>

lemma other_agreement:
  assumes "ssl_up S" shows "ssl_up (S\<lparr>ecdh := f\<rparr>)"
proof -
  have same: "ec_public (S\<lparr>ecdh := f\<rparr>) = ec_public S" "ssl_status (S\<lparr>ecdh := f\<rparr>) = ssl_status S" by simp_all
  show ?thesis using assms unfolding ssl_up_def same .
qed

lemma other_lines_secret: "other_lines (demo_output S key iv a b x) = other_lines (demo_output S key iv a b y)"
  by (simp add: other_lines_def demo_output_def sealing_lines_def exchange_lines_def secret_lines_def decrypted_line_def
      integrity_line_def)

lemma wrong_key_opens_by_tag:
  assumes "ssl_ok S" "ssl_up S" "length iv = IV_SIZE"
  shows "snd (aes_decrypt S t (seal S key iv m) other z) = Inl t \<or>
    gcm_tag S other iv (gcm_encrypt S key iv m) = gcm_tag S key iv (gcm_encrypt S key iv m)"
proof -
  note tag = ssl_okD(4) [OF assms(1)]
  have "\<not> length (seal S key iv m) < IV_SIZE + TAG_SIZE" using assms(3) tag by (simp add: seal_def)
  with aes_decrypt_up [OF assms(2), of t "seal S key iv m" other z] show ?thesis
    using assms(3) tag by (auto simp: seal_def parts_of_append)
qed

text \<open>
  C39: The demonstration works, but the key it exchanges protects nothing. While OpenSSL works the program ends with code zero, having
  printed exactly these lines. The message is sealed with the random key of the start, which only the one process knows: what goes into
  the exchange is sealed with it, and the tag that is printed is the one under it. The exchanged secret appears in the two
  lines that show it and nowhere else: with any other key agreement on which the two sides agree, whatever secret it gives, the program prints
  the same, these lines apart, so neither sealing nor opening uses the secret. Somebody who had it as his key could open the
  message only if the two keys gave the same tag.
\<close>

theorem demo_ignores_exchanged_key:
  fixes S p
  defines "key \<equiv> ssl_rand S KEY_SIZE (p_calls p)" and "iv \<equiv> ssl_rand S IV_SIZE (p_calls p + 1)"
    and "a \<equiv> ssl_keygen S (p_calls p + 15)" and "b \<equiv> ssl_keygen S (p_calls p + 24)" and "m \<equiv> string_bytes demo_plaintext"
  assumes "ssl_ok S" "ssl_up S" "ssl_ok (S\<lparr>ecdh := f\<rparr>)"
  shows "\<exists>p' q p1. demo_main S p = (p', 0) \<and> demo_main (S\<lparr>ecdh := f\<rparr>) p = (q, 0) \<and>
    p_stdout p' = p_stdout p @ demo_output S key iv a b (ecdh S a (ec_public S b)) \<and>
    p_stdout q = p_stdout p @ demo_output S key iv a b (f a (ec_public S b)) \<and>
    other_lines (p_stdout p') = other_lines (p_stdout q) \<and>
    demo_body S p = demo_exchange S key (seal S key iv m) (keys_of S a) (keys_of S b) p1 \<and>
    {HexDump ''Tag'' TAG_SIZE (gcm_tag S key iv (gcm_encrypt S key iv m)), decrypted_line, integrity_line} \<subseteq> set (p_stdout p') \<and>
    snd (aes_decrypt S t (seal S key iv m) key z) = Inr m \<and>
    (snd (aes_decrypt S t (seal S key iv m) (ecdh S a (ec_public S b)) z) = Inl t \<or>
     gcm_tag S (ecdh S a (ec_public S b)) iv (gcm_encrypt S key iv m) = gcm_tag S key iv (gcm_encrypt S key iv m))"
proof -
  let ?T = "S\<lparr>ecdh := f\<rparr>"
  have iv: "length iv = IV_SIZE" by (simp add: iv_def ssl_okD(1) [OF assms(6)])
  obtain p' where p': "demo_main S p = (p', 0)" "p_stdout p' = p_stdout p @ demo_output S key iv a b (ecdh S a (ec_public S b))"
    using demo_main_prints [OF assms(6,7), of p] by (auto simp: key_def iv_def a_def b_def)
  have same: "demo_output ?T = demo_output S"
    by (intro ext) (simp add: demo_output_def sealing_lines_def exchange_lines_def)
  obtain q where q: "demo_main ?T p = (q, 0)" "p_stdout q = p_stdout p @ demo_output S key iv a b (f a (ec_public S b))"
    using demo_main_prints [OF assms(8) other_agreement [OF assms(7)], of p, unfolded same]
    by (auto simp: key_def iv_def a_def b_def)
  have lines: "other_lines (p_stdout p') = other_lines (p_stdout q)"
    using other_lines_secret [of S key iv a b] unfolding p'(2) q(2) by (simp add: other_lines_def)
  have shown: "{HexDump ''Tag'' TAG_SIZE (gcm_tag S key iv (gcm_encrypt S key iv m)), decrypted_line, integrity_line} \<subseteq> set (p_stdout p')"
    by (simp add: p'(2) demo_output_def sealing_lines_def exchange_lines_def m_def)
  have opens: "snd (aes_decrypt S t (seal S key iv m) key z) = Inr m"
    using aes_decrypt_seal [OF assms(6,7) iv, of t key m z] by auto
  note body = demo_body_run [OF assms(6,7), of p, folded key_def iv_def a_def b_def m_def]
  show ?thesis
    using p' q lines body shown opens wrong_key_opens_by_tag [OF assms(6,7) iv, of t key m] by blast
qed

section \<open>Instance\<close>

text \<open>The other key agreement of the instance gives the secret of 32 zeros, always.\<close>

lemma constant_agreement: "ssl_ok (ref_ssl\<lparr>ecdh := \<lambda>a P. replicate 32 0\<rparr>)"
  using ref_ssl_ok(1) by (simp add: ssl_ok_def)

theorem demo_ignores_exchanged_key_witness:
  "\<exists>p' q. demo_main ref_ssl (example_proc []) = (p', 0) \<and> decrypted_line \<in> set (p_stdout p') \<and>
     demo_main (ref_ssl\<lparr>ecdh := \<lambda>a P. replicate 32 0\<rparr>) (example_proc []) = (q, 0) \<and>
     other_lines (p_stdout p') = other_lines (p_stdout q)"
  using demo_ignores_exchanged_key [OF ref_ssl_ok constant_agreement, of "example_proc []" "[]" "example_proc []"] by auto

end
