(* ===== verification/Spec2Isabelle.thy ===== *)
theory Spec2Isabelle
  imports Settlement Adversary Node_Refine Ledger_Snapshot Wallet_Tx_Tests Message_Tests Cli_Tests Secure_Transfer Crypto_Core
begin

text \<open>
  A verification of zyphra, the peer-to-peer transfer node under \<^verbatim>\<open>src/zyphra\<close>, and of the two C++ programs beside
  it. A node owns a wallet, keeps a ledger of account balances, and exchanges signed transactions with other nodes over libp2p. A user types
  commands; a \<open>send\<close> signs a transaction, debits the own account and hands the same bytes to every connected
  peer (request-response) and to a gossip topic; a node that receives a transaction addressed to itself verifies it and
  credits its own account. The C++ programs are a transfer of one encrypted message over a local socket and a
  demonstration of the same cryptography; they share no code with the node.

  \<^bold>\<open>Parts of the program and their theories\<close>

  \<^item> \<^verbatim>\<open>wallet.rs\<close>: theory \<^verbatim>\<open>Wallet\<close>. The record \<open>wallet\<close>, one definition per method (\<open>wallet_generate\<close>,
    \<open>from_secret_bytes\<close>, \<open>derive_address\<close>, \<open>wallet_sign\<close>, \<open>wallet_verify\<close>, \<open>address_from_hex\<close>, the two formatters).
    Shown: restoring, the round trip of the textual address, the errors of its parser, signatures verify.
  \<^item> \<^verbatim>\<open>transaction.rs\<close>: theory \<^verbatim>\<open>Transaction\<close>. The record \<open>signed_transaction\<close>, \<open>tx_create\<close>, \<open>tx_verify\<close>, the
    digest, the hash, \<open>tx_rlp_append\<close> and \<open>tx_decode\<close>. Shown: the wire round trip, soundness of the decoder, what verification
    accepts, and that tampering or equal hashes exhibit a collision or a doubly valid signature.
  \<^item> \<^verbatim>\<open>ledger.rs\<close>: theory \<^verbatim>\<open>Ledger\<close>. The record \<open>ledger\<close> of accounts, \<open>ledger_register\<close>, \<open>ledger_balance\<close>,
    \<open>ledger_nonce\<close>, \<open>ledger_transfer\<close>, \<open>ledger_credit\<close>, \<open>ledger_snapshot\<close>, in both build profiles. Shown: the effect and every
    error of a transfer, when it panics, conservation of the supply, the invariant. Theory
    \<^verbatim>\<open>Ledger_Spec\<close> states the abstract ledger on unbounded numbers, the refinement of single transfers and of whole runs, and that no
    accepted transfer can be replayed. Theory \<^verbatim>\<open>Ledger_Conc\<close> lets any number of
    threads share the ledger, at the granularity of its map guards and of \<open>transfer_lock\<close>: updates are
    linearizable, there is no deadlock, every operation returns, a thread alone does what the sequential operation
    does, and what an unlocked reader can see in between. Theory \<^verbatim>\<open>Ledger_Snapshot\<close> adds a reader that takes a
    snapshot shard by shard: its entries come from different moments, and it can show money that never existed.
  \<^item> \<^verbatim>\<open>network.rs\<close>: theory \<^verbatim>\<open>Network\<close>. Messages, events, the configuration of the composed behaviour
    (\<open>build_behaviour\<close>) and its errors.
  \<^item> \<^verbatim>\<open>main.rs\<close>: theory \<^verbatim>\<open>Node\<close> holds the record \<open>node\<close> of the variables of \<open>main\<close>, \<open>handle_command\<close> and
    \<open>handle_behaviour_event\<close>, one definition per branch. Theory \<^verbatim>\<open>Node_Spec\<close> shows what they do: an accepted and a refused
    \<open>send\<close>, requests and their answers, idempotence and convergence of gossip, repeated requests. Theory \<^verbatim>\<open>Event_Loop\<close> holds
    start-up (\<open>main_init\<close>) and the loop (\<open>main_turn\<close>, the step relation \<open>main_loop\<close>, and \<open>main_exec\<close>
    for given inputs), and shows the invariant of all reachable states, the accounting of whole runs, the tracking of
    peers and the effect of the end of standard input. Theory \<^verbatim>\<open>Node_Refine\<close> shows that a run of the program is a run of
    an abstract purse on unbounded numbers, and that the two build profiles agree on every run without a panic.
    Theory \<^verbatim>\<open>Command_Line\<close> goes from the words of the command line to the first state: the options as declared to clap
    (\<open>cli_args\<close>), the values read from them (\<open>try_parse_from\<close>), when they are rejected and what the node starts with.
  \<^item> Theory \<^verbatim>\<open>Cluster\<close> connects any number of nodes: published bytes may reach any node any number of times, a direct
    request at most once, everything else happens in any order. Shown: without direct requests the nodes never hold more
    than they started with, and with them every payment counts at most twice. Theory \<^verbatim>\<open>Settlement\<close> accounts for all
    the money of debug builds as what is held, open or sent to strangers, and shows that deliveries alone settle all that is open except the
    payments that gossip refused to publish, which stay open. Theory \<^verbatim>\<open>Adversary\<close> shows what a peer
    that does not run this program can do to one that does.
  \<^item> \<^verbatim>\<open>secure_transfer.cpp\<close>: theory \<^verbatim>\<open>Cpp_Base\<close> holds the primitives and the framing of data on a
    socket (\<open>sendData\<close>, \<open>receiveData\<close>), \<^verbatim>\<open>Cpp_Crypto\<close> the classes \<open>AESCrypto\<close> and \<open>ECCCrypto\<close>, and
    \<^verbatim>\<open>Secure_Transfer\<close> the receiver, the sender and \<open>main\<close> (\<open>transfer_main\<close>). A method is a computation over the process: what it has read,
    written, opened, closed and printed, and an exception is a value. Shown: framing and encryption are inverted, truncated and
    tampered data is refused, a session delivers its message, what somebody between the two can do, and that descriptors are closed on every path.
  \<^item> \<^verbatim>\<open>crypto_core.cpp\<close>: theory \<^verbatim>\<open>Crypto_Core\<close> models the demonstration, step by step, and shows its whole
    output, which key it really uses, and that no other key agreement changes anything but the lines that show the secret.
  \<^item> The test modules: theory \<^verbatim>\<open>Ledger_Tests\<close> holds the ledger's tests as scripts over the model, with the operations on maps as a
    reference to which the ledger is shown equal; \<^verbatim>\<open>Unit_Tests\<close> and \<^verbatim>\<open>Wallet_Tx_Tests\<close> those of wallets,
    transactions, snapshots and command lines; \<^verbatim>\<open>Message_Tests\<close> those of messages, constants, the transaction cache and the
    set of peers; \<^verbatim>\<open>Cli_Tests\<close> those of the command line. All of them are shown to pass, not for one run but for all random bytes with different addresses; those that
    compare transaction hashes, as long as the wire forms compared have different digests, and those in which a signature must not fit
    another message or key, unless it does.
  \<^item> This theory puts two nodes together: a payment from the typed line to the confirmation, the order
    in which its two copies arrive, and a \<open>send\<close> with nobody connected.

  \<^bold>\<open>The libraries.\<close> Theory \<^verbatim>\<open>Rust_Base\<close> models what the sources use of the language and its standard library: words,
  overflow, results, decimal text, white space, hash maps. The crates hex, sha2, sha3, ed25519-dalek and rlp are the
  record \<open>crates\<close> of theory \<^verbatim>\<open>Crates\<close>, an argument of every definition that calls them, with the documented behaviour the
  code relies on as \<open>crates_ok\<close>; no collision or unforgeability assumption is made, except
  that \<open>network_settles\<close> assumes the digests of the published transactions to be distinct. Theory \<^verbatim>\<open>Crates_Ref\<close> builds an instance (hex and RLP in
  full, stand-ins for the digests and signatures), which shows that \<open>crates_ok\<close> can hold and on which the examples run. What
  libp2p answers is in the records \<open>libp2p\<close>, \<open>swarm\<close> and \<open>host\<close>; what it is told is the list \<open>n_effects\<close>, with the
  printed lines, in order. Random bytes and the clock are arguments; so are the matcher of clap, of which \<open>clap_ok\<close> states how it reads options that are
  followed by their values, and the parser of multiaddresses. For the C++ programs the operating
  system and OpenSSL are the records \<open>posix\<close> and \<open>openssl\<close>, any answer of which may be a failure and may depend on
  how many were given before; \<open>socket_ok\<close> states how sockets move bytes, \<open>ssl_ok\<close>, \<open>ssl_up\<close> and \<open>ssl_same\<close> what the library documents,
  that its calls succeed, and that two processes use the same one. \<open>ref_ssl\<close> is an instance.

  \<^bold>\<open>Interfaces.\<close> \<open>store\<close> (a map with a total, interpreted by the hash map), \<open>codec\<close> (a printer and its parser:
  decimal text, textual addresses, the wire form of transactions, strings and lengths of the C++ framing), \<open>sequenced\<close> (a state with a sequence number per key: the ledger and its
  specification), \<open>invariant_system\<close> (a transition system with an inductive invariant: the event loop, the threads, the snapshot
  reader, the network and its settlement), \<open>simulation\<close> (a run of one system is a run of another: the ledger and its specification, the node and
  the purse, the two builds) and \<open>observed\<close> (a part of the process that all but a few primitives leave alone: the bytes written, and the system calls).

  \<^bold>\<open>Errors, panics and bounds.\<close> A Rust \<open>Result\<close> is a sum with the message on the left, a panic is the value \<open>Panic\<close>;
  a handler returns the state beside it, so that what a panic leaves behind is visible; a C++ exception is a value beside the process. Balances, nonces, amounts and times are
  64-bit words, lengths on the C++ socket 32-bit words; the arithmetic of the node takes the build profile as an argument. All functions are total, no fuel is used:
  the loops of the C++ programs end because every successful call moves at least one byte, and the attempts to connect are counted.
  The step relation has no step for a panic, and \<open>main_exec\<close> returns it.

  \<^bold>\<open>What the properties found.\<close> A node credits any well-signed payment without looking at the funds of its sender, so a stranger can set its
  balance, or end a debug build. The request handler does not consult the cache of processed transactions, so a payment whose gossip copy comes first, or
  whose request is repeated, is credited more than once; a \<open>send\<close> without peers spends; one closed connection of several drops a
  peer; a balance beyond 64 bits wraps in a release build and interrupts a transfer in a debug build; a snapshot beside a
  transfer can count its amount twice. In the C++ programs the exchanged keys are not authenticated although the receiver calls the message authentic,
  more than 10 MB is sent but never received and more than 4 GB announced with a wrapped length, a socket path that is too
  long for its address is never removed, and the demonstration does not use the key it agrees on.

  \<^bold>\<open>Not modelled.\<close> The inside of libp2p, of the crates, of OpenSSL and of the operating system; log output, the inside of clap and its help texts, the failure of
  \<open>send_response\<close> (only logged by the code), and the memory wiping of keys. The node calls its ledger from one task, so the
  theories of the node use the sequential operations. Of the C++ programs, banners, usage texts and standard error, memory management, signals, buffers too large for the
  \<open>int\<close> lengths of OpenSSL, and the results of \<open>EC_KEY\<close> calls that the code does not check, which are taken to succeed; the length of a frame is laid out
  as on a little-endian machine. The deployment files. In the network of \<^verbatim>\<open>Cluster\<close> all nodes run this program; forged messages are treated at one node, in \<^verbatim>\<open>Adversary\<close>.
\<close>

section \<open>Two nodes\<close>

text \<open>What makes a payment between two nodes possible.\<close>

definition can_pay :: "crates \<Rightarrow> build \<Rightarrow> node \<Rightarrow> node \<Rightarrow> u64 \<Rightarrow> bool" where
  "can_pay L bp A B amount \<longleftrightarrow>
     wallet_wf L (n_wallet A) \<and> wallet_wf L (n_wallet B) \<and> own_address A \<noteq> own_address B \<and>
     ledger_balance (n_ledger A) (own_address A) \<noteq> None \<and> amount \<noteq> 0 \<and> amount \<le> own_balance A \<and>
     send_fits bp A (own_address B) amount"

lemma can_pay_accepted:
  assumes "crates_ok L" "can_pay L bp A B amount" "c \<in> send_words"
  shows "handle_command L bp W now (send_line L c (n_wallet B) amount) A =
    (after_send L W now (own_address B) amount A, Ret ())"
proof -
  note ok = crates_okD [OF assms(1)]
  have "length (address (n_wallet B)) = ADDRESS_LEN"
    using assms(2) wallet_wf_address_length [OF ok(2)] by (simp add: can_pay_def)
  then have addr: "address_from_hex L (address_hex L (n_wallet B)) = Inr (own_address B)"
    using address_from_hex_encode(1) [OF ok(1)] by (simp only: address_hex_def own_address_def wallet_address_def)
  obtain s where s: "map_of (accounts (n_ledger A)) (own_address A) = Some s"
    using assms(2) by (auto simp: can_pay_def ledger_balance_def)
  then have err: "transfer_error (n_ledger A) (own_address A) (own_address B) amount (own_nonce A) = None"
    using assms(2) own_nonce_lookup [OF s] own_balance_lookup [OF s] by (auto simp: can_pay_def transfer_error_None)
  show ?thesis
    using handle_command_send [OF send_line_words [OF ok(1) assms(3)] assms(3)] assms(2)
      cmd_send_accepted(1) [OF ok(3) _ addr parse_show_u64 err]
    by (simp add: can_pay_def)
qed

lemma can_pay_payable:
  assumes "crates_ok L" "can_pay L bp A B amount"
  shows "payable L B (to_rlp_bytes L (sent_tx L now A (own_address B) amount)) =
    Some (sent_tx L now A (own_address B) amount)"
proof (rule payable_sent [OF assms(1)])
  show "wallet_wf L (n_wallet A)" using assms(2) by (simp add: can_pay_def)
  show "length (own_address B) = ADDRESS_LEN"
    using assms wallet_wf_address_length crates_okD(2)
    by (auto simp: can_pay_def own_address_def wallet_address_def)
qed simp

text \<open>
  C1: A payment arrives. When a node types the address another node shows, and its balance covers the amount, the
  command is accepted; the request it sends to each connected peer and the message it publishes carry the same
  bytes; the addressee accepts the request, answers with the hash the sender remembers, and is richer by exactly the
  amount the sender lost. A copy that arrives later by gossip changes nothing at either end.
\<close>

theorem payment_end_to_end:
  assumes "crates_ok L" "can_pay L bp A B amount" "c \<in> send_words" "\<not> credit_overflows bp amount B"
  shows "\<exists>A' B' req h.
    handle_command L bp W now (send_line L c (n_wallet B) amount) A = (A', Ret ()) \<and>
    (\<forall>pid \<in> set (n_peers A). SendRequest pid req \<in> set (n_effects A')) \<and>
    Publish TX_TOPIC (tx_rlp req) \<in> set (n_effects A') \<and>
    handle_behaviour_event L bp (Transfer (RequestMessage peer req ch)) B = (B', Ret ()) \<and>
    last (n_effects B') = SendResponse ch \<lparr>accepted = True, reason = [], resp_tx_hash = h\<rparr> \<and>
    h \<in> n_cache A' \<and> h \<in> n_cache B' \<and>
    own_balance A' = own_balance A - amount \<and> own_balance B' = own_balance B + amount \<and>
    handle_behaviour_event L bp (Gossipsub (GossipMessage src mid (tx_rlp req))) B' = (B', Ret ()) \<and>
    handle_behaviour_event L bp (Gossipsub (GossipMessage src mid (tx_rlp req))) A' = (A', Ret ())"
proof -
  let ?tx = "sent_tx L now A (own_address B) amount" and ?A = "after_send L W now (own_address B) amount A"
  let ?req = "\<lparr>tx_rlp = to_rlp_bytes L ?tx\<rparr>"
  note pay = can_pay_payable [OF assms(1,2), of now]
  let ?B = "fst (on_transfer_request L bp ?req ch B)"
  have B: "on_transfer_request L bp ?req ch B = (?B, Ret ())" "own_balance ?B = own_balance B + amount"
    "n_cache ?B = insert (tx_hash L ?tx) (n_cache B)"
    "last (n_effects ?B) = SendResponse ch \<lparr>accepted = True, reason = [], resp_tx_hash = tx_hash L ?tx\<rparr>"
    using assms(4) by (simp_all add: on_transfer_request_eq pay)
  have gossip: "on_gossip L bp (tx_rlp ?req) nd = (nd, Ret ())" if "tx_hash L ?tx \<in> n_cache nd" for nd
    using that payable_SomeD [OF pay] by (simp add: on_gossip_eq)
  have "own_balance ?A = own_balance A - amount"
    using assms(2) by (intro after_send_own(2)) (auto simp: can_pay_def)
  moreover have "(\<forall>pid \<in> set (n_peers A). SendRequest pid ?req \<in> set (n_effects ?A)) \<and>
      Publish TX_TOPIC (tx_rlp ?req) \<in> set (n_effects ?A)"
    by (simp add: after_send_def Let_def direct_requests_def)
  ultimately show ?thesis
    using can_pay_accepted [OF assms(1,2,3), of W now] B gossip [of ?B] gossip [of ?A]
    by (intro exI [of _ ?A] exI [of _ ?B] exI [of _ ?req] exI [of _ "tx_hash L ?tx"]) simp
qed

text \<open>
  C19: The outcome depends on which copy arrives first. An accepted \<open>send\<close> reaches its addressee both by gossip and by
  a direct request; when the gossip copy is handled before the request, a release build credits the
  amount twice and accepts the request.
\<close>

theorem gossip_before_request_credits_twice:
  assumes "crates_ok L" "can_pay L Release A B amount"
    and "tx_hash L (sent_tx L now A (own_address B) amount) \<notin> n_cache B"
  shows "\<exists>B1 B2. let data = to_rlp_bytes L (sent_tx L now A (own_address B) amount) in
    handle_behaviour_event L Release (Gossipsub (GossipMessage src mid data)) B = (B1, Ret ()) \<and>
    handle_behaviour_event L Release (Transfer (RequestMessage peer \<lparr>tx_rlp = data\<rparr> ch)) B1 = (B2, Ret ()) \<and>
    own_balance B1 = own_balance B + amount \<and> own_balance B2 = own_balance B + 2 * amount"
proof -
  let ?tx = "sent_tx L now A (own_address B) amount"
  let ?data = "to_rlp_bytes L ?tx"
  let ?B1 = "fst (on_gossip L Release ?data B)"
  note pay = can_pay_payable [OF assms(1,2), of now]
  have B1: "on_gossip L Release ?data B = (?B1, Ret ())" "own_balance ?B1 = own_balance B + amount" "n_wallet ?B1 = n_wallet B"
    using payable_SomeD [OF pay] assms(3) by (simp_all add: on_gossip_eq pay credit_overflows_def)
  have "payable L ?B1 ?data = Some ?tx" using pay payable_cong [OF B1(3), of L] by simp
  then obtain B2 where "on_transfer_request L Release \<lparr>tx_rlp = ?data\<rparr> ch ?B1 = (B2, Ret ())"
      "own_balance B2 = own_balance ?B1 + amount"
    by (simp add: on_transfer_request_eq credit_overflows_def)
  with B1(1,2) show ?thesis by (intro exI [of _ ?B1] exI [of _ B2]) (simp add: Let_def)
qed

text \<open>
  C21: Sending while offline spends. With no connected peer and no gossip mesh the command reports that nobody is
  connected and says to try again, but the amount has already left the own balance and the
  nonce has moved on, while no request was sent: each further try spends the amount again.
\<close>

theorem offline_send_spends:
  assumes "crates_ok L" "can_pay L bp A B amount" "c \<in> send_words"
    and "n_peers A = []" "\<forall>es t d. swarm_publish W es t d \<noteq> Inr ()"
  shows "\<exists>A' d. handle_command L bp W now (send_line L c (n_wallet B) amount) A = (A', Ret ()) \<and>
    n_effects A' = n_effects A @ [Publish TX_TOPIC d,
      Println (warn_sign @ '' No peers connected. Transaction saved locally.''),
      Println ''  Connect to a peer and try again.''] \<and>
    own_balance A' = own_balance A - amount \<and> own_nonce A' = own_nonce A + 1"
proof -
  let ?A = "after_send L W now (own_address B) amount A"
  have "own_address B \<noteq> own_address A" using assms(2) by (auto simp: can_pay_def)
  moreover have "n_effects ?A = n_effects A @ [Publish TX_TOPIC (to_rlp_bytes L (sent_tx L now A (own_address B) amount)),
      Println (warn_sign @ '' No peers connected. Transaction saved locally.''),
      Println ''  Connect to a peer and try again.'']"
    using assms(4,5) by (simp add: after_send_def Let_def direct_requests_def send_report_def publish_ok_def)
  ultimately show ?thesis
    using can_pay_accepted [OF assms(1,2,3), of W now] after_send_own [of "own_address B" A L W now amount] by blast
qed

lemma example_can_pay: "can_pay ref_crates bp (example_node 7) (example_node 8) 5"
proof -
  have "send_fits bp (example_node 7) (own_address (example_node 8)) 5"
    using example_send(6) by (auto simp: send_fits_def)
  then show ?thesis
    using example_node_own(6) [of 7]
    by (simp add: can_pay_def example_node_wf ledger_balance_def example_node_own(1,2) word_le_nat_alt)
qed

theorem payment_end_to_end_witness:
  "\<exists>A' B'. handle_command ref_crates Debug example_swarm 1
       (send_line ref_crates ''send'' (n_wallet (example_node 8)) 5) (example_node 7) = (A', Ret ()) \<and>
     own_balance A' = 95 \<and> own_balance B' = 105"
  using payment_end_to_end [OF ref_crates_ok example_can_pay example_send(2) example_no_overflow, of Debug example_swarm 1]
  by (force simp: example_node_own(2))

theorem gossip_before_request_credits_twice_witness:
  "\<exists>B1 B2. handle_behaviour_event ref_crates Release (Gossipsub (GossipMessage ''p'' ''m'' example_bytes)) (example_node 8) =
       (B1, Ret ()) \<and>
     handle_behaviour_event ref_crates Release (Transfer (RequestMessage ''p'' \<lparr>tx_rlp = example_bytes\<rparr> 1)) B1 = (B2, Ret ()) \<and>
     own_balance B2 = 110"
proof -
  have "tx_hash ref_crates (sent_tx ref_crates 1 (example_node 7) (own_address (example_node 8)) 5) \<notin> n_cache (example_node 8)"
    by (simp add: example_node_def)
  from gossip_before_request_credits_twice [OF ref_crates_ok example_can_pay this, of "''p''" "''m''" "''p''" 1] show ?thesis
    by (auto simp: Let_def example_node_own(2) example_bytes_def example_payment_def)
qed

theorem offline_send_spends_witness:
  "\<exists>A'. handle_command ref_crates Debug example_swarm 1
       (send_line ref_crates ''send'' (n_wallet (example_node 8)) 5) ((example_node 7)\<lparr>n_peers := []\<rparr>) = (A', Ret ()) \<and>
     own_balance A' = 95 \<and> own_nonce A' = 1"
proof -
  let ?A = "(example_node 7)\<lparr>n_peers := []\<rparr>"
  have own: "own_address ?A = own_address (example_node 7)" "own_balance ?A = 100" "own_nonce ?A = 0"
    using example_node_own(2,3) [of 7] by (simp_all add: own_address_def own_balance_def own_nonce_def)
  then have "can_pay ref_crates Debug ?A (example_node 8) 5"
    using example_can_pay [of Debug] example_node_own(2,3) [of 7] by (simp add: can_pay_def send_fits_def)
  from offline_send_spends [OF ref_crates_ok this example_send(2), of example_swarm 1] show ?thesis
    by (auto simp: example_swarm_def own)
qed

end
